(* ===== verification/Prelude.thy ===== *)
theory Prelude
  imports Main "HOL-Library.Word" "HOL-Library.Code_Target_Nat"
begin

unbundle bit_operations_syntax

text \<open>
  The prelude of the development: the types every component shares (Go's \<open>byte\<close>,
  \<open>[]byte\<close> and \<open>string\<close>, an \<open>error\<close> value, and the outcome of a Go call, which
  returns a value, returns an error or panics), the big-endian integer codecs of
  \<open>encoding/binary\<close> the source uses, and the generic lemmas and collections that the
  component theories put in their simpsets.
\<close>

section \<open>Collections\<close>

named_theorems outcome_simps \<open>unfolding of the outcome monad\<close>
named_theorems be_simps \<open>big-endian reads of known bytes\<close>

section \<open>Bytes, strings and conversions\<close>

text \<open>
  A Go \<open>string\<close> is an immutable sequence of bytes, which is what a \<open>char list\<close> is; a
  \<open>[]byte\<close> is a list of 8-bit words. \<open>string(b)\<close> and \<open>[]byte(s)\<close> convert.
  Lengths and offsets (Go's 64-bit \<open>int\<close>) are \<open>nat\<close>: they are bounded by the
  sizes of buffers the program holds in memory.
\<close>

type_synonym byte = "8 word"
type_synonym bytes = "byte list"

definition string_of_bytes :: "bytes \<Rightarrow> string" where
  "string_of_bytes bs = map (\<lambda>b. char_of (unat b)) bs"

definition bytes_of_string :: "string \<Rightarrow> bytes" where
  "bytes_of_string s = map of_char s"

lemma unat_of_char [simp]: "unat (of_char c :: byte) = of_char c"
proof -
  have "(of_char c :: byte) = of_nat (of_char c)"
    by (simp add: of_nat_of_char)
  moreover have "of_char c < (256 :: nat)" by simp
  ultimately show ?thesis by (simp add: unat_of_nat take_bit_nat_eq_self)
qed

lemma of_char_char_of_unat [simp]: "(of_char (char_of (unat b)) :: byte) = b"
proof -
  have "unat b < 256" using unsigned_less [of b, where ?'a = nat] by simp
  then have "unat (of_char (char_of (unat b)) :: byte) = unat b" by simp
  then show ?thesis by (simp add: word_unat_eq_iff)
qed

lemma string_of_bytes_of_string [simp]: "string_of_bytes (bytes_of_string s) = s"
  by (simp add: string_of_bytes_def bytes_of_string_def comp_def)

lemma bytes_of_string_of_bytes [simp]: "bytes_of_string (string_of_bytes b) = b"
  by (simp add: string_of_bytes_def bytes_of_string_def comp_def)

lemma length_string_of_bytes [simp]: "length (string_of_bytes b) = length b"
  by (simp add: string_of_bytes_def)

lemma length_bytes_of_string [simp]: "length (bytes_of_string s) = length s"
  by (simp add: bytes_of_string_def)

lemma string_of_bytes_append [simp]:
  "string_of_bytes (a @ b) = string_of_bytes a @ string_of_bytes b"
  by (simp add: string_of_bytes_def)

lemma bytes_of_string_append [simp]:
  "bytes_of_string (a @ b) = bytes_of_string a @ bytes_of_string b"
  by (simp add: bytes_of_string_def)

lemma bytes_of_string_Nil [simp]: "bytes_of_string [] = []"
  by (simp add: bytes_of_string_def)

lemma string_of_bytes_Nil [simp]: "string_of_bytes [] = []"
  by (simp add: string_of_bytes_def)

text \<open>\<open>byte(len(x))\<close>: a length converted to a byte, which keeps the low eight bits.\<close>

definition byte_len :: "'a list \<Rightarrow> byte" where
  "byte_len xs = of_nat (length xs)"

lemma unat_byte_len: "length xs < 256 \<Longrightarrow> unat (byte_len xs) = length xs"
  by (simp add: byte_len_def unat_of_nat take_bit_nat_eq_self)

lemma byte_len_eq_0 [simp]: "length xs < 256 \<Longrightarrow> byte_len xs = 0 \<longleftrightarrow> xs = []"
  by (metis unat_byte_len unat_eq_zero length_0_conv)

section \<open>Errors and outcomes\<close>

text \<open>
  An \<open>error\<close> is identified by the format string it is built from: \<open>errors.New\<close> and
  \<open>fmt.Errorf\<close> without \<open>%w\<close> give \<open>Errorf\<close>, \<open>fmt.Errorf\<close> with \<open>%w\<close> gives
  \<open>Wrapf\<close> around the wrapped error, and a package-level error variable that
  \<open>errors.Is\<close> compares by identity is a \<open>Sentinel\<close>. The values printed into a
  message are not part of the model.
\<close>

datatype error = Errorf string | Wrapf string error | Sentinel string

text \<open>\<open>errors.Is(err, target)\<close> for a sentinel target: the chain of wrapped errors is searched.\<close>

fun errors_Is :: "error \<Rightarrow> error \<Rightarrow> bool" where
  "errors_Is (Wrapf m e) target = (Wrapf m e = target \<or> errors_Is e target)"
| "errors_Is e target = (e = target)"

text \<open>
  A Go call returns its value, returns a non-nil error, or panics. A panic is kept apart
  from an error: no caller of the modelled code recovers from one.
\<close>

datatype panic = SliceBoundsOutOfRange | CloseOfClosedChannel | NilDereference | StackOverflow

datatype 'a outcome = Ret (returned: 'a) | Err error | Panic panic

fun obind :: "'a outcome \<Rightarrow> ('a \<Rightarrow> 'b outcome) \<Rightarrow> 'b outcome" where
  "obind (Ret x) f = f x"
| "obind (Err e) f = Err e"
| "obind (Panic p) f = Panic p"

text \<open>\<open>if err != nil { return fmt.Errorf(...) }\<close>: the error of a call replaced by another.\<close>

fun map_err :: "(error \<Rightarrow> error) \<Rightarrow> 'a outcome \<Rightarrow> 'a outcome" where
  "map_err f (Err e) = Err (f e)"
| "map_err f r = r"

definition is_ret :: "'a outcome \<Rightarrow> bool" where
  "is_ret r \<longleftrightarrow> (case r of Ret _ \<Rightarrow> True | _ \<Rightarrow> False)"

definition panics :: "'a outcome \<Rightarrow> bool" where
  "panics r \<longleftrightarrow> (case r of Panic _ \<Rightarrow> True | _ \<Rightarrow> False)"

lemma is_ret_simps [simp]: "is_ret (Ret x)" "\<not> is_ret (Err e)" "\<not> is_ret (Panic p)"
  by (simp_all add: is_ret_def)

lemma panics_simps [simp]: "\<not> panics (Ret x)" "\<not> panics (Err e)" "panics (Panic p)"
  by (simp_all add: panics_def)

lemma obind_eq_Ret [outcome_simps]:
  "obind r f = Ret y \<longleftrightarrow> (\<exists>x. r = Ret x \<and> f x = Ret y)"
  by (cases r) auto

lemma map_err_eq_Ret [simp]: "map_err f r = Ret y \<longleftrightarrow> r = Ret y"
  by (cases r) auto

lemma panics_map_err [simp]: "panics (map_err f r) = panics r"
  by (cases r) auto

lemma panics_obind:
  "panics (obind r f) \<longleftrightarrow> panics r \<or> (\<exists>x. r = Ret x \<and> panics (f x))"
  by (cases r) auto

text \<open>
  A call that may not return at all (unbounded recursion, which ends in a stack overflow
  that no Go program recovers from) has type \<open>'a outcome option\<close>, and \<open>None\<close> is not
  returning.
\<close>

definition dbind :: "'a outcome option \<Rightarrow> ('a \<Rightarrow> 'b outcome option) \<Rightarrow> 'b outcome option" where
  "dbind m f = (case m of
       None \<Rightarrow> None
     | Some (Ret x) \<Rightarrow> f x
     | Some (Err e) \<Rightarrow> Some (Err e)
     | Some (Panic p) \<Rightarrow> Some (Panic p))"

lemma dbind_simps [simp]:
  "dbind None f = None" "dbind (Some (Ret x)) f = f x"
  "dbind (Some (Err e)) f = Some (Err e)" "dbind (Some (Panic p)) f = Some (Panic p)"
  by (simp_all add: dbind_def)

lemma dbind_eq_Ret: "dbind m f = Some (Ret y) \<longleftrightarrow> (\<exists>x. m = Some (Ret x) \<and> f x = Some (Ret y))"
  by (auto simp: dbind_def split: option.splits outcome.splits)

lemma dbind_eq_Panic:
  "dbind m f = Some (Panic p) \<longleftrightarrow> m = Some (Panic p) \<or> (\<exists>x. m = Some (Ret x) \<and> f x = Some (Panic p))"
  by (auto simp: dbind_def split: option.splits outcome.splits)

lemma dbind_eq_None: "dbind m f = None \<longleftrightarrow> m = None \<or> (\<exists>x. m = Some (Ret x) \<and> f x = None)"
  by (auto simp: dbind_def split: option.splits outcome.splits)

lemma map_err_eq_Panic [simp]: "map_err f r = Panic p \<longleftrightarrow> r = Panic p"
  by (cases r) auto

lemma map_option_map_err_Ret [simp]: "map_option (map_err f) m = Some (Ret y) \<longleftrightarrow> m = Some (Ret y)"
  by (cases m) auto

section \<open>Big-endian integers\<close>

text \<open>\<open>binary.Write(buf, binary.BigEndian, v)\<close> and \<open>PutUint16\<close>, \<open>PutUint32\<close>.\<close>

definition put16 :: "16 word \<Rightarrow> bytes" where
  "put16 w = [ucast (drop_bit 8 w), ucast w]"

definition put32 :: "32 word \<Rightarrow> bytes" where
  "put32 w = [ucast (drop_bit 24 w), ucast (drop_bit 16 w), ucast (drop_bit 8 w), ucast w]"

text \<open>
  \<open>binary.BigEndian.Uint16(data[i:i+2])\<close> and \<open>Uint32(data[i:i+4])\<close>. The code checks
  the length before every one of these reads.
\<close>

definition get16 :: "bytes \<Rightarrow> nat \<Rightarrow> 16 word" where
  "get16 bs i = push_bit 8 (ucast (bs ! i)) OR ucast (bs ! (i + 1))"

definition get32 :: "bytes \<Rightarrow> nat \<Rightarrow> 32 word" where
  "get32 bs i = push_bit 24 (ucast (bs ! i)) OR push_bit 16 (ucast (bs ! (i + 1)))
     OR push_bit 8 (ucast (bs ! (i + 2))) OR ucast (bs ! (i + 3))"

lemma length_put16 [simp]: "length (put16 w) = 2"
  by (simp add: put16_def)

lemma length_put32 [simp]: "length (put32 w) = 4"
  by (simp add: put32_def)

lemma join16: "push_bit 8 (ucast (ucast (drop_bit 8 w) :: byte)) OR ucast (ucast w :: byte) = (w :: 16 word)"
  by (rule bit_word_eqI) (auto simp: bit_simps)

lemma join32:
  "push_bit 24 (ucast (ucast (drop_bit 24 w) :: byte)) OR push_bit 16 (ucast (ucast (drop_bit 16 w) :: byte))
     OR push_bit 8 (ucast (ucast (drop_bit 8 w) :: byte)) OR ucast (ucast w :: byte) = (w :: 32 word)"
proof (rule bit_word_eqI)
  fix n
  assume "n < LENGTH(32)"
  then consider "n < 8" | "8 \<le> n" "n < 16" | "16 \<le> n" "n < 24" | "24 \<le> n" "n < 32"
    by fastforce
  then show "bit (push_bit 24 (ucast (ucast (drop_bit 24 w) :: byte))
      OR push_bit 16 (ucast (ucast (drop_bit 16 w) :: byte))
      OR push_bit 8 (ucast (ucast (drop_bit 8 w) :: byte)) OR ucast (ucast w :: byte) :: 32 word) n = bit w n"
    by cases (auto simp: bit_simps)
qed

lemma get16_put16 [be_simps]: "get16 (put16 w @ s) 0 = w"
  by (simp add: get16_def put16_def join16)

lemma get32_put32 [be_simps]: "get32 (put32 w @ s) 0 = w"
  by (simp add: get32_def put32_def join32)

lemma get16_put16' [be_simps]: "get16 (put16 w) 0 = w"
  using get16_put16 [of w "[]"] by simp

lemma get32_put32' [be_simps]: "get32 (put32 w) 0 = w"
  using get32_put32 [of w "[]"] by simp

lemma get16_append [be_simps]: "length p \<le> i \<Longrightarrow> get16 (p @ s) i = get16 s (i - length p)"
  by (simp add: get16_def nth_append Suc_diff_le)

lemma get32_append [be_simps]: "length p \<le> i \<Longrightarrow> get32 (p @ s) i = get32 s (i - length p)"
  by (simp add: get32_def nth_append Suc_diff_le numeral_eq_Suc)

lemma get16_prefix: "i + 2 \<le> length p \<Longrightarrow> get16 (p @ s) i = get16 p i"
  by (simp add: get16_def nth_append)

section \<open>Lists\<close>

lemma take_drop_append_exact [simp]: "take (length b) (drop (length a) (a @ b @ c)) = b"
  by simp

lemma length_concat_map_const:
  "(\<And>x. x \<in> set xs \<Longrightarrow> length (f x) = n) \<Longrightarrow> length (concat (map f xs)) = n * length xs"
  by (induction xs) auto

lemma find_append_skip: "\<forall>x \<in> set p. \<not> P x \<Longrightarrow> find P (p @ q) = find P q"
  by (induction p) auto

lemma find_SomeD: "find P xs = Some x \<Longrightarrow> x \<in> set xs \<and> P x"
  by (induction xs) (auto split: if_splits)

lemma map_of_distinct_inj:
  "distinct (map snd t) \<Longrightarrow> map_of t a = Some v \<Longrightarrow> map_of t b = Some v \<Longrightarrow> a = b"
proof (induction t)
  case (Cons p t)
  obtain k w where p: "p = (k, w)" by (cases p)
  have mem: "\<And>x. map_of t x = Some w \<Longrightarrow> w \<in> snd ` set t"
    by (force dest: map_of_SomeD)
  show ?case
    using Cons mem [of a] mem [of b] by (auto simp: p split: if_splits)
qed simp

text \<open>A table read backwards: the reverse of a table with distinct values undoes it.\<close>

lemma map_of_swap:
  "distinct (map snd t) \<Longrightarrow> map_of t k = Some v \<Longrightarrow> map_of (map prod.swap t) v = Some k"
proof (induction t)
  case (Cons p t)
  then show ?case
    by (cases p) (auto split: if_splits dest: map_of_SomeD simp: rev_image_eqI)
qed simp

end
