(* ===== verification/GoStrings.thy ===== *)
theory GoStrings
  imports Prelude "HOL-Library.Sublist"
begin

text \<open>
  The functions of Go's \<open>strings\<close>, \<open>strconv\<close> and \<open>fmt\<close> packages that the source
  calls, over byte strings. White space is that of \<open>unicode.IsSpace\<close>, as the UTF-8
  byte sequences of its runes: a lead byte never occurs inside another rune's encoding, so
  matching sequences of bytes is matching runes. Lower-casing of a string with a byte
  outside ASCII needs Unicode's case tables; it is an argument (see \<open>ToLower\<close>).
\<close>

section \<open>Trimming\<close>

definition ascii_space_codes :: "nat list" where
  "ascii_space_codes = [9, 10, 11, 12, 13, 32]"

definition wide_space_codes :: "nat list list" where
  "wide_space_codes =
     [[0xC2, 0x85], [0xC2, 0xA0], [0xE1, 0x9A, 0x80]]
     @ map (\<lambda>b. [0xE2, 0x80, b]) [0x80, 0x81, 0x82, 0x83, 0x84, 0x85, 0x86, 0x87, 0x88, 0x89, 0x8A, 0xA8, 0xA9, 0xAF]
     @ [[0xE2, 0x81, 0x9F], [0xE3, 0x80, 0x80]]"

definition space_runes :: "string list" where
  "space_runes = map (map char_of) (map (\<lambda>n. [n]) ascii_space_codes @ wide_space_codes)"

lemma space_runes_code [code]:
  "space_runes =
     [[CHR 0x09], [CHR 0x0A], [CHR 0x0B], [CHR 0x0C], [CHR 0x0D], [CHR 0x20],
      [CHR 0xC2, CHR 0x85], [CHR 0xC2, CHR 0xA0], [CHR 0xE1, CHR 0x9A, CHR 0x80]]
     @ map (\<lambda>c. [CHR 0xE2, CHR 0x80, c])
         [CHR 0x80, CHR 0x81, CHR 0x82, CHR 0x83, CHR 0x84, CHR 0x85, CHR 0x86, CHR 0x87, CHR 0x88,
          CHR 0x89, CHR 0x8A, CHR 0xA8, CHR 0xA9, CHR 0xAF]
     @ [[CHR 0xE2, CHR 0x81, CHR 0x9F], [CHR 0xE3, CHR 0x80, CHR 0x80]]"
  by (simp add: space_runes_def ascii_space_codes_def wide_space_codes_def char_of_def bit_0)

text \<open>
  The number of bytes of the white-space rune at the front of a string, 0 if there is
  none, and the same for the end of a string.
\<close>

definition lead_space :: "string \<Rightarrow> nat" where
  "lead_space s = (case find (\<lambda>r. prefix r s) space_runes of None \<Rightarrow> 0 | Some r \<Rightarrow> length r)"

definition trail_space :: "string \<Rightarrow> nat" where
  "trail_space s = (case find (\<lambda>r. suffix r s) space_runes of None \<Rightarrow> 0 | Some r \<Rightarrow> length r)"

lemma lead_space_le: "lead_space s \<le> length s"
  by (auto simp: lead_space_def find_Some_iff prefix_length_le split: option.splits)

lemma trail_space_le: "trail_space s \<le> length s"
  by (auto simp: trail_space_def find_Some_iff suffix_length_le split: option.splits)

lemma lead_space_Nil [simp]: "lead_space [] = 0"
  using lead_space_le [of "[]"] by simp

lemma trail_space_Nil [simp]: "trail_space [] = 0"
  using trail_space_le [of "[]"] by simp

lemma drop_lead_space_less: "lead_space s \<noteq> 0 \<Longrightarrow> length (drop (lead_space s) s) < length s"
  by (cases s) auto

function trim_left :: "string \<Rightarrow> string" where
  "trim_left s = (if lead_space s = 0 then s else trim_left (drop (lead_space s) s))"
  by pat_completeness auto
termination
  by (relation "measure length") (use drop_lead_space_less in auto)

function trim_right :: "string \<Rightarrow> string" where
  "trim_right s = (if trail_space s = 0 then s else trim_right (take (length s - trail_space s) s))"
  by pat_completeness auto
termination
proof (relation "measure length", simp)
  fix s :: string
  assume "trail_space s \<noteq> 0"
  then show "(take (length s - trail_space s) s, s) \<in> measure length"
    using trail_space_le [of s] by auto
qed

declare trim_left.simps [simp del] trim_right.simps [simp del]

text \<open>\<open>strings.TrimSpace\<close>\<close>

definition TrimSpace :: "string \<Rightarrow> string" where
  "TrimSpace s = trim_right (trim_left s)"

text \<open>\<open>strings.HasSuffix\<close>, \<open>strings.TrimSuffix\<close> and \<open>strings.TrimPrefix\<close>\<close>

definition HasSuffix :: "string \<Rightarrow> string \<Rightarrow> bool" where
  "HasSuffix s suf \<longleftrightarrow> suffix suf s"

definition TrimSuffix :: "string \<Rightarrow> string \<Rightarrow> string" where
  "TrimSuffix s suf = (if HasSuffix s suf then take (length s - length suf) s else s)"

definition TrimPrefix :: "string \<Rightarrow> string \<Rightarrow> string" where
  "TrimPrefix s pre = (if prefix pre s then drop (length pre) s else s)"

text \<open>\<open>strings.Trim(s, cutset)\<close> for a cutset of one ASCII character\<close>

definition TrimChar :: "string \<Rightarrow> char \<Rightarrow> string" where
  "TrimChar s c = rev (dropWhile ((=) c) (rev (dropWhile ((=) c) s)))"

section \<open>Lower case\<close>

definition is_ascii :: "string \<Rightarrow> bool" where
  "is_ascii s \<longleftrightarrow> list_all (\<lambda>c. (of_char c :: nat) < 128) s"

definition ascii_lower :: "char \<Rightarrow> char" where
  "ascii_lower c = (if 65 \<le> (of_char c :: nat) \<and> (of_char c :: nat) \<le> 90
     then char_of ((of_char c :: nat) + 32) else c)"

text \<open>
  \<open>strings.ToLower\<close>: bytes A to Z are mapped in an ASCII string; a string with a byte from
  128 on is mapped rune by rune through Unicode's tables, which the argument \<open>uni\<close>
  stands for.
\<close>

definition ToLower :: "(string \<Rightarrow> string) \<Rightarrow> string \<Rightarrow> string" where
  "ToLower uni s = (if is_ascii s then map ascii_lower s else uni s)"

lemma is_ascii_Nil [simp]: "is_ascii []" by (simp add: is_ascii_def)

lemma is_ascii_Cons [simp]: "is_ascii (c # s) \<longleftrightarrow> (of_char c :: nat) < 128 \<and> is_ascii s"
  by (simp add: is_ascii_def)

lemma is_ascii_append [simp]: "is_ascii (s @ t) \<longleftrightarrow> is_ascii s \<and> is_ascii t"
  by (simp add: is_ascii_def)

lemma of_char_ascii_lower: "(of_char (ascii_lower c) :: nat)
    = (if 65 \<le> (of_char c :: nat) \<and> (of_char c :: nat) \<le> 90 then of_char c + 32 else of_char c)"
  by (simp add: ascii_lower_def)

lemma ascii_lower_idem [simp]: "ascii_lower (ascii_lower c) = ascii_lower c"
  by (simp add: ascii_lower_def)

lemma is_ascii_lower [simp]: "is_ascii (map ascii_lower s) = is_ascii s"
  by (induction s) (auto simp: of_char_ascii_lower)

text \<open>Code equations over integers, whose arithmetic is binary\<close>

lemma of_char_le_int:
  "(of_char c :: nat) \<le> n \<longleftrightarrow> (of_char c :: int) \<le> of_nat n"
  "n \<le> (of_char c :: nat) \<longleftrightarrow> of_nat n \<le> (of_char c :: int)"
  by (simp_all flip: of_nat_of_char [where ?'a = int])
lemma is_ascii_code [code]: "is_ascii s = list_all (\<lambda>c. (of_char c :: int) \<le> 127) s"
proof -
  have "((of_char c :: nat) < 128) = ((of_char c :: int) \<le> 127)" for c
    using of_char_le_int(1) [of c 127] by simp linarith
  then show ?thesis by (simp add: is_ascii_def)
qed
lemma ascii_lower_code [code]:
  "ascii_lower c = (let n = of_char c :: int in if 65 \<le> n \<and> n \<le> 90 then char_of (n + 32) else c)"
proof -
  have "char_of ((of_char c :: nat) + 32) = char_of ((of_char c :: int) + 32)"
    using char_of_nat [of "of_char c + 32", where ?'a = int] by (simp only: of_nat_add of_nat_of_char of_nat_numeral)
  then show ?thesis
    using of_char_le_int(1) [of c 90] of_char_le_int(2) [of 65 c] by (simp add: ascii_lower_def Let_def)
qed

section \<open>Splitting and joining\<close>

text \<open>\<open>strings.Split(s, sep)\<close> for a one-character separator, and \<open>strings.Join\<close>\<close>

fun Split :: "string \<Rightarrow> char \<Rightarrow> string list" where
  "Split [] sep = [[]]"
| "Split (c # s) sep =
     (if c = sep then [] # Split s sep
      else (case Split s sep of [] \<Rightarrow> [[c]] | w # ws \<Rightarrow> (c # w) # ws))"

fun Join :: "string list \<Rightarrow> string \<Rightarrow> string" where
  "Join [] sep = []"
| "Join [w] sep = w"
| "Join (w # ws) sep = w @ sep @ Join ws sep"

lemma Split_not_Nil [simp]: "Split s sep \<noteq> []"
  by (induction s) (auto split: list.splits)

lemma Join_Cons: "ws \<noteq> [] \<Longrightarrow> Join (w # ws) sep = w @ sep @ Join ws sep"
  by (cases ws) auto

lemma Join_Split [simp]: "Join (Split s sep) [sep] = s"
proof (induction s)
  case (Cons c s)
  then show ?case
    by (cases "Split s sep"; cases "tl (Split s sep)") (auto simp: Join_Cons)
qed simp

lemma Split_no_sep: "sep \<notin> set s \<Longrightarrow> Split s sep = [s]"
  by (induction s) auto

lemma Split_append_sep: "sep \<notin> set w \<Longrightarrow> Split (w @ sep # s) sep = w # Split s sep"
  by (induction w) auto

lemma Split_Join:
  "ws \<noteq> [] \<Longrightarrow> \<forall>w \<in> set ws. sep \<notin> set w \<Longrightarrow> Split (Join ws [sep]) sep = ws"
proof (induction ws)
  case (Cons w ws)
  then show ?case
    by (cases ws) (auto simp: Split_no_sep Split_append_sep)
qed simp

lemma Split_pieces: "w \<in> set (Split s sep) \<Longrightarrow> sep \<notin> set w"
  by (induction s arbitrary: w) (auto split: if_splits list.splits)

lemma Split_append_tail: "Split (s @ [sep]) sep = Split s sep @ [[]]"
  by (induction s) (auto split: list.splits)

lemma length_Join_singleton:
  "ws \<noteq> [] \<Longrightarrow> length (Join ws [sep]) + 1 = sum_list (map (\<lambda>w. length w + 1) ws)"
  by (induction ws rule: induct_list012) auto

lemma Join_append: "xs \<noteq> [] \<Longrightarrow> ys \<noteq> [] \<Longrightarrow> Join (xs @ ys) sep = Join xs sep @ sep @ Join ys sep"
proof (induction xs)
  case (Cons x xs)
  then show ?case by (cases xs) (auto simp: Join_Cons)
qed simp

text \<open>The last separator of a string splits it in one way only.\<close>

lemma last_sep_inj:
  "a @ sep # b = c @ sep # d \<Longrightarrow> sep \<notin> set b \<Longrightarrow> sep \<notin> set d \<Longrightarrow> a = c \<and> b = d"
proof -
  assume eq: "a @ sep # b = c @ sep # d" and b: "sep \<notin> set b" and d: "sep \<notin> set d"
  have "rev (a @ sep # b) = rev (c @ sep # d)" using eq by simp
  then have r: "rev b @ sep # rev a = rev d @ sep # rev c" by simp
  have "takeWhile ((\<noteq>) sep) (rev x @ sep # y) = rev x" if "sep \<notin> set x" for x y
    by (subst takeWhile_append2) (use that in auto)
  with r b d have "rev b = rev d" by metis
  with r show ?thesis by simp
qed

text \<open>\<open>strings.Fields\<close>: the maximal runs of bytes outside white space.\<close>

function fields_from :: "string \<Rightarrow> string \<Rightarrow> string list" where
  "fields_from cur s =
     (if lead_space s \<noteq> 0 then
        (if cur = [] then [] else [cur]) @ fields_from [] (drop (lead_space s) s)
      else (case s of
          [] \<Rightarrow> (if cur = [] then [] else [cur])
        | c # r \<Rightarrow> fields_from (cur @ [c]) r))"
  by pat_completeness auto
termination
  by (relation "measure (\<lambda>(cur, s). length s)") (use drop_lead_space_less in auto)

declare fields_from.simps [simp del]

definition Fields :: "string \<Rightarrow> string list" where
  "Fields s = fields_from [] s"

text \<open>\<open>strings.FieldsFunc(s, f)\<close> for a predicate on ASCII characters.\<close>

fun FieldsFunc :: "(char \<Rightarrow> bool) \<Rightarrow> string \<Rightarrow> string \<Rightarrow> string list" where
  "FieldsFunc f cur [] = (if cur = [] then [] else [cur])"
| "FieldsFunc f cur (c # s) =
     (if f c then (if cur = [] then [] else [cur]) @ FieldsFunc f [] s
      else FieldsFunc f (cur @ [c]) s)"

section \<open>Numbers\<close>

definition is_digit :: "char \<Rightarrow> bool" where
  "is_digit c \<longleftrightarrow> 48 \<le> (of_char c :: nat) \<and> (of_char c :: nat) \<le> 57"

definition digit_val :: "char \<Rightarrow> nat" where
  "digit_val c = of_char c - 48"

definition digit_char :: "nat \<Rightarrow> char" where
  "digit_char d = char_of (48 + d)"

definition dec_value :: "string \<Rightarrow> nat" where
  "dec_value s = foldl (\<lambda>n c. 10 * n + digit_val c) 0 s"

text \<open>\<open>fmt.Sprintf("%d", n)\<close> of an unsigned integer\<close>

fun show_nat :: "nat \<Rightarrow> string" where
  "show_nat n = (if n < 10 then [digit_char n] else show_nat (n div 10) @ [digit_char (n mod 10)])"

declare show_nat.simps [simp del]

text \<open>
  \<open>strconv.ParseUint(s, 10, bits)\<close> and \<open>strconv.Atoi\<close>. A failed parse (syntax or range
  error) is \<open>None\<close>; no caller tells the two errors apart.
\<close>

definition ParseUint :: "string \<Rightarrow> nat \<Rightarrow> nat option" where
  "ParseUint s bits =
     (if s \<noteq> [] \<and> list_all is_digit s \<and> dec_value s < 2 ^ bits then Some (dec_value s) else None)"

lemma ParseUint_code [code]:
  "ParseUint s bits =
     (if s \<noteq> [] \<and> list_all is_digit s \<and> int (dec_value s) < 2 ^ bits then Some (dec_value s) else None)"
  by (simp add: ParseUint_def)

definition Atoi :: "string \<Rightarrow> int option" where
  "Atoi s =
     (let neg = (s \<noteq> [] \<and> hd s = CHR ''-'');
          ds = (if s \<noteq> [] \<and> (hd s = CHR ''-'' \<or> hd s = CHR ''+'') then tl s else s);
          v = (if neg then - int (dec_value ds) else int (dec_value ds))
      in if ds \<noteq> [] \<and> list_all is_digit ds \<and> - (2 ^ 63) \<le> v \<and> v < 2 ^ 63 then Some v else None)"

lemma is_digit_digit_char [simp]: "d < 10 \<Longrightarrow> is_digit (digit_char d)"
  by (simp add: is_digit_def digit_char_def)

lemma digit_val_digit_char [simp]: "d < 10 \<Longrightarrow> digit_val (digit_char d) = d"
  by (simp add: digit_val_def digit_char_def)

lemma digit_char_eq_zero: "d < 10 \<Longrightarrow> digit_char d = CHR ''0'' \<longleftrightarrow> d = 0"
proof -
  assume d: "d < 10"
  have zero: "digit_val CHR ''0'' = 0" by (simp add: digit_val_def)
  have "digit_char 0 = CHR ''0''" by code_simp
  then show ?thesis using d zero digit_val_digit_char by metis
qed

lemma dec_value_Nil [simp]: "dec_value [] = 0"
  by (simp add: dec_value_def)

lemma dec_value_snoc [simp]: "dec_value (s @ [c]) = 10 * dec_value s + digit_val c"
  by (simp add: dec_value_def)

lemma dec_value_single [simp]: "dec_value [c] = digit_val c"
  by (simp add: dec_value_def)

lemma show_nat_not_Nil [simp]: "show_nat n \<noteq> []"
  by (subst show_nat.simps) simp

lemma show_nat_digits [simp]: "list_all is_digit (show_nat n)"
proof (induction n rule: show_nat.induct)
  case (1 n)
  then show ?case by (subst show_nat.simps) auto
qed

lemma dec_value_show_nat [simp]: "dec_value (show_nat n) = n"
proof (induction n rule: show_nat.induct)
  case (1 n)
  then show ?case by (subst show_nat.simps) auto
qed

lemma ParseUint_show_nat: "n < 2 ^ bits \<Longrightarrow> ParseUint (show_nat n) bits = Some n"
  by (simp add: ParseUint_def)

lemma ParseUint_bound: "ParseUint s bits = Some n \<Longrightarrow> n < 2 ^ bits"
  by (auto simp: ParseUint_def split: if_splits)

lemma digit_not_sign: "is_digit c \<Longrightarrow> c \<noteq> CHR ''-'' \<and> c \<noteq> CHR ''+''"
  by (auto simp: is_digit_def)

lemma Atoi_show_nat: "n < 2 ^ 63 \<Longrightarrow> Atoi (show_nat n) = Some (int n)"
proof -
  assume n: "n < 2 ^ 63"
  have "is_digit (hd (show_nat n))"
    using show_nat_digits [of n] by (cases "show_nat n") auto
  then have "hd (show_nat n) \<noteq> CHR ''-''" "hd (show_nat n) \<noteq> CHR ''+''"
    using digit_not_sign by blast+
  moreover have "int n < 2 ^ 63" using n by simp
  ultimately show ?thesis by (simp add: Atoi_def Let_def)
qed

lemma show_nat_inj: "show_nat m = show_nat n \<Longrightarrow> m = n"
  by (metis dec_value_show_nat)

end
