(* ===== verification/Utils.thy ===== *)
theory Utils
  imports GoStrings
begin

text \<open>
  \<open>internal/dns/common/utils\<close>: canonical names and apex domains. Two pieces of code
  the repository calls but does not contain are the fields of a record that is an argument
  of every definition that needs them: Unicode lower-casing (tables of Go's \<open>unicode\<close>
  package) and \<open>publicsuffix.EffectiveTLDPlusOne\<close> of \<open>golang.org/x/net\<close>.
\<close>

section \<open>External code\<close>

record extern =
  ext_lower :: "string \<Rightarrow> string"
  ext_etld1 :: "string \<Rightarrow> string option"

text \<open>
  What the documentation of \<open>EffectiveTLDPlusOne\<close> promises: the result is the name
  itself or a suffix of it that starts after a dot. The public-suffix list with no entry
  but its default rule \<open>*\<close> (the last two labels) is an instance.
\<close>

locale public_suffix =
  fixes etld1 :: "string \<Rightarrow> string option"
  assumes etld1_suffix: "etld1 n = Some a \<Longrightarrow> a \<noteq> [] \<and> (n = a \<or> (\<exists>p. n = p @ ''.'' @ a))"
begin

lemma etld1_length: "etld1 n = Some a \<Longrightarrow> length a \<le> length n"
  using etld1_suffix [of n a] by auto

lemma etld1_set: "etld1 n = Some a \<Longrightarrow> set a \<subseteq> set n"
  using etld1_suffix [of n a] by auto

end

definition default_rule_etld1 :: "string \<Rightarrow> string option" where
  "default_rule_etld1 n =
     (let ls = Split n CHR ''.''
      in if length ls < 2 \<or> [] \<in> set ls then None
         else Some (Join (drop (length ls - 2) ls) ''.''))"

interpretation default_rule: public_suffix default_rule_etld1
proof unfold_locales
  fix n a
  assume some: "default_rule_etld1 n = Some a"
  define ls where "ls = Split n CHR ''.''"
  define p where "p = take (length ls - 2) ls"
  define q where "q = drop (length ls - 2) ls"
  have cond: "\<not> (length ls < 2 \<or> [] \<in> set ls)"
  proof
    assume "length ls < 2 \<or> [] \<in> set ls"
    then have "default_rule_etld1 n = None"
      unfolding default_rule_etld1_def Let_def ls_def by (rule if_P)
    with some show False by simp
  qed
  have a: "a = Join q ''.''"
  proof -
    have "default_rule_etld1 n = Some (Join q ''.'')"
      using cond unfolding default_rule_etld1_def Let_def ls_def q_def by (rule if_not_P)
    with some show ?thesis by simp
  qed
  have n: "n = Join ls ''.''" by (simp add: ls_def)
  have pq: "ls = p @ q" by (simp add: p_def q_def)
  have "length q = 2" using cond by (simp add: q_def)
  then obtain u v where uv: "q = [u, v]"
    by (auto simp: numeral_2_eq_2 length_Suc_conv)
  then have q: "q \<noteq> []" and "a \<noteq> []" using a by auto
  moreover have "n = a \<or> (\<exists>p. n = p @ ''.'' @ a)"
  proof (cases "p = []")
    case True
    then show ?thesis unfolding n pq a by simp
  next
    case False
    then show ?thesis unfolding n pq a using Join_append [OF False q] by blast
  qed
  ultimately show "a \<noteq> [] \<and> (n = a \<or> (\<exists>p. n = p @ ''.'' @ a))" by blast
qed

text \<open>An instance of the external record, for concrete runs\<close>

definition sample_extern :: extern where
  "sample_extern = \<lparr>ext_lower = (\<lambda>s. s), ext_etld1 = default_rule_etld1\<rparr>"

section \<open>CanonicalDNSName\<close>

text \<open>The loop that removes all trailing dots\<close>

function strip_dots :: "string \<Rightarrow> string" where
  "strip_dots name = (if HasSuffix name ''.'' then strip_dots (TrimSuffix name ''.'') else name)"
  by pat_completeness auto
termination
  by (relation "measure length") (auto simp: HasSuffix_def TrimSuffix_def suffix_def)

declare strip_dots.simps [simp del]

definition CanonicalDNSName :: "extern \<Rightarrow> string \<Rightarrow> string" where
  "CanonicalDNSName X name =
     (let name = TrimSpace name;
          name = ToLower (ext_lower X) name
      in strip_dots name)"

definition GetApexDomain :: "extern \<Rightarrow> string \<Rightarrow> string" where
  "GetApexDomain X name =
     (let name = CanonicalDNSName X name
      in (case ext_etld1 X name of Some apexDomain \<Rightarrow> apexDomain | None \<Rightarrow> name))"

section \<open>Facts about trimming\<close>

text \<open>Characters of ordinary names: printable ASCII other than the space.\<close>

definition plain_char :: "char \<Rightarrow> bool" where
  "plain_char c \<longleftrightarrow> 33 \<le> (of_char c :: nat) \<and> (of_char c :: nat) \<le> 126"

definition plain :: "string \<Rightarrow> bool" where
  "plain s \<longleftrightarrow> list_all plain_char s"

lemma plain_simps [simp]:
  "plain []" "plain (c # s) \<longleftrightarrow> plain_char c \<and> plain s" "plain (s @ t) \<longleftrightarrow> plain s \<and> plain t"
  by (simp_all add: plain_def)

lemma plain_is_ascii [simp]: "plain s \<Longrightarrow> is_ascii s"
  by (induction s) (auto simp: plain_char_def)

lemma plain_ascii_lower [simp]: "plain s \<Longrightarrow> plain (map ascii_lower s)"
  by (induction s) (auto simp: plain_char_def of_char_ascii_lower)

lemma space_rune_ends:
  assumes "r \<in> set space_runes"
  shows "r \<noteq> [] \<and> \<not> plain_char (hd r) \<and> \<not> plain_char (last r)"
  using assms
  by (auto simp: space_runes_def ascii_space_codes_def wide_space_codes_def plain_char_def)

lemma lead_space_plain:
  assumes "plain_char c"
  shows "lead_space (c # s) = 0"
proof (cases "find (\<lambda>r. prefix r (c # s)) space_runes")
  case (Some r)
  then have "r \<in> set space_runes" "prefix r (c # s)"
    by (auto dest: find_SomeD)
  then have "r \<noteq> []" "\<not> plain_char (hd r)" "hd r = c"
    using space_rune_ends [of r] by (auto simp: prefix_def) (metis hd_append2 list.sel(1))
  then show ?thesis using assms by simp
qed (simp add: lead_space_def)

lemma trail_space_plain:
  assumes "plain_char c"
  shows "trail_space (s @ [c]) = 0"
proof (cases "find (\<lambda>r. suffix r (s @ [c])) space_runes")
  case (Some r)
  then have r: "r \<in> set space_runes" and suf: "suffix r (s @ [c])"
    by (auto dest: find_SomeD)
  from r have ends: "r \<noteq> []" "\<not> plain_char (last r)" using space_rune_ends by auto
  then have "last r = c" using suf by (auto simp: suffix_def) (metis last_appendR last_snoc)
  then show ?thesis using assms ends by simp
qed (simp add: trail_space_def)

lemma TrimSpace_plain_ends:
  assumes "s = [] \<or> plain_char (hd s) \<and> plain_char (last s)"
  shows "TrimSpace s = s"
proof (cases "s = []")
  case True
  then show ?thesis by (simp add: TrimSpace_def trim_left.simps trim_right.simps)
next
  case False
  then have "lead_space s = 0" using assms lead_space_plain [of "hd s" "tl s"] by simp
  moreover have "trail_space s = 0"
    using False assms trail_space_plain [of "last s" "butlast s"] by simp
  ultimately show ?thesis by (simp add: TrimSpace_def trim_left.simps trim_right.simps)
qed

lemma TrimSpace_plain [simp]: "plain s \<Longrightarrow> TrimSpace s = s"
  by (rule TrimSpace_plain_ends) (auto simp: plain_def list_all_iff)

section \<open>Facts about canonical names\<close>

lemma strip_dots_snoc [simp]: "strip_dots (s @ ''.'') = strip_dots s"
  by (subst strip_dots.simps) (simp add: HasSuffix_def TrimSuffix_def)

lemma strip_dots_id: "\<not> HasSuffix s ''.'' \<Longrightarrow> strip_dots s = s"
  by (subst strip_dots.simps) simp

lemma strip_dots_no_suffix [simp]: "\<not> HasSuffix (strip_dots s) ''.''"
proof (induction s rule: strip_dots.induct)
  case (1 s)
  then show ?case by (subst strip_dots.simps) auto
qed

lemma strip_dots_append_dots: "\<exists>k. s = strip_dots s @ replicate k CHR ''.''"
proof (induction s rule: strip_dots.induct)
  case (1 s)
  show ?case
  proof (cases "HasSuffix s ''.''")
    case True
    then obtain t where t: "s = t @ ''.''" by (auto simp: HasSuffix_def suffix_def)
    have "TrimSuffix s ''.'' = t" by (simp add: t TrimSuffix_def HasSuffix_def)
    with 1 True obtain k where "t = strip_dots t @ replicate k CHR ''.''" by auto
    then have "s = strip_dots t @ replicate k CHR ''.'' @ [CHR ''.'']"
      using t by (metis append.assoc)
    moreover have "strip_dots s = strip_dots t" by (simp add: t)
    ultimately have "s = strip_dots s @ replicate (Suc k) CHR ''.''"
      by (simp add: replicate_append_same)
    then show ?thesis by blast
  next
    case False
    then show ?thesis by (intro exI [of _ 0]) (simp add: strip_dots_id)
  qed
qed

lemma strip_dots_plain [simp]: "plain s \<Longrightarrow> plain (strip_dots s)"
  using strip_dots_append_dots [of s] by (metis plain_simps(3))

lemma strip_dots_Nil [simp]: "strip_dots [] = []"
  by (simp add: strip_dots_id HasSuffix_def)

lemma set_strip_dots: "set (strip_dots s) \<subseteq> set s"
  using strip_dots_append_dots [of s] by (metis set_append Un_upper1)

lemma Canonical_no_trailing_dot: "\<not> HasSuffix (CanonicalDNSName X n) ''.''"
  by (simp add: CanonicalDNSName_def Let_def)

lemma Canonical_plain: "plain n \<Longrightarrow> CanonicalDNSName X n = strip_dots (map ascii_lower n)"
  by (simp add: CanonicalDNSName_def ToLower_def)

lemma Canonical_plain_plain [simp]: "plain n \<Longrightarrow> plain (CanonicalDNSName X n)"
  by (simp add: Canonical_plain)

lemma map_strip_dots: "map ascii_lower (strip_dots s) = strip_dots (map ascii_lower s)"
proof (induction s rule: strip_dots.induct)
  case (1 s)
  show ?case
  proof (cases "HasSuffix s ''.''")
    case True
    then obtain t where t: "s = t @ ''.''" by (auto simp: HasSuffix_def suffix_def)
    have "ascii_lower CHR ''.'' = CHR ''.''" by (simp add: ascii_lower_def)
    moreover have "TrimSuffix s ''.'' = t" by (simp add: t TrimSuffix_def HasSuffix_def)
    ultimately show ?thesis using 1 True t by simp
  next
    case False
    have lower_dot: "c = CHR ''.''" if "ascii_lower c = CHR ''.''" for c
    proof -
      have "(of_char c :: nat) = of_char CHR ''.''"
        using of_char_ascii_lower [of c] that by (auto split: if_splits)
      then show ?thesis by (simp only: of_char_eq_iff)
    qed
    have "\<not> HasSuffix (map ascii_lower s) ''.''"
      using False by (cases s rule: rev_cases) (auto simp: HasSuffix_def dest: lower_dot lower_dot [OF sym])
    with False show ?thesis by (simp add: strip_dots_id)
  qed
qed

lemma Canonical_lower [simp]:
  "plain n \<Longrightarrow> map ascii_lower (CanonicalDNSName X n) = CanonicalDNSName X n"
  by (simp add: Canonical_plain map_strip_dots comp_def)

lemma Canonical_idem [simp]:
  "plain n \<Longrightarrow> CanonicalDNSName X (CanonicalDNSName X n) = CanonicalDNSName X n"
proof -
  assume n: "plain n"
  have "CanonicalDNSName X (CanonicalDNSName X n)
      = strip_dots (map ascii_lower (CanonicalDNSName X n))"
    using n by (intro Canonical_plain) simp
  also have "\<dots> = strip_dots (CanonicalDNSName X n)" using n by simp
  also have "\<dots> = CanonicalDNSName X n"
    by (rule strip_dots_id) (rule Canonical_no_trailing_dot)
  finally show ?thesis .
qed

lemma Canonical_trailing_dot: "plain n \<Longrightarrow> CanonicalDNSName X (n @ ''.'') = CanonicalDNSName X n"
proof -
  assume n: "plain n"
  have "plain (n @ ''.'')" using n by (simp add: plain_char_def)
  moreover have "ascii_lower CHR ''.'' = CHR ''.''" by (simp add: ascii_lower_def)
  ultimately show ?thesis using n by (simp add: Canonical_plain)
qed

text \<open>Two spellings of a name that differ in the case of ASCII letters and trailing dots\<close>

lemma Canonical_cong:
  assumes "plain m" and "plain n"
    and "strip_dots (map ascii_lower m) = strip_dots (map ascii_lower n)"
  shows "CanonicalDNSName X m = CanonicalDNSName X n"
  using assms by (simp add: Canonical_plain)

lemma GetApexDomain_suffix:
  assumes "public_suffix (ext_etld1 X)"
  shows "GetApexDomain X n = CanonicalDNSName X n
    \<or> (\<exists>p. CanonicalDNSName X n = p @ ''.'' @ GetApexDomain X n)"
  using public_suffix.etld1_suffix [OF assms]
  by (auto simp: GetApexDomain_def Let_def split: option.splits)

lemma GetApexDomain_Canonical [simp]:
  "plain n \<Longrightarrow> GetApexDomain X (CanonicalDNSName X n) = GetApexDomain X n"
  by (simp add: GetApexDomain_def)

end
