(* ===== verification/RRTypes.thy ===== *)
theory RRTypes
  imports GoStrings
begin

text \<open>
  \<open>internal/dns/domain/rrtype.go\<close>, \<open>rrclass.go\<close> and \<open>rcode.go\<close>: the record types,
  classes and response codes as the machine integers the code declares them to be
  (\<open>type RRType uint16\<close>, \<open>type RRClass uint16\<close>, \<open>type RCode uint8\<close>), with their
  named constants, validity checks, printers and parsers. A \<open>switch\<close> over constants is a
  table in the order of its cases.
\<close>

type_synonym rr_type = "16 word"
type_synonym rr_class = "16 word"
type_synonym rcode = "8 word"

section \<open>RRType\<close>

definition RRTypeA :: rr_type where [simp]: "RRTypeA = 1"
definition RRTypeNS :: rr_type where [simp]: "RRTypeNS = 2"
definition RRTypeCNAME :: rr_type where [simp]: "RRTypeCNAME = 5"
definition RRTypeSOA :: rr_type where [simp]: "RRTypeSOA = 6"
definition RRTypePTR :: rr_type where [simp]: "RRTypePTR = 12"
definition RRTypeMX :: rr_type where [simp]: "RRTypeMX = 15"
definition RRTypeTXT :: rr_type where [simp]: "RRTypeTXT = 16"
definition RRTypeAAAA :: rr_type where [simp]: "RRTypeAAAA = 28"
definition RRTypeSRV :: rr_type where [simp]: "RRTypeSRV = 33"
definition RRTypeNAPTR :: rr_type where [simp]: "RRTypeNAPTR = 35"
definition RRTypeOPT :: rr_type where [simp]: "RRTypeOPT = 41"
definition RRTypeDS :: rr_type where [simp]: "RRTypeDS = 43"
definition RRTypeRRSIG :: rr_type where [simp]: "RRTypeRRSIG = 46"
definition RRTypeNSEC :: rr_type where [simp]: "RRTypeNSEC = 47"
definition RRTypeDNSKEY :: rr_type where [simp]: "RRTypeDNSKEY = 48"
definition RRTypeTLSA :: rr_type where [simp]: "RRTypeTLSA = 52"
definition RRTypeSVCB :: rr_type where [simp]: "RRTypeSVCB = 64"
definition RRTypeHTTPS :: rr_type where [simp]: "RRTypeHTTPS = 65"
definition RRTypeANY :: rr_type where [simp]: "RRTypeANY = 255"
definition RRTypeCAA :: rr_type where [simp]: "RRTypeCAA = 257"

definition RRType_IsValid :: "rr_type \<Rightarrow> bool" where
  "RRType_IsValid t \<longleftrightarrow> t \<in> set
     [RRTypeA, RRTypeNS, RRTypeCNAME, RRTypeSOA, RRTypePTR, RRTypeMX, RRTypeTXT,
      RRTypeAAAA, RRTypeSRV, RRTypeNAPTR, RRTypeOPT, RRTypeDS, RRTypeRRSIG,
      RRTypeNSEC, RRTypeDNSKEY, RRTypeTLSA, RRTypeSVCB, RRTypeHTTPS, RRTypeANY, RRTypeCAA]"

definition RRType_names :: "(rr_type \<times> string) list" where
  "RRType_names =
     [(RRTypeA, ''A''), (RRTypeNS, ''NS''), (RRTypeCNAME, ''CNAME''), (RRTypeSOA, ''SOA''),
      (RRTypePTR, ''PTR''), (RRTypeMX, ''MX''), (RRTypeTXT, ''TXT''), (RRTypeAAAA, ''AAAA''),
      (RRTypeSRV, ''SRV''), (RRTypeNAPTR, ''NAPTR''), (RRTypeOPT, ''OPT''), (RRTypeDS, ''DS''),
      (RRTypeRRSIG, ''RRSIG''), (RRTypeNSEC, ''NSEC''), (RRTypeDNSKEY, ''DNSKEY''),
      (RRTypeTLSA, ''TLSA''), (RRTypeSVCB, ''SVCB''), (RRTypeHTTPS, ''HTTPS''),
      (RRTypeANY, ''ANY''), (RRTypeCAA, ''CAA'')]"

definition RRType_String :: "rr_type \<Rightarrow> string" where
  "RRType_String t = (case map_of RRType_names t of
       Some s \<Rightarrow> s
     | None \<Rightarrow> ''UNKNOWN('' @ show_nat (unat t) @ '')'')"

definition RRType_cases :: "(string \<times> rr_type) list" where
  "RRType_cases =
     [(''A'', RRTypeA), (''NS'', RRTypeNS), (''CNAME'', RRTypeCNAME), (''SOA'', RRTypeSOA),
      (''PTR'', RRTypePTR), (''MX'', RRTypeMX), (''TXT'', RRTypeTXT), (''AAAA'', RRTypeAAAA),
      (''SRV'', RRTypeSRV), (''NAPTR'', RRTypeNAPTR), (''OPT'', RRTypeOPT), (''DS'', RRTypeDS),
      (''RRSIG'', RRTypeRRSIG), (''NSEC'', RRTypeNSEC), (''DNSKEY'', RRTypeDNSKEY),
      (''TLSA'', RRTypeTLSA), (''SVCB'', RRTypeSVCB), (''HTTPS'', RRTypeHTTPS),
      (''ANY'', RRTypeANY), (''CAA'', RRTypeCAA)]"

definition RRTypeFromString :: "string \<Rightarrow> rr_type" where
  "RRTypeFromString s = (case map_of RRType_cases s of Some t \<Rightarrow> t | None \<Rightarrow> 0)"

section \<open>RRClass\<close>

definition RRClassIN :: rr_class where [simp]: "RRClassIN = 1"
definition RRClassCH :: rr_class where [simp]: "RRClassCH = 3"
definition RRClassHS :: rr_class where [simp]: "RRClassHS = 4"
definition RRClassNONE :: rr_class where [simp]: "RRClassNONE = 254"
definition RRClassANY :: rr_class where [simp]: "RRClassANY = 255"

definition RRClass_IsValid :: "rr_class \<Rightarrow> bool" where
  "RRClass_IsValid c \<longleftrightarrow> c \<in> set [RRClassIN, RRClassCH, RRClassHS, RRClassNONE, RRClassANY]"

definition RRClass_names :: "(rr_class \<times> string) list" where
  "RRClass_names =
     [(RRClassIN, ''IN''), (RRClassCH, ''CH''), (RRClassHS, ''HS''), (RRClassNONE, ''NONE''),
      (RRClassANY, ''ANY'')]"

definition RRClass_String :: "rr_class \<Rightarrow> string" where
  "RRClass_String c = (case map_of RRClass_names c of Some s \<Rightarrow> s | None \<Rightarrow> ''UNKNOWN'')"

definition ParseRRClass :: "string \<Rightarrow> rr_class" where
  "ParseRRClass s = (case map_of
       [(''IN'', RRClassIN), (''CH'', RRClassCH), (''HS'', RRClassHS), (''NONE'', RRClassNONE),
        (''ANY'', RRClassANY)] s of
       Some c \<Rightarrow> c | None \<Rightarrow> 0)"

section \<open>RCode\<close>

definition NOERROR :: rcode where [simp]: "NOERROR = 0"
definition FORMERR :: rcode where [simp]: "FORMERR = 1"
definition SERVFAIL :: rcode where [simp]: "SERVFAIL = 2"
definition NXDOMAIN :: rcode where [simp]: "NXDOMAIN = 3"
definition NOTIMP :: rcode where [simp]: "NOTIMP = 4"
definition REFUSED :: rcode where [simp]: "REFUSED = 5"
definition YXDOMAIN :: rcode where [simp]: "YXDOMAIN = 6"
definition YXRRSET :: rcode where [simp]: "YXRRSET = 7"
definition NXRRSET :: rcode where [simp]: "NXRRSET = 8"
definition NOTAUTH :: rcode where [simp]: "NOTAUTH = 9"
definition NOTZONE :: rcode where [simp]: "NOTZONE = 10"

definition RCode_IsValid :: "rcode \<Rightarrow> bool" where
  "RCode_IsValid r \<longleftrightarrow> r \<le> 10"

definition RCode_names :: "(rcode \<times> string) list" where
  "RCode_names =
     [(0, ''NOERROR''), (1, ''FORMERR''), (2, ''SERVFAIL''), (3, ''NXDOMAIN''), (4, ''NOTIMP''),
      (5, ''REFUSED''), (6, ''YXDOMAIN''), (7, ''YXRRSET''), (8, ''NXRRSET''), (9, ''NOTAUTH''),
      (10, ''NOTZONE'')]"

definition RCode_String :: "rcode \<Rightarrow> string" where
  "RCode_String r = (case map_of RCode_names r of
       Some s \<Rightarrow> s
     | None \<Rightarrow> ''UNKNOWN('' @ show_nat (unat r) @ '')'')"

definition ParseRCode :: "string \<Rightarrow> rcode" where
  "ParseRCode s = (case map_of
       [(''NOERROR'', 0), (''FORMERR'', 1), (''SERVFAIL'', 2), (''NXDOMAIN'', 3), (''NOTIMP'', 4),
        (''REFUSED'', 5), (''YXDOMAIN'', 6), (''YXRRSET'', 7), (''NXRRSET'', 8), (''NOTAUTH'', 9),
        (''NOTZONE'', 10)] s of
       Some r \<Rightarrow> r | None \<Rightarrow> 0)"

section \<open>Facts\<close>

text \<open>A known type is one of the twenty constants, and only those print without \<open>UNKNOWN\<close>.\<close>

lemma RRType_IsValid_names: "RRType_IsValid t \<longleftrightarrow> t \<in> fst ` set RRType_names"
  by (auto simp: RRType_IsValid_def RRType_names_def)

lemma RRType_unknown: "\<not> RRType_IsValid t \<Longrightarrow> RRType_String t = ''UNKNOWN('' @ show_nat (unat t) @ '')''"
  by (auto simp: RRType_String_def RRType_IsValid_names map_of_eq_None_iff split: option.splits)
     (metis fst_conv image_eqI map_of_SomeD)

lemma RRType_names_heads: "p \<in> set RRType_names \<Longrightarrow> snd p \<noteq> [] \<and> hd (snd p) \<noteq> CHR ''U''"
  by (auto simp: RRType_names_def)

lemma RRType_names_distinct: "distinct (map snd RRType_names)"
  by (simp add: RRType_names_def)

lemma RRType_known:
  assumes "RRType_IsValid t"
  shows "map_of RRType_names t = Some (RRType_String t)"
proof -
  have "map_of RRType_names t \<noteq> None"
    using assms by (simp add: RRType_IsValid_names map_of_eq_None_iff)
  then show ?thesis by (auto simp: RRType_String_def)
qed

lemma RRType_known_head: "RRType_IsValid t \<Longrightarrow> hd (RRType_String t) \<noteq> CHR ''U''"
  using RRType_known [of t] RRType_names_heads by (fastforce dest: map_of_SomeD)

lemma RRType_String_inj: "RRType_String s = RRType_String t \<Longrightarrow> s = t"
proof (cases "RRType_IsValid s"; cases "RRType_IsValid t")
  assume eq: "RRType_String s = RRType_String t"
  { assume "RRType_IsValid s" "RRType_IsValid t"
    then show "s = t"
      using map_of_distinct_inj [OF RRType_names_distinct] RRType_known eq by metis
  next
    assume "RRType_IsValid s" "\<not> RRType_IsValid t"
    then show "s = t" using RRType_known_head [of s] RRType_unknown [of t] eq by simp
  next
    assume "\<not> RRType_IsValid s" "RRType_IsValid t"
    then show "s = t" using RRType_known_head [of t] RRType_unknown [of s] eq by simp
  next
    assume "\<not> RRType_IsValid s" "\<not> RRType_IsValid t"
    then have "show_nat (unat s) = show_nat (unat t)"
      using RRType_unknown [of s] RRType_unknown [of t] eq by simp
    then have "unat s = unat t" by (rule show_nat_inj)
    then show "s = t" by (simp add: word_unat_eq_iff)
  }
qed

lemma RRType_String_no_pipe: "CHR ''|'' \<notin> set (RRType_String t)"
proof (cases "RRType_IsValid t")
  case True
  have "\<forall>p \<in> set RRType_names. CHR ''|'' \<notin> set (snd p)"
    by (simp add: RRType_names_def)
  then show ?thesis using map_of_SomeD [OF RRType_known [OF True]] by fastforce
next
  case False
  have "\<not> is_digit CHR ''|''" by (simp add: is_digit_def)
  then have "CHR ''|'' \<notin> set (show_nat (unat t))" by (metis show_nat_digits list_all_iff)
  then show ?thesis using False by (simp add: RRType_unknown)
qed

lemma RRClass_String_no_pipe: "CHR ''|'' \<notin> set (RRClass_String c)"
  by (auto simp: RRClass_String_def RRClass_names_def split: if_splits)

lemma RRClass_IsValid_names: "RRClass_IsValid c \<longleftrightarrow> c \<in> fst ` set RRClass_names"
  by (auto simp: RRClass_IsValid_def RRClass_names_def)

lemma RRClass_String_inj:
  "RRClass_IsValid c \<Longrightarrow> RRClass_String c = RRClass_String d \<Longrightarrow> c = d"
  by (auto simp: RRClass_IsValid_def RRClass_String_def RRClass_names_def split: if_splits)

lemma RRTypeFromString_String: "RRType_IsValid t \<Longrightarrow> RRTypeFromString (RRType_String t) = t"
  by (auto simp: RRType_IsValid_def RRTypeFromString_def RRType_String_def RRType_names_def
      RRType_cases_def)

lemma RRTypeFromString_valid: "RRTypeFromString s = 0 \<or> RRType_IsValid (RRTypeFromString s)"
  by (auto simp: RRTypeFromString_def RRType_cases_def RRType_IsValid_def)

lemma RRTypeFromString_inv:
  "RRTypeFromString s = t \<Longrightarrow> t \<noteq> 0 \<Longrightarrow> RRType_String t = s"
  by (auto simp: RRTypeFromString_def RRType_cases_def RRType_String_def RRType_names_def
      split: if_splits)

end
