(* ===== verification/GoTime.thy ===== *)
theory GoTime
  imports Prelude
begin

text \<open>
  Go's \<open>time\<close> package as the source uses it. A \<open>time.Time\<close> is a number of
  nanoseconds, a \<open>time.Duration\<close> a signed 64-bit number of nanoseconds.
  \<open>Duration.Seconds\<close> returns a \<open>float64\<close>, and the code converts it to \<open>uint32\<close>;
  the two roundings of that computation are written out, a float being the pair of a
  mantissa and a number of fractional bits.
\<close>

type_synonym time = int
type_synonym duration = int

definition Second :: duration where
  "Second = 1000000000"

definition time_Add :: "time \<Rightarrow> duration \<Rightarrow> time" where
  "time_Add t d = t + d"

text \<open>\<open>time.Until(t)\<close>, the difference to the clock reading \<open>now\<close>, saturated to 64 bits\<close>

definition time_Until :: "time \<Rightarrow> time \<Rightarrow> duration" where
  "time_Until t now = max (- (2 ^ 63)) (min (2 ^ 63 - 1) (t - now))"

definition time_After :: "time \<Rightarrow> time \<Rightarrow> bool" where
  "time_After t u \<longleftrightarrow> u < t"

section \<open>Seconds as a float64\<close>

text \<open>The integer nearest to \<open>a / b\<close>, ties to even.\<close>

definition rne :: "int \<Rightarrow> int \<Rightarrow> int" where
  "rne a b =
     (let q = a div b; r = a mod b
      in if 2 * r < b \<or> (2 * r = b \<and> even q) then q else q + 1)"

text \<open>
  The float64 nearest to \<open>a / b\<close>: the pair \<open>(m, k)\<close> stands for \<open>m / 2^k\<close>, with \<open>k\<close>
  the least number of fractional bits that leaves 53 significant ones. The values that
  occur are 0 or between \<open>10^-9\<close> and \<open>2^34\<close>, so \<open>k\<close> is less than 90.
\<close>

definition float64 :: "int \<Rightarrow> int \<Rightarrow> int \<times> nat" where
  "float64 a b =
     (case find (\<lambda>k. 2 ^ 52 * b \<le> a * 2 ^ k) [0..<90] of
        None \<Rightarrow> (0, 0)
      | Some k \<Rightarrow> (rne (a * 2 ^ k) b, k))"

text \<open>\<open>Duration.Seconds\<close>: \<open>float64(d / Second) + float64(d % Second) / 1e9\<close>, for \<open>0 \<le> d\<close>\<close>

definition Seconds :: "duration \<Rightarrow> int \<times> nat" where
  "Seconds d =
     (let sec = d div Second; (m, k) = float64 (d mod Second) 1000000000
      in float64 (sec * 2 ^ k + m) (2 ^ k))"

text \<open>
  \<open>uint32(d.Seconds())\<close>: the fraction is dropped. A value of \<open>2^32\<close> or more (which Go
  leaves to the implementation) keeps its low 32 bits, as on amd64.
\<close>

definition uint32_Seconds :: "duration \<Rightarrow> 32 word" where
  "uint32_Seconds d = (if d \<le> 0 then 0 else (case Seconds d of (m, k) \<Rightarrow> word_of_int (m div 2 ^ k)))"

lemma rne_ge: "0 < b \<Longrightarrow> c * b \<le> a \<Longrightarrow> c \<le> rne a b"
proof -
  assume "0 < b" "c * b \<le> a"
  then have "c \<le> a div b"
    using zdiv_mono1 [of "c * b" a b] by simp
  then show ?thesis by (auto simp: rne_def Let_def)
qed

lemma rne_exact: "0 < b \<Longrightarrow> rne (c * b) b = c"
  by (simp add: rne_def)

lemma rne_le:
  assumes "0 < b" and "a \<le> c * b"
  shows "rne a b \<le> c"
proof (cases "a = c * b")
  case True
  with assms show ?thesis by (simp add: rne_exact)
next
  case False
  with assms have "a < c * b" by simp
  moreover have "a div b * b \<le> a"
    using assms(1) by (metis div_mult_mod_eq le_add_same_cancel1 pos_mod_sign)
  ultimately have "a div b * b < c * b" by linarith
  with assms have "a div b < c" by simp
  then show ?thesis by (auto simp: rne_def Let_def)
qed

lemma float64_cases:
  assumes "float64 a b = (m, k)" and "\<exists>k < 90. 2 ^ 52 * b \<le> a * 2 ^ k"
  shows "m = rne (a * 2 ^ k) b \<and> 2 ^ 52 * b \<le> a * 2 ^ k \<and> k < 90"
proof -
  obtain j where j: "find (\<lambda>k. 2 ^ 52 * b \<le> a * 2 ^ k) [0..<90] = Some j"
    using assms(2) by (cases "find (\<lambda>k. 2 ^ 52 * b \<le> a * 2 ^ k) [0..<90]")
      (auto simp: find_None_iff)
  then have "2 ^ 52 * b \<le> a * 2 ^ j \<and> j < 90"
    by (auto simp: find_Some_iff)
  moreover have "m = rne (a * 2 ^ j) b \<and> k = j"
    using j assms(1) by (auto simp: float64_def)
  ultimately show ?thesis by blast
qed

lemma float64_zero: "0 < b \<Longrightarrow> float64 0 b = (0, 0)"
  by (auto simp: float64_def find_None_iff split: option.splits dest!: find_Some_iff [THEN iffD1])

lemma float64_nsec:
  assumes "float64 n 1000000000 = (m, k)" and "0 < n" and "n < 1000000000"
  shows "2 ^ 52 \<le> m \<and> m \<le> 2 ^ k \<and> k < 90"
proof -
  have "2 ^ 52 * 1000000000 \<le> n * 2 ^ 89" using assms(2) by simp
  then have "m = rne (n * 2 ^ k) 1000000000 \<and> 2 ^ 52 * 1000000000 \<le> n * 2 ^ k \<and> k < 90"
    using assms by (intro float64_cases) (auto intro!: exI [of _ 89])
  moreover have "n * 2 ^ k \<le> 2 ^ k * 1000000000" using assms(3) by simp
  ultimately show ?thesis
    using rne_ge [of 1000000000 "2 ^ 52" "n * 2 ^ k"] rne_le [of 1000000000 "n * 2 ^ k" "2 ^ k"]
    by simp
qed

text \<open>A value between two integers rounds to a value between them.\<close>

lemma float64_between:
  assumes "float64 a b = (m, k)" and b: "0 < b"
    and ex: "\<exists>k < 90. 2 ^ 52 * b \<le> a * 2 ^ k"
    and lo: "c * b \<le> a" and hi: "a \<le> (c + 1) * b"
  shows "c \<le> m div 2 ^ k \<and> m div 2 ^ k \<le> c + 1"
proof -
  have m: "m = rne (a * 2 ^ k) b" using float64_cases [OF assms(1) ex] by simp
  have "c * 2 ^ k * b \<le> a * 2 ^ k"
    using mult_right_mono [OF lo, of "2 ^ k"] by (simp add: ac_simps)
  then have "c * 2 ^ k \<le> m" unfolding m by (rule rne_ge [OF b])
  moreover have "a * 2 ^ k \<le> (c + 1) * 2 ^ k * b"
    using mult_right_mono [OF hi, of "2 ^ k"] by (simp add: ac_simps)
  then have "m \<le> (c + 1) * 2 ^ k" unfolding m by (rule rne_le [OF b])
  ultimately show ?thesis
    using zdiv_mono1 [of "c * 2 ^ k" m "2 ^ k"] zdiv_mono1 [of m "(c + 1) * 2 ^ k" "2 ^ k"]
    by simp
qed

lemma Seconds_bounds:
  assumes "Seconds d = (m, k)" and "0 \<le> d"
  shows "d div Second \<le> m div 2 ^ k \<and> m div 2 ^ k \<le> d div Second + 1"
proof -
  let ?s = "d div Second" and ?n = "d mod Second"
  have n0: "0 \<le> ?n" "?n < 1000000000" "0 \<le> ?s"
    using assms(2) by (simp_all add: Second_def pos_imp_zdiv_nonneg_iff)
  obtain m0 k0 where n: "float64 ?n 1000000000 = (m0, k0)" by fastforce
  have S: "float64 (?s * 2 ^ k0 + m0) (2 ^ k0) = (m, k)"
    using assms n by (simp add: Seconds_def Let_def)
  have m0: "0 \<le> m0 \<and> m0 \<le> 2 ^ k0 \<and> k0 < 90 \<and> (?n = 0 \<longrightarrow> m0 = 0) \<and> (?n \<noteq> 0 \<longrightarrow> 2 ^ 52 \<le> m0)"
  proof (cases "?n = 0")
    case True
    with n show ?thesis by (simp add: float64_zero)
  next
    case False
    with float64_nsec [OF n] n0 show ?thesis by simp
  qed
  show ?thesis
  proof (cases "?s = 0 \<and> ?n = 0")
    case True
    then have "m0 = 0" using m0 by simp
    then show ?thesis using True S by (simp add: float64_zero)
  next
    case False
    have ex: "\<exists>k < 90. 2 ^ 52 * 2 ^ k0 \<le> (?s * 2 ^ k0 + m0) * 2 ^ k"
    proof (cases "?s = 0")
      case True
      with False m0 have "2 ^ 52 * 2 ^ k0 \<le> (?s * 2 ^ k0 + m0) * 2 ^ k0 \<and> k0 < 90" by simp
      then show ?thesis by blast
    next
      case False
      then have "1 * 2 ^ k0 \<le> ?s * 2 ^ k0" using n0 by (intro mult_right_mono) auto
      then have "2 ^ k0 \<le> ?s * 2 ^ k0 + m0" using m0 by linarith
      then have "2 ^ k0 * 2 ^ 52 \<le> (?s * 2 ^ k0 + m0) * 2 ^ 52" by (rule mult_right_mono) simp
      then show ?thesis by (intro exI [of _ 52]) (simp add: mult.commute)
    qed
    show ?thesis
      by (rule float64_between [OF S _ ex]) (use m0 in \<open>simp_all add: distrib_right\<close>)
  qed
qed

text \<open>
  The seconds of a non-negative duration, as converted to \<open>uint32\<close>: the whole seconds, or
  one more where the float rounds up; exact for a whole number of seconds.
\<close>

lemma uint32_Seconds_bounds:
  assumes "0 \<le> d" and "d div Second + 1 < 2 ^ 32"
  shows "d div Second \<le> uint (uint32_Seconds d) \<and> uint (uint32_Seconds d) \<le> d div Second + 1"
proof (cases "d = 0")
  case True
  then show ?thesis by (simp add: uint32_Seconds_def)
next
  case False
  obtain m k where S: "Seconds d = (m, k)" by fastforce
  have b: "d div Second \<le> m div 2 ^ k" "m div 2 ^ k \<le> d div Second + 1"
    using Seconds_bounds [OF S assms(1)] by auto
  moreover have "0 \<le> d div Second" using assms(1) by (simp add: Second_def pos_imp_zdiv_nonneg_iff)
  ultimately have "uint (word_of_int (m div 2 ^ k) :: 32 word) = m div 2 ^ k"
    using assms(2) by (simp add: unsigned_of_int take_bit_int_eq_self)
  moreover have "uint32_Seconds d = word_of_int (m div 2 ^ k)"
    using False assms(1) S by (simp add: uint32_Seconds_def)
  ultimately show ?thesis using b by simp
qed

lemma float64_whole:
  assumes "float64 n 1 = (m, k)" and "0 \<le> n"
  shows "m div 2 ^ k = n"
proof (cases "n = 0")
  case True
  with assms show ?thesis by (simp add: float64_zero)
next
  case False
  then have "\<exists>k < 90. 2 ^ 52 * 1 \<le> n * 2 ^ k" using assms(2) by (intro exI [of _ 52]) simp
  then have "m = rne (n * 2 ^ k) 1"
    using float64_cases [OF assms(1)] by simp
  then show ?thesis using rne_exact [of 1 "n * 2 ^ k"] by simp
qed

lemma uint32_Seconds_whole: "0 \<le> n \<Longrightarrow> uint32_Seconds (n * Second) = word_of_int n"
proof -
  assume n: "0 \<le> n"
  obtain m k where f: "float64 n 1 = (m, k)" by fastforce
  have "Seconds (n * Second) = (m, k)"
    using f by (simp add: Seconds_def Second_def float64_zero)
  then show ?thesis
    using float64_whole [OF f n] n by (auto simp: uint32_Seconds_def Second_def)
qed

lemma uint32_Seconds_nonpos [simp]: "d \<le> 0 \<Longrightarrow> uint32_Seconds d = 0"
  by (simp add: uint32_Seconds_def)

end
