(* ===== verification/Domain.thy ===== *)
theory Domain
  imports Utils RRTypes GoTime
begin

text \<open>
  \<open>internal/dns/domain\<close>: the cache key, \<open>Question\<close>, \<open>ResourceRecord\<close> and
  \<open>DNSResponse\<close> with their constructors and validation. A method that reads the system
  clock (\<open>time.Now\<close>, \<open>time.Until\<close>) takes the reading as its argument \<open>now\<close>.
\<close>

section \<open>Cache key\<close>

definition GenerateCacheKey :: "extern \<Rightarrow> string \<Rightarrow> rr_type \<Rightarrow> rr_class \<Rightarrow> string" where
  "GenerateCacheKey X name t c =
     (let name = CanonicalDNSName X name;
          apexDomain = GetApexDomain X name
      in apexDomain @ ''|'' @ name @ ''|'' @ RRType_String t @ ''|'' @ RRClass_String c)"

section \<open>Question\<close>

record question =
  q_ID :: "16 word"
  q_Name :: string
  q_Type :: rr_type
  q_Class :: rr_class

definition Question_Validate :: "question \<Rightarrow> unit outcome" where
  "Question_Validate q =
     (if q_Name q = '''' then Err (Errorf ''query name must not be empty'')
      else if \<not> RRType_IsValid (q_Type q) then Err (Errorf ''unsupported RRType: %d'')
      else if \<not> RRClass_IsValid (q_Class q) then Err (Errorf ''unsupported RRClass: %d'')
      else Ret ())"

definition NewQuestion :: "16 word \<Rightarrow> string \<Rightarrow> rr_type \<Rightarrow> rr_class \<Rightarrow> question outcome" where
  "NewQuestion qid name rrtype rrclass =
     (let q = \<lparr>q_ID = qid, q_Name = name, q_Type = rrtype, q_Class = rrclass\<rparr>
      in obind (Question_Validate q) (\<lambda>_. Ret q))"

definition Question_CacheKey :: "extern \<Rightarrow> question \<Rightarrow> string" where
  "Question_CacheKey X q = GenerateCacheKey X (q_Name q) (q_Type q) (q_Class q)"

section \<open>ResourceRecord\<close>

record resource_record =
  rr_Name :: string
  rr_Type :: rr_type
  rr_Class :: rr_class
  rr_ttl :: "32 word"
  rr_expiresAt :: "time option"
  rr_Data :: bytes
  rr_Text :: string

definition RR_Validate :: "resource_record \<Rightarrow> unit outcome" where
  "RR_Validate rr =
     (if rr_Name rr = '''' then Err (Errorf ''record name must not be empty'')
      else if \<not> RRType_IsValid (rr_Type rr) then Err (Errorf ''invalid RRType: %d'')
      else if \<not> RRClass_IsValid (rr_Class rr) then Err (Errorf ''invalid RRClass: %d'')
      else if rr_Text rr = '''' \<and> length (rr_Data rr) = 0 then Err (Errorf ''either Text or Data must be set'')
      else Ret ())"

definition NewAuthoritativeResourceRecord ::
    "extern \<Rightarrow> string \<Rightarrow> rr_type \<Rightarrow> rr_class \<Rightarrow> 32 word \<Rightarrow> bytes \<Rightarrow> string \<Rightarrow> resource_record outcome" where
  "NewAuthoritativeResourceRecord X name rrtype rrclass ttl data txt =
     (let rr = \<lparr>rr_Name = CanonicalDNSName X name, rr_Type = rrtype, rr_Class = rrclass,
                rr_ttl = ttl, rr_expiresAt = None, rr_Data = data, rr_Text = txt\<rparr>
      in obind (RR_Validate rr) (\<lambda>_. Ret rr))"

definition NewCachedResourceRecord ::
    "extern \<Rightarrow> string \<Rightarrow> rr_type \<Rightarrow> rr_class \<Rightarrow> 32 word \<Rightarrow> bytes \<Rightarrow> string \<Rightarrow> time \<Rightarrow> resource_record outcome" where
  "NewCachedResourceRecord X name rrtype rrclass ttl data txt now =
     (let exp = time_Add now (uint ttl * Second);
          rr = \<lparr>rr_Name = CanonicalDNSName X name, rr_Type = rrtype, rr_Class = rrclass,
                rr_ttl = ttl, rr_expiresAt = Some exp, rr_Data = data, rr_Text = txt\<rparr>
      in obind (RR_Validate rr) (\<lambda>_. Ret rr))"

definition TTLRemaining :: "resource_record \<Rightarrow> time \<Rightarrow> duration" where
  "TTLRemaining rr now =
     (case rr_expiresAt rr of
        None \<Rightarrow> uint (rr_ttl rr) * Second
      | Some exp \<Rightarrow> (let ttl = time_Until exp now in if ttl < 0 then 0 else ttl))"

definition RR_CacheKey :: "extern \<Rightarrow> resource_record \<Rightarrow> string" where
  "RR_CacheKey X rr = GenerateCacheKey X (rr_Name rr) (rr_Type rr) (rr_Class rr)"

definition RR_TTL :: "resource_record \<Rightarrow> time \<Rightarrow> 32 word" where
  "RR_TTL rr now =
     (case rr_expiresAt rr of
        None \<Rightarrow> rr_ttl rr
      | Some exp \<Rightarrow> (let ttl = time_Until exp now in if ttl \<le> 0 then 0 else uint32_Seconds ttl))"

definition IsExpired :: "resource_record \<Rightarrow> time \<Rightarrow> bool" where
  "IsExpired rr now =
     (case rr_expiresAt rr of None \<Rightarrow> False | Some exp \<Rightarrow> time_After now exp)"

definition IsAuthoritative :: "resource_record \<Rightarrow> bool" where
  "IsAuthoritative rr \<longleftrightarrow> rr_expiresAt rr = None"

section \<open>DNSResponse\<close>

record dns_response =
  resp_ID :: "16 word"
  resp_RCode :: rcode
  resp_Question :: question
  resp_Answers :: "resource_record list"
  resp_Authority :: "resource_record list"
  resp_Additional :: "resource_record list"

text \<open>The zero value of \<open>Question\<close>, which a struct literal leaves in an unnamed field\<close>

definition zero_question :: question where
  "zero_question = \<lparr>q_ID = 0, q_Name = '''', q_Type = 0, q_Class = 0\<rparr>"

text \<open>The loop over one section: the first invalid record ends it.\<close>

fun validate_section :: "string \<Rightarrow> resource_record list \<Rightarrow> unit outcome" where
  "validate_section msg [] = Ret ()"
| "validate_section msg (rr # rrs) =
     obind (map_err (Wrapf msg) (RR_Validate rr)) (\<lambda>_. validate_section msg rrs)"

definition Response_Validate :: "dns_response \<Rightarrow> unit outcome" where
  "Response_Validate resp =
     (if \<not> RCode_IsValid (resp_RCode resp) then Err (Errorf ''invalid RCode: %d'')
      else obind (validate_section ''invalid answer record at index %d: %w'' (resp_Answers resp))
        (\<lambda>_. obind (validate_section ''invalid authority record at index %d: %w'' (resp_Authority resp))
        (\<lambda>_. validate_section ''invalid additional record at index %d: %w'' (resp_Additional resp))))"

definition NewDNSResponse ::
    "16 word \<Rightarrow> rcode \<Rightarrow> resource_record list \<Rightarrow> resource_record list \<Rightarrow> resource_record list \<Rightarrow> dns_response outcome" where
  "NewDNSResponse rid rcode answers authority additional =
     (let resp = \<lparr>resp_ID = rid, resp_RCode = rcode, resp_Question = zero_question,
                  resp_Answers = answers, resp_Authority = authority, resp_Additional = additional\<rparr>
      in obind (Response_Validate resp) (\<lambda>_. Ret resp))"

definition NewDNSErrorResponse :: "16 word \<Rightarrow> rcode \<Rightarrow> dns_response" where
  "NewDNSErrorResponse rid rcode =
     \<lparr>resp_ID = rid, resp_RCode = rcode, resp_Question = zero_question,
      resp_Answers = [], resp_Authority = [], resp_Additional = []\<rparr>"

definition IsError :: "dns_response \<Rightarrow> bool" where
  "IsError resp \<longleftrightarrow> resp_RCode resp \<noteq> 0"

definition HasAnswers :: "dns_response \<Rightarrow> bool" where
  "HasAnswers resp \<longleftrightarrow> length (resp_Answers resp) > 0"

definition AnswerCount :: "dns_response \<Rightarrow> nat" where
  "AnswerCount resp = length (resp_Answers resp)"

definition AuthorityCount :: "dns_response \<Rightarrow> nat" where
  "AuthorityCount resp = length (resp_Authority resp)"

definition AdditionalCount :: "dns_response \<Rightarrow> nat" where
  "AdditionalCount resp = length (resp_Additional resp)"

section \<open>Facts about keys\<close>

lemma cache_key_type_class:
  assumes "GenerateCacheKey X m s c = GenerateCacheKey X n t d"
  shows "s = t \<and> RRClass_String c = RRClass_String d
    \<and> GetApexDomain X (CanonicalDNSName X m) @ ''|'' @ CanonicalDNSName X m
      = GetApexDomain X (CanonicalDNSName X n) @ ''|'' @ CanonicalDNSName X n"
proof -
  define am where "am = GetApexDomain X (CanonicalDNSName X m) @ ''|'' @ CanonicalDNSName X m"
  define an where "an = GetApexDomain X (CanonicalDNSName X n) @ ''|'' @ CanonicalDNSName X n"
  have "(am @ CHR ''|'' # RRType_String s) @ CHR ''|'' # RRClass_String c
      = (an @ CHR ''|'' # RRType_String t) @ CHR ''|'' # RRClass_String d"
    using assms by (simp add: GenerateCacheKey_def Let_def am_def an_def)
  from last_sep_inj [OF this RRClass_String_no_pipe RRClass_String_no_pipe]
  have 1: "am @ CHR ''|'' # RRType_String s = an @ CHR ''|'' # RRType_String t"
    and 2: "RRClass_String c = RRClass_String d" by simp_all
  from last_sep_inj [OF 1 RRType_String_no_pipe RRType_String_no_pipe]
  have "am = an" and "RRType_String s = RRType_String t" by simp_all
  with 2 show ?thesis unfolding am_def an_def by (auto dest: RRType_String_inj)
qed

lemma cache_key_cong:
  "CanonicalDNSName X m = CanonicalDNSName X n \<Longrightarrow> GenerateCacheKey X m t c = GenerateCacheKey X n t c"
  by (simp add: GenerateCacheKey_def)

lemma Canonical_no_pipe:
  assumes "plain n" and "CHR ''|'' \<notin> set n"
  shows "CHR ''|'' \<notin> set (CanonicalDNSName X n)"
proof -
  have "ascii_lower c \<noteq> CHR ''|''" if "c \<noteq> CHR ''|''" for c
  proof
    assume "ascii_lower c = CHR ''|''"
    then have "(of_char c :: nat) = of_char CHR ''|''"
      using of_char_ascii_lower [of c] by (auto split: if_splits)
    then show False using that by (simp only: of_char_eq_iff)
  qed
  then have "CHR ''|'' \<notin> set (map ascii_lower n)" using assms(2) by (metis imageE list.set_map)
  then show ?thesis
    unfolding Canonical_plain [OF assms(1)] using set_strip_dots by blast
qed

lemma cache_key_names:
  assumes "GenerateCacheKey X m s c = GenerateCacheKey X n t d"
    and "CHR ''|'' \<notin> set (CanonicalDNSName X m)" and "CHR ''|'' \<notin> set (CanonicalDNSName X n)"
  shows "CanonicalDNSName X m = CanonicalDNSName X n"
  using cache_key_type_class [OF assms(1)] last_sep_inj [of _ "CHR ''|''" "CanonicalDNSName X m"]
    assms(2,3) by fastforce

section \<open>Facts about validation\<close>

definition valid_rr :: "resource_record \<Rightarrow> bool" where
  "valid_rr rr \<longleftrightarrow> rr_Name rr \<noteq> [] \<and> RRType_IsValid (rr_Type rr) \<and> RRClass_IsValid (rr_Class rr)
     \<and> (rr_Text rr \<noteq> [] \<or> rr_Data rr \<noteq> [])"

lemma RR_Validate_Ret [simp]: "RR_Validate rr = Ret u \<longleftrightarrow> valid_rr rr"
  by (auto simp: RR_Validate_def valid_rr_def)

lemma RR_Validate_no_panic [simp]: "\<not> panics (RR_Validate rr)"
  by (simp add: RR_Validate_def)

lemma validate_section_Ret [simp]: "validate_section m rrs = Ret u \<longleftrightarrow> (\<forall>rr \<in> set rrs. valid_rr rr)"
  by (induction rrs) (auto simp: obind_eq_Ret)

lemma Response_Validate_Ret:
  "Response_Validate r = Ret u \<longleftrightarrow> RCode_IsValid (resp_RCode r)
     \<and> (\<forall>rr \<in> set (resp_Answers r) \<union> set (resp_Authority r) \<union> set (resp_Additional r). valid_rr rr)"
  by (auto simp: Response_Validate_def obind_eq_Ret)

lemma NewCached_Ret:
  "NewCachedResourceRecord X n t c ttl data txt now = Ret rr \<longleftrightarrow>
     rr = \<lparr>rr_Name = CanonicalDNSName X n, rr_Type = t, rr_Class = c, rr_ttl = ttl,
           rr_expiresAt = Some (now + uint ttl * Second), rr_Data = data, rr_Text = txt\<rparr> \<and> valid_rr rr"
  by (auto simp: NewCachedResourceRecord_def Let_def obind_eq_Ret time_Add_def)

lemma NewCached_no_panic [simp]: "\<not> panics (NewCachedResourceRecord X n t c ttl data txt now)"
  by (simp add: NewCachedResourceRecord_def Let_def panics_obind)

lemma NewAuth_Ret:
  "NewAuthoritativeResourceRecord X n t c ttl data txt = Ret rr \<longleftrightarrow>
     rr = \<lparr>rr_Name = CanonicalDNSName X n, rr_Type = t, rr_Class = c, rr_ttl = ttl,
           rr_expiresAt = None, rr_Data = data, rr_Text = txt\<rparr> \<and> valid_rr rr"
  by (auto simp: NewAuthoritativeResourceRecord_def Let_def obind_eq_Ret)

lemma NewAuth_no_panic [simp]: "\<not> panics (NewAuthoritativeResourceRecord X n t c ttl data txt)"
  by (simp add: NewAuthoritativeResourceRecord_def Let_def panics_obind)

lemma NewQuestion_Ret:
  "NewQuestion qid n t c = Ret q \<longleftrightarrow>
     q = \<lparr>q_ID = qid, q_Name = n, q_Type = t, q_Class = c\<rparr> \<and> n \<noteq> [] \<and> RRType_IsValid t \<and> RRClass_IsValid c"
  by (auto simp: NewQuestion_def Question_Validate_def Let_def)

lemma NewQuestion_no_panic [simp]: "\<not> panics (NewQuestion qid n t c)"
  by (simp add: NewQuestion_def Question_Validate_def Let_def)

section \<open>Facts about lifetimes\<close>

lemma uint_ttl_bounds: "0 \<le> uint (w :: 32 word)" "uint (w :: 32 word) < 2 ^ 32"
  using uint_lt2p [of w] by simp_all

lemma time_Until_small: "- (2 ^ 63) \<le> t - now \<Longrightarrow> t - now < 2 ^ 63 \<Longrightarrow> time_Until t now = t - now"
  by (simp add: time_Until_def)

section \<open>Properties\<close>

text \<open>
  C39. Two lookups share a cache key exactly when their canonical names, types and classes
  agree, for printable names without the separator \<open>|\<close> and valid classes: the key never
  mixes up two questions.
\<close>

theorem cache_key_iff:
  assumes "plain m" and "plain n" and "CHR ''|'' \<notin> set m" and "CHR ''|'' \<notin> set n"
    and "RRClass_IsValid c"
  shows "GenerateCacheKey X m s c = GenerateCacheKey X n t d \<longleftrightarrow>
    CanonicalDNSName X m = CanonicalDNSName X n \<and> s = t \<and> c = d"
proof
  assume eq: "GenerateCacheKey X m s c = GenerateCacheKey X n t d"
  then have "CanonicalDNSName X m = CanonicalDNSName X n"
    by (rule cache_key_names) (use assms in \<open>simp_all add: Canonical_no_pipe\<close>)
  moreover from cache_key_type_class [OF eq] have "s = t \<and> c = d"
    using RRClass_String_inj [OF assms(5)] by blast
  ultimately show "CanonicalDNSName X m = CanonicalDNSName X n \<and> s = t \<and> c = d" by blast
qed (simp add: GenerateCacheKey_def)

theorem cache_key_iff_witness:
  "GenerateCacheKey sample_extern ''A.b.'' 1 1 = GenerateCacheKey sample_extern ''a.B'' 1 1
   \<and> GenerateCacheKey sample_extern ''A.b.'' 1 1 \<noteq> GenerateCacheKey sample_extern ''A.b.'' 28 1"
proof -
  have p: "plain ''A.b.''" "plain ''a.B''" by (simp_all add: plain_char_def)
  have c: "CanonicalDNSName sample_extern ''A.b.'' = CanonicalDNSName sample_extern ''a.B''" by code_simp
  have v: "RRClass_IsValid 1" by (simp add: RRClass_IsValid_def)
  show ?thesis
    using cache_key_iff [OF p(1) p(2) _ _ v, of sample_extern 1 1 1]
      cache_key_iff [OF p(1) p(1) _ _ v, of sample_extern 1 28 1] c by simp
qed

text \<open>
  A name that is valid in its ASCII form has one canonical form: it is lower case, ends
  in no dot, is its own canonical form, and does not change when a dot is appended.
\<close>

theorem canonical_normal_form:
  assumes "plain n"
  shows "CanonicalDNSName X (CanonicalDNSName X n) = CanonicalDNSName X n
    \<and> CanonicalDNSName X (n @ ''.'') = CanonicalDNSName X n
    \<and> map ascii_lower (CanonicalDNSName X n) = CanonicalDNSName X n
    \<and> \<not> HasSuffix (CanonicalDNSName X n) ''.''"
  using assms by (simp add: Canonical_trailing_dot Canonical_no_trailing_dot)

theorem canonical_normal_form_witness:
  "CanonicalDNSName sample_extern ''A.b.'' = ''a.b''
   \<and> CanonicalDNSName sample_extern (CanonicalDNSName sample_extern ''A.b.'') = CanonicalDNSName sample_extern ''A.b.''"
proof -
  have "plain ''A.b.''" by (simp add: plain_char_def)
  moreover have "CanonicalDNSName sample_extern ''A.b.'' = ''a.b''" by code_simp
  ultimately show ?thesis using canonical_normal_form by blast
qed

text \<open>
  Without the restriction to printable names the canonical form of a canonical form may
  differ: white space before a trailing dot survives one pass and not two.
\<close>

lemma canonical_not_idempotent:
  "CanonicalDNSName sample_extern (CanonicalDNSName sample_extern ''a .'') \<noteq> CanonicalDNSName sample_extern ''a .''"
  by code_simp

lemma RR_TTL_cases:
  assumes "rr_expiresAt rr = Some e" and "e - now < 2 ^ 63" and "now \<le> e"
  shows "RR_TTL rr now = uint32_Seconds (e - now)"
  using assms by (simp add: RR_TTL_def Let_def time_Until_small)

text \<open>
  C38. The life of a cached record: it is expired exactly when more than its TTL has passed
  since it was received; until then its remaining TTL is the number of seconds that are
  left (rounded down, or up by the last float rounding), never more than the TTL it came
  with, and from its expiry on the remaining TTL is 0.
\<close>

theorem cached_record_lifetime:
  assumes "NewCachedResourceRecord X n t c ttl data txt start = Ret rr" and "start \<le> now"
  defines "left \<equiv> start + uint ttl * Second - now"
  shows "(IsExpired rr now \<longleftrightarrow> left < 0)
    \<and> (left \<le> 0 \<longrightarrow> RR_TTL rr now = 0 \<and> TTLRemaining rr now = 0)
    \<and> (0 \<le> left \<longrightarrow> TTLRemaining rr now = left \<and> left div Second \<le> uint (RR_TTL rr now)
         \<and> uint (RR_TTL rr now) \<le> left div Second + 1 \<and> uint (RR_TTL rr now) \<le> uint ttl)"
proof -
  have e: "rr_expiresAt rr = Some (start + uint ttl * Second)"
    using assms(1) by (simp add: NewCached_Ret)
  have bounds: "0 \<le> uint ttl" "uint ttl < 2 ^ 32" by (rule uint_ttl_bounds)+
  have left: "left \<le> uint ttl * Second" using assms(2) by (simp add: left_def)
  have small: "left < 2 ^ 63" using left bounds by (simp add: Second_def)
  have "IsExpired rr now \<longleftrightarrow> left < 0" by (auto simp: IsExpired_def e time_After_def left_def)
  moreover have "RR_TTL rr now = 0 \<and> TTLRemaining rr now = 0" if "left \<le> 0"
    using that by (simp add: RR_TTL_def TTLRemaining_def e time_Until_def left_def Let_def)
  moreover have "TTLRemaining rr now = left \<and> left div Second \<le> uint (RR_TTL rr now)
      \<and> uint (RR_TTL rr now) \<le> left div Second + 1 \<and> uint (RR_TTL rr now) \<le> uint ttl" if "0 \<le> left"
  proof -
    have until: "time_Until (start + uint ttl * Second) now = left"
      using that small by (simp add: time_Until_def left_def)
    then have ttl: "RR_TTL rr now = uint32_Seconds left" and "TTLRemaining rr now = left"
      using that by (simp_all add: RR_TTL_def TTLRemaining_def e Let_def)
    moreover have whole: "left div Second + 1 \<le> uint ttl" if "left < uint ttl * Second"
      using that by (simp add: Second_def)
    have "left div Second \<le> uint (uint32_Seconds left) \<and> uint (uint32_Seconds left) \<le> left div Second + 1
        \<and> uint (uint32_Seconds left) \<le> uint ttl"
    proof (cases "left = uint ttl * Second")
      case True
      then show ?thesis using uint32_Seconds_whole [of "uint ttl"] by (simp add: Second_def)
    next
      case False
      then have "left < uint ttl * Second" using left by simp
      with whole show ?thesis using uint32_Seconds_bounds [of left] that bounds by fastforce
    qed
    ultimately show ?thesis by simp
  qed
  ultimately show ?thesis by blast
qed

theorem cached_record_lifetime_witness:
  "\<exists>rr. NewCachedResourceRecord sample_extern ''a'' 1 1 10 [192, 0, 2, 1] ''192.0.2.1'' 0 = Ret rr
    \<and> \<not> IsExpired rr 3000000000 \<and> TTLRemaining rr 3000000000 = 7000000000
    \<and> IsExpired rr 10000000001 \<and> RR_TTL rr 10000000001 = 0"
proof -
  let ?rr = "\<lparr>rr_Name = ''a'', rr_Type = 1, rr_Class = 1, rr_ttl = 10, rr_expiresAt = Some 10000000000,
    rr_Data = [192, 0, 2, 1], rr_Text = ''192.0.2.1''\<rparr>"
  have e: "NewCachedResourceRecord sample_extern ''a'' 1 1 10 [192, 0, 2, 1] ''192.0.2.1'' 0 = Ret ?rr"
    by code_simp
  show ?thesis
    using cached_record_lifetime [OF e, of 3000000000] cached_record_lifetime [OF e, of 10000000001] e
    by (simp add: Second_def)
qed

end
