(* ===== verification/Interfaces.thy ===== *)
theory Interfaces
  imports Domain
begin

text \<open>
  \<open>internal/dns/services/resolver/interfaces.go\<close>: the interfaces through which the
  resolver uses its repositories and gateways. An interface whose methods change the state
  of the implementation is a record of functions over that state; one that is only read is
  a function. What the resolver relies on is a locale, interpreted where the repository
  provides the implementation.

  Clock readings inside a call are arguments: the \<open>i\<close>-th one of a call is \<open>clk i\<close>.
\<close>

section \<open>Cache\<close>

record 'c cache_ops =
  co_Set :: "'c \<Rightarrow> resource_record list \<Rightarrow> 'c \<times> unit outcome"
  co_Get :: "'c \<Rightarrow> (nat \<Rightarrow> time) \<Rightarrow> string \<Rightarrow> 'c \<times> resource_record list \<times> bool"
  co_Delete :: "'c \<Rightarrow> string \<Rightarrow> 'c"
  co_Len :: "'c \<Rightarrow> nat"
  co_Keys :: "'c \<Rightarrow> string list"

definition same_key :: "extern \<Rightarrow> resource_record list \<Rightarrow> bool" where
  "same_key X records \<longleftrightarrow> (\<forall>r \<in> set records. RR_CacheKey X r = RR_CacheKey X (hd records))"

lemma same_key_simps [simp]: "same_key X []" "same_key X [r]"
  by (simp_all add: same_key_def)

lemma same_keyD: "same_key X records \<Longrightarrow> r \<in> set records \<Longrightarrow> RR_CacheKey X r = RR_CacheKey X (hd records)"
  unfolding same_key_def by blast

text \<open>The unexpired ones of a list of records, the \<open>i\<close>-th reading of the clock for the \<open>i\<close>-th record\<close>

fun unexpired :: "(nat \<Rightarrow> time) \<Rightarrow> nat \<Rightarrow> resource_record list \<Rightarrow> resource_record list" where
  "unexpired clk i [] = []"
| "unexpired clk i (record # records) =
     (if \<not> IsExpired record (clk i) then record # unexpired clk (i + 1) records
      else unexpired clk (i + 1) records)"

lemma unexpired_subset: "set (unexpired clk i records) \<subseteq> set records"
  by (induction records arbitrary: i) auto

lemma unexpired_set: "r \<in> set (unexpired clk i records) \<Longrightarrow> \<exists>k. i \<le> k \<and> k < i + length records \<and> \<not> IsExpired r (clk k)"
proof (induction records arbitrary: i)
  case (Cons x records)
  show ?case
  proof (cases "r \<in> set (unexpired clk (i + 1) records)")
    case True
    from Cons.IH [OF this] obtain k where "i + 1 \<le> k" "k < i + 1 + length records" "\<not> IsExpired r (clk k)"
      by blast
    then show ?thesis by (intro exI [of _ k]) simp
  next
    case False
    with Cons.prems show ?thesis by (intro exI [of _ i]) (auto split: if_splits)
  qed
qed simp

lemma unexpired_const: "unexpired (\<lambda>_. now) i records = filter (\<lambda>r. \<not> IsExpired r now) records"
  by (induction records arbitrary: i) auto

text \<open>
  The contract of the cache: a hit is a non-empty list of records of the key, each found
  unexpired, and a list of records of one key that is stored is what the next lookup of the
  key finds, less the expired ones; a list with several keys is refused.
\<close>

locale answer_cache =
  fixes C :: "'c cache_ops" and X :: extern and ok :: "'c \<Rightarrow> bool"
  assumes get_hit: "ok c \<Longrightarrow> co_Get C c clk key = (d, records, True) \<Longrightarrow>
      ok d \<and> records \<noteq> [] \<and> (\<forall>r \<in> set records. RR_CacheKey X r = key \<and> (\<exists>i. \<not> IsExpired r (clk i)))"
    and get_miss: "ok c \<Longrightarrow> co_Get C c clk key = (d, records, False) \<Longrightarrow> ok d \<and> records = []"
    and set_ok: "ok c \<Longrightarrow> co_Set C c records = (d, res) \<Longrightarrow> ok d"
    and set_get: "ok c \<Longrightarrow> records \<noteq> [] \<Longrightarrow> same_key X records \<Longrightarrow> co_Set C c records = (d, res) \<Longrightarrow>
      res = Ret () \<and> snd (co_Get C d clk (RR_CacheKey X (hd records)))
        = (unexpired clk 0 records, unexpired clk 0 records \<noteq> [])"
    and set_refused: "ok c \<Longrightarrow> \<not> same_key X records \<Longrightarrow> co_Set C c records = (d, res) \<Longrightarrow> d = c \<and> \<not> is_ret res"
    and get_again: "ok c \<Longrightarrow> co_Get C c clk key = (d, records, False) \<Longrightarrow> snd (co_Get C d clk' key) = ([], False)"
begin

lemma get_ok: "ok c \<Longrightarrow> ok (fst (co_Get C c clk key))"
  using get_hit get_miss by (metis (full_types) prod.collapse)

lemma get_found: "ok c \<Longrightarrow> co_Get C c clk key = (d, records, b) \<Longrightarrow> b \<longleftrightarrow> records \<noteq> []"
  using get_hit [of c clk key d records] get_miss [of c clk key d records] by (cases b) auto

end

section \<open>ZoneCache\<close>

text \<open>
  What the resolver relies on of the zone cache: a store that answers a question answers
  with records of the question's key, and with at least one.
\<close>

locale answer_store =
  fixes lookup :: "'z \<Rightarrow> question \<Rightarrow> resource_record list \<times> bool" and X :: extern and ok :: "'z \<Rightarrow> bool"
  assumes found: "ok z \<Longrightarrow> lookup z q = (records, True) \<Longrightarrow>
      records \<noteq> [] \<and> (\<forall>r \<in> set records. RR_CacheKey X r = Question_CacheKey X q)"
    and missed: "ok z \<Longrightarrow> lookup z q = (records, False) \<Longrightarrow> records = []"
begin

lemma find_nonempty: "ok z \<Longrightarrow> lookup z q = (records, b) \<Longrightarrow> b \<longleftrightarrow> records \<noteq> []"
  using found missed by (cases b) auto

lemma find_type:
  assumes "ok z" and "lookup z q = (records, b)" and "r \<in> set records"
  shows "rr_Type r = q_Type q"
proof (cases b)
  case True
  then have "lookup z q = (records, True)" using assms(2) by simp
  from found [OF assms(1) this] assms(3) have "RR_CacheKey X r = Question_CacheKey X q" by blast
  then show ?thesis by (auto simp: RR_CacheKey_def Question_CacheKey_def dest: cache_key_type_class)
next
  case False
  then have "lookup z q = (records, False)" using assms(2) by simp
  from missed [OF assms(1) this] assms(3) show ?thesis by simp
qed

end

section \<open>UpstreamClient, Blocklist and AliasResolver\<close>

text \<open>
  \<open>Resolve\<close> over the state of the client and its network: the records, an error, or a panic
  that ends the process. \<open>Chase\<close> returns records and an error at once; \<open>None\<close> is a chase
  that never returns.
\<close>

type_synonym 'u upstream_client = "'u \<Rightarrow> question \<Rightarrow> time \<Rightarrow> 'u \<times> resource_record list outcome"

type_synonym block_list = "question \<Rightarrow> bool"

type_synonym zone_lookup = "question \<Rightarrow> resource_record list \<times> bool"

type_synonym 'u alias_resolver =
  "(nat \<Rightarrow> time) \<Rightarrow> 'u \<Rightarrow> question \<Rightarrow> resource_record list \<Rightarrow> ('u \<times> resource_record list \<times> error option) outcome option"

end
