(* ===== verification/Alias.thy ===== *)
theory Alias
  imports Interfaces
begin

text \<open>
  \<open>internal/dns/services/resolver/alias.go\<close>: the expansion of CNAME chains. The state of
  one chase is the record \<open>chaseState\<close> of the code; one iteration of its loop is
  \<open>chase_step\<close>, and the loop is a \<open>partial_function\<close>, for nothing but the depth limit
  ends it when the upstream keeps inventing names. The logger and the unused cache of the
  chaser are left out. A hop reads the clock at most once, for its upstream lookup:
  \<open>clk i\<close> is the reading of the hop at depth \<open>i\<close>.
\<close>

section \<open>Errors and state\<close>

definition ErrAliasDepthExceeded :: error where
  "ErrAliasDepthExceeded = Sentinel ''alias resolution max depth exceeded''"

definition ErrAliasLoopDetected :: error where
  "ErrAliasLoopDetected = Sentinel ''alias loop detected''"

definition ErrAliasTargetInvalid :: error where
  "ErrAliasTargetInvalid = Sentinel ''alias target invalid''"

definition ErrAliasQuestionBuild :: error where
  "ErrAliasQuestionBuild = Sentinel ''alias question build failed''"

record 'u aliasChaser =
  ac_zone :: "zone_lookup option"
  ac_up :: "'u upstream_client option"
  ac_maxDepth :: int

definition NewAliasChaser :: "zone_lookup option \<Rightarrow> 'u upstream_client option \<Rightarrow> int \<Rightarrow> 'u aliasChaser" where
  "NewAliasChaser zone upstream maxDepth = \<lparr>ac_zone = zone, ac_up = upstream, ac_maxDepth = maxDepth\<rparr>"

record chaseState =
  cs_query :: question
  cs_originalType :: rr_type
  cs_chain :: "resource_record list"
  cs_visited :: "string set"
  cs_depth :: nat
  cs_current :: "resource_record list"
  cs_chased :: bool

definition newChaseState :: "question \<Rightarrow> resource_record list \<Rightarrow> chaseState" where
  "newChaseState q initial =
     \<lparr>cs_query = q, cs_originalType = q_Type q, cs_chain = [], cs_visited = {}, cs_depth = 0,
      cs_current = initial, cs_chased = False\<rparr>"

text \<open>The zero value of \<open>ResourceRecord\<close>\<close>

definition zero_rr :: resource_record where
  "zero_rr = \<lparr>rr_Name = '''', rr_Type = 0, rr_Class = 0, rr_ttl = 0, rr_expiresAt = None, rr_Data = [], rr_Text = ''''\<rparr>"

section \<open>Helpers\<close>

definition currentHead :: "chaseState \<Rightarrow> resource_record \<times> bool" where
  "currentHead st =
     (if length (cs_current st) = 0 then (zero_rr, False)
      else let h = cs_current st ! 0 in if rr_Type h \<noteq> RRTypeCNAME then (h, False) else (h, True))"

definition shouldChase :: "question \<Rightarrow> resource_record list \<Rightarrow> bool" where
  "shouldChase q initial \<longleftrightarrow>
     length initial > 0 \<and> rr_Type (initial ! 0) = RRTypeCNAME \<and> q_Type q \<noteq> RRTypeCNAME"

definition isHeadCNAME :: "resource_record list \<Rightarrow> bool" where
  "isHeadCNAME rrs \<longleftrightarrow> length rrs > 0 \<and> rr_Type (rrs ! 0) = RRTypeCNAME"

definition guardDepth :: "'u aliasChaser \<Rightarrow> chaseState \<Rightarrow> chaseState \<times> error option" where
  "guardDepth a st =
     (let st = st\<lparr>cs_depth := cs_depth st + 1\<rparr>
      in if ac_maxDepth a > 0 \<and> int (cs_depth st) > ac_maxDepth a then (st, Some ErrAliasDepthExceeded)
         else (st, None))"

definition guardLoop :: "extern \<Rightarrow> chaseState \<Rightarrow> resource_record \<Rightarrow> chaseState \<times> error option" where
  "guardLoop X st head =
     (let name = ToLower (ext_lower X) (rr_Name head)
      in if name \<in> cs_visited st then (st, Some ErrAliasLoopDetected)
         else (st\<lparr>cs_visited := insert name (cs_visited st)\<rparr>, None))"

definition extractTarget :: "resource_record \<Rightarrow> string outcome" where
  "extractTarget head =
     (let target = TrimSpace (rr_Text head)
      in if target = '''' \<and> length (rr_Data head) > 0 then Err (Wrapf ''%w: text missing for %s'' ErrAliasTargetInvalid)
         else if target = '''' then Err (Wrapf ''%w: empty for %s'' ErrAliasTargetInvalid)
         else Ret target)"

definition buildNextQuestion :: "chaseState \<Rightarrow> string \<Rightarrow> question outcome" where
  "buildNextQuestion st target =
     map_err (\<lambda>_. Wrapf ''%w: %v'' ErrAliasQuestionBuild)
       (NewQuestion (q_ID (cs_query st)) target (cs_originalType st) (q_Class (cs_query st)))"

definition authoritativeLookup :: "'u aliasChaser \<Rightarrow> question \<Rightarrow> resource_record list \<times> bool" where
  "authoritativeLookup a q = (case ac_zone a of None \<Rightarrow> ([], False) | Some zone \<Rightarrow> zone q)"

definition upstreamLookup ::
    "'u aliasChaser \<Rightarrow> 'u \<Rightarrow> question \<Rightarrow> time \<Rightarrow> ('u \<times> resource_record list \<times> bool) outcome" where
  "upstreamLookup a u q now =
     (case ac_up a of
        None \<Rightarrow> Ret (u, [], False)
      | Some Resolve \<Rightarrow> (case Resolve u q now of
            (u, Ret recs) \<Rightarrow> if length recs = 0 then Ret (u, [], False) else Ret (u, recs, True)
          | (u, Err e) \<Rightarrow> Ret (u, [], False)
          | (u, Panic p) \<Rightarrow> Panic p))"

definition resolveNext ::
    "'u aliasChaser \<Rightarrow> 'u \<Rightarrow> time \<Rightarrow> chaseState \<Rightarrow> question \<Rightarrow> string \<Rightarrow> ('u \<times> resource_record list \<times> bool) outcome" where
  "resolveNext a u now st nextQ target =
     (let (nextRecords, found) = authoritativeLookup a nextQ
      in if \<not> found \<or> length nextRecords = 0 then
           let (nextRecords, found) =
                 (if cs_originalType st \<noteq> RRTypeCNAME then
                    (case NewQuestion (q_ID (cs_query st)) target RRTypeCNAME (q_Class (cs_query st)) of
                       Ret cnameQ \<Rightarrow>
                         (let (cnameRecords, cnameFound) = authoritativeLookup a cnameQ
                          in if cnameFound \<and> length cnameRecords > 0 then (cnameRecords, True)
                             else (nextRecords, found))
                     | _ \<Rightarrow> (nextRecords, found))
                  else (nextRecords, found))
           in if \<not> found \<or> length nextRecords = 0 then upstreamLookup a u nextQ now
              else Ret (u, nextRecords, found)
         else Ret (u, nextRecords, found))"

section \<open>The loop\<close>

text \<open>The part of \<open>step\<close> behind the two guards: follow the target of the hop just appended\<close>

definition chase_follow ::
    "'u aliasChaser \<Rightarrow> time \<Rightarrow> 'u \<Rightarrow> chaseState \<Rightarrow> resource_record \<Rightarrow> ('u \<times> chaseState \<times> bool \<times> error option) outcome" where
  "chase_follow a now u st head =
     (case extractTarget head of
        Err e \<Rightarrow> Ret (u, st, True, Some e)
      | Panic p \<Rightarrow> Panic p
      | Ret target \<Rightarrow>
          (case buildNextQuestion st target of
             Err e \<Rightarrow> Ret (u, st, True, Some e)
           | Panic p \<Rightarrow> Panic p
           | Ret nextQ \<Rightarrow>
               obind (resolveNext a u now st nextQ target)
                 (\<lambda>(u, nextRecords, found).
                    if \<not> found \<or> length nextRecords = 0 then Ret (u, st, True, None)
                    else
                      let st = st\<lparr>cs_current := nextRecords\<rparr>
                      in if \<not> isHeadCNAME (cs_current st)
                         then Ret (u, st\<lparr>cs_chain := cs_chain st @ cs_current st\<rparr>, True, None)
                         else Ret (u, st, False, None))))"

text \<open>One iteration: the new state, whether the chase is done, and its error\<close>

definition chase_step ::
    "extern \<Rightarrow> 'u aliasChaser \<Rightarrow> (nat \<Rightarrow> time) \<Rightarrow> 'u \<Rightarrow> chaseState \<Rightarrow> ('u \<times> chaseState \<times> bool \<times> error option) outcome" where
  "chase_step X a clk u st =
     (let (head, _) = currentHead st;
          st = st\<lparr>cs_chased := True\<rparr>;
          (st, err) = guardDepth a st
      in if err \<noteq> None then Ret (u, st\<lparr>cs_chain := cs_chain st @ [head]\<rparr>, True, err)
         else
           let (st, err) = guardLoop X st head
           in if err \<noteq> None then Ret (u, st\<lparr>cs_chain := cs_chain st @ [head]\<rparr>, True, err)
              else
                let st = st\<lparr>cs_chain := cs_chain st @ [head]\<rparr>
                in chase_follow a (clk (cs_depth st)) u st head)"

partial_function (option) chase_loop ::
    "extern \<Rightarrow> 'u aliasChaser \<Rightarrow> (nat \<Rightarrow> time) \<Rightarrow> 'u \<Rightarrow> chaseState \<Rightarrow> ('u \<times> resource_record list \<times> error option) outcome option" where
  "chase_loop X a clk u st =
     (case chase_step X a clk u st of
        Ret (u, st, done, err) \<Rightarrow>
          if err \<noteq> None \<or> done then Some (Ret (u, cs_chain st, err)) else chase_loop X a clk u st
      | Err e \<Rightarrow> Some (Err e)
      | Panic p \<Rightarrow> Some (Panic p))"

declare chase_loop.simps [code]

definition Chase :: "extern \<Rightarrow> 'u aliasChaser \<Rightarrow> 'u alias_resolver" where
  "Chase X a clk u query initial =
     (if \<not> shouldChase query initial then Some (Ret (u, initial, None))
      else chase_loop X a clk u (newChaseState query initial))"

definition noop_Chase :: "'u alias_resolver" where
  "noop_Chase clk u query initial = Some (Ret (u, initial, None))"

section \<open>The invariant of the loop\<close>

text \<open>The name by which the loop guard tells owners apart\<close>

definition owner :: "extern \<Rightarrow> resource_record \<Rightarrow> string" where
  "owner X rr = ToLower (ext_lower X) (rr_Name rr)"

text \<open>
  Two records are linked when the second is the head of an answer, of the zone or of the
  upstream, to a question for the target of the first.
\<close>

definition answered :: "'u aliasChaser \<Rightarrow> question \<Rightarrow> resource_record list \<Rightarrow> bool" where
  "answered a q rs \<longleftrightarrow> authoritativeLookup a q = (rs, True)
     \<or> (\<exists>Resolve u w now. ac_up a = Some Resolve \<and> Resolve u q now = (w, Ret rs))"

definition follows :: "'u aliasChaser \<Rightarrow> resource_record \<Rightarrow> resource_record list \<Rightarrow> bool" where
  "follows a r rs \<longleftrightarrow> (\<exists>q. q_Name q = TrimSpace (rr_Text r) \<and> answered a q rs)"

definition linked :: "'u aliasChaser \<Rightarrow> resource_record \<Rightarrow> resource_record \<Rightarrow> bool" where
  "linked a r r' \<longleftrightarrow> (\<exists>rs. follows a r rs \<and> rs \<noteq> [] \<and> hd rs = r')"

text \<open>
  Between two iterations the chain holds one CNAME per hop, with pairwise different owners,
  which are the visited names; there are at most \<open>maxDepth\<close> of them, the first is the head
  of the initial records and the next hop is ready.
\<close>

definition chase_inv :: "extern \<Rightarrow> 'u aliasChaser \<Rightarrow> resource_record \<Rightarrow> chaseState \<Rightarrow> bool" where
  "chase_inv X a first st \<longleftrightarrow>
     cs_depth st = length (cs_chain st)
     \<and> list_all (\<lambda>r. rr_Type r = RRTypeCNAME) (cs_chain st)
     \<and> cs_visited st = owner X ` set (cs_chain st)
     \<and> distinct (map (owner X) (cs_chain st))
     \<and> (ac_maxDepth a > 0 \<longrightarrow> int (length (cs_chain st)) \<le> ac_maxDepth a)
     \<and> isHeadCNAME (cs_current st)
     \<and> hd (cs_chain st @ cs_current st) = first
     \<and> successively (linked a) (cs_chain st)
     \<and> (cs_chain st \<noteq> [] \<longrightarrow> follows a (last (cs_chain st)) (cs_current st))"

text \<open>What a finished chase returns: the hops and what follows them, or the error that ended it.\<close>

definition chase_post ::
    "extern \<Rightarrow> 'u aliasChaser \<Rightarrow> resource_record \<Rightarrow> resource_record list \<Rightarrow> error option \<Rightarrow> bool" where
  "chase_post X a first recs err \<longleftrightarrow>
     (\<exists>hops tail. recs = hops @ tail \<and> hops \<noteq> [] \<and> hd hops = first
        \<and> list_all (\<lambda>r. rr_Type r = RRTypeCNAME) hops
        \<and> successively (linked a) hops \<and> (tail \<noteq> [] \<longrightarrow> follows a (last hops) tail)
        \<and> (case err of
             None \<Rightarrow> distinct (map (owner X) hops) \<and> (ac_maxDepth a > 0 \<longrightarrow> int (length hops) \<le> ac_maxDepth a)
               \<and> (tail = [] \<or> rr_Type (hd tail) \<noteq> RRTypeCNAME)
           | Some e \<Rightarrow> tail = [] \<and> distinct (map (owner X) (butlast hops)) \<and>
               (if e = ErrAliasDepthExceeded then ac_maxDepth a > 0 \<and> int (length hops) = ac_maxDepth a + 1
                else if e = ErrAliasLoopDetected then owner X (last hops) \<in> owner X ` set (butlast hops)
                else (\<exists>m. e = Wrapf m ErrAliasTargetInvalid \<or> e = Wrapf m ErrAliasQuestionBuild))))"

lemma isHeadCNAME_hd: "isHeadCNAME rrs \<longleftrightarrow> rrs \<noteq> [] \<and> rr_Type (hd rrs) = RRTypeCNAME"
  by (cases rrs) (auto simp: isHeadCNAME_def)

lemma currentHead_hd: "isHeadCNAME (cs_current st) \<Longrightarrow> fst (currentHead st) = hd (cs_current st)"
  by (auto simp: isHeadCNAME_hd currentHead_def Let_def hd_conv_nth)

lemma extractTarget_errors:
  "extractTarget head = Err e \<Longrightarrow> (\<exists>m. e = Wrapf m ErrAliasTargetInvalid) \<and> e \<noteq> ErrAliasDepthExceeded \<and> e \<noteq> ErrAliasLoopDetected"
  "extractTarget head \<noteq> Panic p"
  by (auto simp: extractTarget_def Let_def ErrAliasTargetInvalid_def ErrAliasDepthExceeded_def
      ErrAliasLoopDetected_def split: if_splits)

lemma buildNextQuestion_errors:
  "buildNextQuestion st target = Err e \<Longrightarrow> (\<exists>m. e = Wrapf m ErrAliasQuestionBuild) \<and> e \<noteq> ErrAliasDepthExceeded \<and> e \<noteq> ErrAliasLoopDetected"
  "buildNextQuestion st target \<noteq> Panic p"
  by (cases "NewQuestion (q_ID (cs_query st)) target (cs_originalType st) (q_Class (cs_query st))";
      auto simp: buildNextQuestion_def ErrAliasQuestionBuild_def ErrAliasDepthExceeded_def ErrAliasLoopDetected_def
        NewQuestion_def Question_Validate_def Let_def split: if_splits)+

lemma sentinels_differ [simp]: "ErrAliasLoopDetected \<noteq> ErrAliasDepthExceeded"
  by (simp add: ErrAliasDepthExceeded_def ErrAliasLoopDetected_def)

lemma buildNextQuestion_name: "buildNextQuestion st target = Ret q \<Longrightarrow> q_Name q = target"
  by (auto simp: buildNextQuestion_def NewQuestion_Ret)

lemma extractTarget_Ret: "extractTarget head = Ret target \<Longrightarrow> target = TrimSpace (rr_Text head)"
  by (auto simp: extractTarget_def Let_def split: if_splits)

lemma resolveNext_answered:
  assumes "resolveNext a u now st q target = Ret (w, recs, found)" and "found" and "recs \<noteq> []" and "q_Name q = target"
  shows "\<exists>q'. q_Name q' = target \<and> answered a q' recs \<and> (ac_up a = None \<longrightarrow> authoritativeLookup a q' = (recs, True))"
proof (cases "authoritativeLookup a q = (recs, True)")
  case True
  then show ?thesis using assms(4) by (auto simp: answered_def)
next
  case False
  show ?thesis
  proof (cases "\<exists>cq. q_Name cq = target \<and> authoritativeLookup a cq = (recs, True)")
    case True
    then show ?thesis by (auto simp: answered_def)
  next
    case none: False
    obtain rs b where l: "authoritativeLookup a q = (rs, b)" by fastforce
    have "upstreamLookup a u q now = Ret (w, recs, found)"
    proof (cases "NewQuestion (q_ID (cs_query st)) target RRTypeCNAME (q_Class (cs_query st))")
      case (Ret cq)
      then have "q_Name cq = target" by (simp add: NewQuestion_Ret)
      then show ?thesis
        using assms(1-3) l False none Ret
        by (auto simp: resolveNext_def Let_def split: if_splits prod.splits)
    qed (use assms(1-3) l False in \<open>auto simp: resolveNext_def Let_def split: if_splits\<close>)
    then show ?thesis
      using assms(2,4) by (auto simp: upstreamLookup_def answered_def split: option.splits prod.splits outcome.splits if_splits)
  qed
qed

text \<open>The hops of a chase, without what the guards say of their owners and their number\<close>

definition trail :: "'u aliasChaser \<Rightarrow> resource_record \<Rightarrow> resource_record list \<Rightarrow> bool" where
  "trail a first hops \<longleftrightarrow> hops \<noteq> [] \<and> hd hops = first \<and> list_all (\<lambda>r. rr_Type r = RRTypeCNAME) hops
     \<and> successively (linked a) hops"

lemma chase_inv_trail:
  assumes "chase_inv X a first st"
  shows "currentHead st = (hd (cs_current st), True)" "trail a first (cs_chain st @ [hd (cs_current st)])"
proof -
  show "currentHead st = (hd (cs_current st), True)"
    using assms by (auto simp: chase_inv_def currentHead_def isHeadCNAME_hd Let_def hd_conv_nth)
  have "cs_chain st \<noteq> [] \<longrightarrow> linked a (last (cs_chain st)) (hd (cs_current st))"
    using assms by (auto simp: chase_inv_def linked_def isHeadCNAME_hd)
  then show "trail a first (cs_chain st @ [hd (cs_current st)])"
    using assms by (auto simp: trail_def chase_inv_def successively_append_iff isHeadCNAME_hd hd_append)
qed

lemma chase_post_error:
  "\<lbrakk>trail a first hops; distinct (map (owner X) (butlast hops));
    if e = ErrAliasDepthExceeded then ac_maxDepth a > 0 \<and> int (length hops) = ac_maxDepth a + 1
    else if e = ErrAliasLoopDetected then owner X (last hops) \<in> owner X ` set (butlast hops)
    else (\<exists>m. e = Wrapf m ErrAliasTargetInvalid \<or> e = Wrapf m ErrAliasQuestionBuild)\<rbrakk> \<Longrightarrow>
   chase_post X a first hops (Some e)"
  unfolding chase_post_def trail_def by (intro exI [of _ hops] exI [of _ "[]"]) simp

lemma chase_post_found:
  "\<lbrakk>trail a first hops; distinct (map (owner X) hops); ac_maxDepth a > 0 \<longrightarrow> int (length hops) \<le> ac_maxDepth a;
    tail = [] \<or> rr_Type (hd tail) \<noteq> RRTypeCNAME \<and> follows a (last hops) tail\<rbrakk> \<Longrightarrow>
   chase_post X a first (hops @ tail) None"
  unfolding chase_post_def trail_def by (intro exI [of _ hops] exI [of _ tail]) auto

text \<open>A hop that passed both guards\<close>

definition hopped :: "extern \<Rightarrow> 'u aliasChaser \<Rightarrow> resource_record \<Rightarrow> chaseState \<Rightarrow> bool" where
  "hopped X a first st \<longleftrightarrow> trail a first (cs_chain st)
     \<and> cs_depth st = length (cs_chain st) \<and> cs_visited st = owner X ` set (cs_chain st)
     \<and> distinct (map (owner X) (cs_chain st))
     \<and> (ac_maxDepth a > 0 \<longrightarrow> int (length (cs_chain st)) \<le> ac_maxDepth a)"

lemma hopped_error:
  "\<lbrakk>hopped X a first st; e \<noteq> ErrAliasDepthExceeded; e \<noteq> ErrAliasLoopDetected;
    \<exists>m. e = Wrapf m ErrAliasTargetInvalid \<or> e = Wrapf m ErrAliasQuestionBuild\<rbrakk> \<Longrightarrow>
   chase_post X a first (cs_chain st) (Some e)"
  by (rule chase_post_error) (auto simp: hopped_def map_butlast intro: distinct_butlast)

lemma chase_follow_post:
  assumes step: "chase_follow a now u s h = Ret (v, st', done, err)"
    and ok: "hopped X a first s" and h: "last (cs_chain s) = h"
  shows "if err \<noteq> None \<or> done then chase_post X a first (cs_chain st') err
    else chase_inv X a first st' \<and> cs_chain st' = cs_chain s"
proof (cases "extractTarget h")
  case (Err e)
  with step hopped_error [OF ok, of e] extractTarget_errors(1) [OF Err] show ?thesis
    by (auto simp: chase_follow_def)
next
  case (Panic p)
  then show ?thesis using extractTarget_errors(2) by simp
next
  case (Ret target)
  note t = this
  show ?thesis
  proof (cases "buildNextQuestion s target")
    case (Err e)
    with step t hopped_error [OF ok, of e] buildNextQuestion_errors(1) [OF Err] show ?thesis
      by (auto simp: chase_follow_def)
  next
    case (Panic p)
    then show ?thesis using buildNextQuestion_errors(2) by simp
  next
    case (Ret nextQ)
    obtain w recs found where r: "resolveNext a u now s nextQ target = Ret (w, recs, found)"
      using step Ret t by (auto simp: chase_follow_def obind_eq_Ret)
    have st': "(v, st', done, err) =
        (if \<not> found \<or> length recs = 0 then (w, s, True, None)
         else if \<not> isHeadCNAME recs then (w, s\<lparr>cs_current := recs, cs_chain := cs_chain s @ recs\<rparr>, True, None)
         else (w, s\<lparr>cs_current := recs\<rparr>, False, None))"
      using step Ret t r by (auto simp: chase_follow_def Let_def split: if_splits)
    have nxt: "follows a h recs" if "found" "recs \<noteq> []"
      using resolveNext_answered [OF r that buildNextQuestion_name [OF Ret]] extractTarget_Ret [OF t]
      by (auto simp: follows_def)
    have post: "chase_post X a first (cs_chain s @ tail) None"
      if "tail = [] \<or> rr_Type (hd tail) \<noteq> RRTypeCNAME \<and> follows a h tail" for tail
      using ok h that by (intro chase_post_found) (auto simp: hopped_def)
    consider "\<not> found \<or> length recs = 0" | "found" "recs \<noteq> []" "\<not> isHeadCNAME recs" | "found" "recs \<noteq> []" "isHeadCNAME recs"
      by auto
    then show ?thesis
    proof cases
      case 3
      then have "chase_inv X a first (s\<lparr>cs_current := recs\<rparr>)"
        using ok h nxt by (auto simp: chase_inv_def hopped_def trail_def hd_append)
      then show ?thesis using 3 st' by simp
    qed (use st' post [of "[]"] post [of recs] nxt in \<open>simp_all add: isHeadCNAME_hd\<close>)
  qed
qed

lemma chase_step_post:
  assumes inv: "chase_inv X a first st" and step: "chase_step X a clk u st = Ret (v, st', done, err)"
  shows "if err \<noteq> None \<or> done then chase_post X a first (cs_chain st') err
    else chase_inv X a first st' \<and> length (cs_chain st') = Suc (length (cs_chain st))"
proof -
  define h where "h = hd (cs_current st)"
  let ?chain = "cs_chain st @ [h]"
  let ?s = "st\<lparr>cs_chased := True, cs_depth := cs_depth st + 1\<rparr>"
  note head = chase_inv_trail [OF inv, folded h_def]
  have i: "cs_depth st = length (cs_chain st)" "cs_visited st = owner X ` set (cs_chain st)"
      "distinct (map (owner X) (cs_chain st))"
      "ac_maxDepth a > 0 \<longrightarrow> int (length (cs_chain st)) \<le> ac_maxDepth a"
    using inv by (simp_all add: chase_inv_def)
  show ?thesis
  proof (cases "ac_maxDepth a > 0 \<and> int (length (cs_chain st) + 1) > ac_maxDepth a")
    case True
    then have "err = Some ErrAliasDepthExceeded \<and> cs_chain st' = ?chain \<and> done"
      using step head(1) i(1) by (auto simp: chase_step_def guardDepth_def Let_def)
    then show ?thesis using True chase_post_error [OF head(2), of X ErrAliasDepthExceeded] i by simp
  next
    case False
    then have d: "guardDepth a (st\<lparr>cs_chased := True\<rparr>) = (?s, None)" using i(1) by (auto simp: guardDepth_def)
    show ?thesis
    proof (cases "owner X h \<in> cs_visited st")
      case True
      then have "err = Some ErrAliasLoopDetected \<and> cs_chain st' = ?chain \<and> done"
        using step head(1) d by (auto simp: chase_step_def guardLoop_def Let_def owner_def split: if_splits)
      then show ?thesis using True chase_post_error [OF head(2), of X ErrAliasLoopDetected] i by simp
    next
      case new: False
      define s where "s = ?s\<lparr>cs_visited := insert (owner X h) (cs_visited st), cs_chain := ?chain\<rparr>"
      have "guardLoop X ?s h = (?s\<lparr>cs_visited := insert (owner X h) (cs_visited st)\<rparr>, None)"
        using new by (simp add: guardLoop_def owner_def)
      then have f: "chase_follow a (clk (cs_depth s)) u s h = Ret (v, st', done, err)"
        using step d by (simp add: chase_step_def head(1) s_def Let_def)
      have ok: "hopped X a first s" using head(2) i new False by (auto simp: hopped_def s_def)
      have c: "cs_chain s = ?chain" by (simp add: s_def)
      from chase_follow_post [OF f ok] show ?thesis unfolding c by auto
    qed
  qed
qed

lemma chase_loop_post:
  assumes "chase_loop X a clk u st = Some r" and "chase_inv X a first st" and "r = Ret (v, recs, err)"
  shows "chase_post X a first recs err"
proof -
  have "\<forall>v recs err. chase_inv X a first st \<longrightarrow> r = Ret (v, recs, err) \<longrightarrow> chase_post X a first recs err"
  proof (rule chase_loop.raw_induct [where P = "\<lambda>X a clk u st r. \<forall>v recs err. chase_inv X a first st \<longrightarrow>
      r = Ret (v, recs, err) \<longrightarrow> chase_post X a first recs err", OF _ assms(1)], intro allI impI)
    fix f X a clk u st r v recs err
    assume IH: "\<And>X a clk u st r. f X a clk u st = Some r \<Longrightarrow>
        \<forall>v recs err. chase_inv X a first st \<longrightarrow> r = Ret (v, recs, err) \<longrightarrow> chase_post X a first recs err"
      and eq: "(case chase_step X a clk u st of
          Ret (u, st, done, err) \<Rightarrow> if err \<noteq> None \<or> done then Some (Ret (u, cs_chain st, err)) else f X a clk u st
        | Err e \<Rightarrow> Some (Err e) | Panic p \<Rightarrow> Some (Panic p)) = Some r"
      and inv: "chase_inv X a first st" and r: "r = Ret (v, recs, err)"
    obtain w st' d e where step: "chase_step X a clk u st = Ret (w, st', d, e)"
      using eq r by (cases "chase_step X a clk u st") auto
    note post = chase_step_post [OF inv step]
    show "chase_post X a first recs err"
    proof (cases "e \<noteq> None \<or> d")
      case True
      then show ?thesis using eq step r post by simp
    next
      case False
      then have "f X a clk w st' = Some r" using eq step by simp
      from IH [OF this] show ?thesis using post False r by auto
    qed
  qed
  then show ?thesis using assms(2,3) by blast
qed

lemma chase_inv_new:
  assumes "shouldChase q initial"
  shows "chase_inv X a (hd initial) (newChaseState q initial)"
  using assms by (auto simp: chase_inv_def newChaseState_def shouldChase_def isHeadCNAME_def hd_conv_nth)

section \<open>Termination\<close>

text \<open>The owners of the CNAMEs that the zone can answer with\<close>

definition zone_owners :: "extern \<Rightarrow> 'u aliasChaser \<Rightarrow> string set" where
  "zone_owners X a = {owner X (hd rs) |q rs. authoritativeLookup a q = (rs, True) \<and> isHeadCNAME rs}"

lemma successively_tl: "successively P xs \<Longrightarrow> r \<in> set (tl xs) \<Longrightarrow> \<exists>r'. P r' r"
proof (induction xs)
  case (Cons x xs)
  then show ?case by (cases xs) (auto simp: successively_Cons)
qed simp

lemma linked_zone:
  "linked a r r' \<Longrightarrow> ac_up a = None \<Longrightarrow> rr_Type r' = RRTypeCNAME \<Longrightarrow> owner X r' \<in> zone_owners X a"
  by (auto simp: linked_def follows_def answered_def zone_owners_def isHeadCNAME_hd)

text \<open>How many hops a chase can take: the depth limit, or the CNAME owners of the zone.\<close>

lemma chase_inv_bound:
  assumes "chase_inv X a first st" and "0 < ac_maxDepth a \<or> ac_up a = None \<and> finite (zone_owners X a)"
  shows "length (cs_chain st) \<le> (if 0 < ac_maxDepth a then nat (ac_maxDepth a) else card (zone_owners X a) + 1)"
proof (cases "0 < ac_maxDepth a")
  case True
  then show ?thesis using assms(1) by (simp add: chase_inv_def) linarith
next
  case False
  let ?c = "cs_chain st"
  have up: "ac_up a = None" and fin: "finite (zone_owners X a)" using assms(2) False by auto
  have "owner X ` set (tl ?c) \<subseteq> zone_owners X a"
  proof
    fix n assume "n \<in> owner X ` set (tl ?c)"
    then obtain r where r: "r \<in> set (tl ?c)" "n = owner X r" by blast
    have "rr_Type r = RRTypeCNAME"
      using assms(1) list.set_sel(2) [of ?c r] r(1) by (cases ?c) (auto simp: chase_inv_def list_all_iff)
    then show "n \<in> zone_owners X a"
      using successively_tl [OF _ r(1)] assms(1) linked_zone [OF _ up] r(2) by (auto simp: chase_inv_def)
  qed
  then have "card (owner X ` set (tl ?c)) \<le> card (zone_owners X a)" by (rule card_mono [OF fin])
  moreover have "distinct (map (owner X) (tl ?c))"
    using assms(1) distinct_tl [of "map (owner X) ?c"] by (simp add: chase_inv_def map_tl)
  then have "card (owner X ` set (tl ?c)) = length (tl ?c)" using distinct_card by fastforce
  ultimately show ?thesis using False by simp
qed

lemma chase_loop_bounded:
  assumes "chase_inv X a first st" and bound: "\<And>st. chase_inv X a first st \<Longrightarrow> length (cs_chain st) \<le> n"
  shows "\<exists>r. chase_loop X a clk u st = Some r"
  using assms(1)
proof (induction "n - length (cs_chain st)" arbitrary: u st rule: less_induct)
  case less
  show ?case
  proof (cases "chase_step X a clk u st")
    case (Ret t)
    obtain w st' d e where t: "t = (w, st', d, e)" by (cases t)
    note step = Ret [unfolded t]
    show ?thesis
    proof (cases "e \<noteq> None \<or> d")
      case True
      then show ?thesis using step by (subst chase_loop.simps) auto
    next
      case False
      then have inv: "chase_inv X a first st'" "length (cs_chain st') = Suc (length (cs_chain st))"
        using chase_step_post [OF less.prems step] by auto
      then have "n - length (cs_chain st') < n - length (cs_chain st)"
        using bound [OF inv(1)] by linarith
      from less.hyps [OF this inv(1)] show ?thesis using step False by (subst chase_loop.simps) simp
    qed
  qed (subst chase_loop.simps, simp)+
qed

lemma Chase_returns:
  assumes "0 < ac_maxDepth a \<or> ac_up a = None \<and> finite (zone_owners X a)"
  shows "\<exists>r. Chase X a clk u query initial = Some r"
proof (cases "shouldChase query initial")
  case True
  then show ?thesis
    using chase_loop_bounded [OF chase_inv_new [OF True] chase_inv_bound [OF _ assms]] by (simp add: Chase_def)
qed (simp add: Chase_def)

section \<open>Properties\<close>

text \<open>
  C14. A chase ends whenever the depth is limited, and also without a limit when there is no
  upstream and the zone has finitely many CNAME owners: a loop of CNAMEs never makes it run
  for ever.
\<close>

theorem chase_terminates:
  assumes "0 < ac_maxDepth a \<or> ac_up a = None \<and> finite (zone_owners X a)"
  shows "\<exists>r. Chase X a clk u query initial = Some r"
  using assms by (rule Chase_returns)

text \<open>
  C13. What a chase returns: when there is nothing to chase, the records it was given and no
  error, without a lookup; otherwise a chain of CNAME records that starts with the given
  one, each the head of an answer to a question for the target of the one before. Without
  an error the owners are pairwise different, the chain is no longer than the limit, and
  what follows the last hop is nothing or an answer for its target that is no CNAME. With
  an error nothing follows the hops, and the error says why: the chain is one longer than
  the limit, or the owner of its last hop occurs before, or the last target gives no
  question.
\<close>

theorem chase_result:
  assumes "Chase X a clk u query initial = Some (Ret (v, recs, err))"
  shows "if shouldChase query initial then chase_post X a (hd initial) recs err
    else v = u \<and> recs = initial \<and> err = None"
  using assms chase_loop_post [OF _ chase_inv_new refl] by (auto simp: Chase_def split: if_splits)

text \<open>A zone with one alias, for the witnesses\<close>

definition sample_address :: resource_record where
  "sample_address = \<lparr>rr_Name = ''b'', rr_Type = RRTypeA, rr_Class = 1, rr_ttl = 60, rr_expiresAt = None,
     rr_Data = [192, 0, 2, 1], rr_Text = ''192.0.2.1''\<rparr>"

definition sample_alias :: resource_record where
  "sample_alias = \<lparr>rr_Name = ''x'', rr_Type = RRTypeCNAME, rr_Class = 1, rr_ttl = 60, rr_expiresAt = None,
     rr_Data = [1, 98, 0], rr_Text = ''b''\<rparr>"

definition sample_zone :: zone_lookup where
  "sample_zone q = (if q_Name q = ''b'' \<and> q_Type q = RRTypeA then ([sample_address], True) else ([], False))"

definition sample_chaser :: "unit aliasChaser" where
  "sample_chaser = NewAliasChaser (Some sample_zone) None 8"

definition sample_question :: question where
  "sample_question = \<lparr>q_ID = 7, q_Name = ''x'', q_Type = RRTypeA, q_Class = 1\<rparr>"

theorem chase_terminates_witness:
  "\<exists>r. Chase sample_extern sample_chaser (\<lambda>_. 0) () sample_question [sample_alias] = Some r"
  by (rule chase_terminates) (simp add: sample_chaser_def NewAliasChaser_def)

theorem chase_result_witness:
  "Chase sample_extern sample_chaser (\<lambda>_. 0) () sample_question [sample_alias]
      = Some (Ret ((), [sample_alias, sample_address], None))
   \<and> chase_post sample_extern sample_chaser sample_alias [sample_alias, sample_address] None"
proof -
  have c: "Chase sample_extern sample_chaser (\<lambda>_. 0) () sample_question [sample_alias]
      = Some (Ret ((), [sample_alias, sample_address], None))" by code_simp
  moreover have "shouldChase sample_question [sample_alias]" by code_simp
  ultimately show ?thesis using chase_result [OF c] by simp
qed

end
