(* ===== verification/Resolver.thy ===== *)
theory Resolver
  imports Alias
begin

text \<open>
  \<open>internal/dns/services/resolver/resolver.go\<close>: the resolution of one query through the
  zone cache, the blocklist, the cache of upstream answers and the upstream client, in that
  order. The dependencies are the interfaces of \<open>Interfaces\<close>, \<open>None\<close> where the field is
  nil; the state of a call is that of the upstream client and of the cache. The logger and
  the client's address, which is only logged, are left out, and so is the context, which is
  part of the upstream client's state.
\<close>

section \<open>The resolver\<close>

record ('u, 'c) resolver =
  r_blocklist :: "block_list option"
  r_upstream :: "'u upstream_client option"
  r_upstreamCache :: "'c cache_ops option"
  r_zoneCache :: "zone_lookup option"
  r_maxRecursion :: int
  r_aliasResolver :: "'u alias_resolver option"

definition NewResolver ::
    "block_list option \<Rightarrow> 'u upstream_client option \<Rightarrow> 'c cache_ops option \<Rightarrow> zone_lookup option \<Rightarrow> int \<Rightarrow>
     'u alias_resolver option \<Rightarrow> ('u, 'c) resolver" where
  "NewResolver blocklist upstream upstreamCache zoneCache maxRecursion aliasResolver =
     \<lparr>r_blocklist = blocklist, r_upstream = upstream, r_upstreamCache = upstreamCache,
      r_zoneCache = zoneCache, r_maxRecursion = maxRecursion, r_aliasResolver = aliasResolver\<rparr>"

text \<open>
  The clock readings of one call: those of the alias chase, those of the cache lookup, and
  the one passed to the upstream client.
\<close>

record readings =
  rd_alias :: "nat \<Rightarrow> time"
  rd_cache :: "nat \<Rightarrow> time"
  rd_now :: time

definition buildResponse :: "question \<Rightarrow> rcode \<Rightarrow> resource_record list \<Rightarrow> dns_response" where
  "buildResponse query rc records =
     \<lparr>resp_ID = q_ID query, resp_RCode = rc, resp_Question = query, resp_Answers = records,
      resp_Authority = [], resp_Additional = []\<rparr>"

definition resolveFromZone ::
    "('u, 'c) resolver \<Rightarrow> readings \<Rightarrow> 'u \<Rightarrow> question \<Rightarrow> ('u \<times> resource_record list \<times> bool \<times> error option) outcome option" where
  "resolveFromZone r rd u query =
     (case r_zoneCache r of
        None \<Rightarrow> Some (Ret (u, [], False, None))
      | Some find_records \<Rightarrow>
          (let (records, found) = find_records query
           in if \<not> found \<or> length records = 0 then Some (Ret (u, [], False, None))
              else (case r_aliasResolver r of
                      None \<Rightarrow> Some (Ret (u, records, True, None))
                    | Some chase \<Rightarrow>
                        dbind (chase (rd_alias rd) u query records)
                          (\<lambda>(u, records, err). Some (Ret (u, records, True, err))))))"

definition isFatalAliasError :: "error \<Rightarrow> bool" where
  "isFatalAliasError err \<longleftrightarrow> errors_Is err ErrAliasDepthExceeded \<or> errors_Is err ErrAliasLoopDetected"

definition checkBlocklist :: "('u, 'c) resolver \<Rightarrow> question \<Rightarrow> bool" where
  "checkBlocklist r query = (case r_blocklist r of None \<Rightarrow> False | Some IsBlocked \<Rightarrow> IsBlocked query)"

definition checkUpstreamCache ::
    "extern \<Rightarrow> ('u, 'c) resolver \<Rightarrow> readings \<Rightarrow> 'c \<Rightarrow> question \<Rightarrow> 'c \<times> resource_record list \<times> bool" where
  "checkUpstreamCache X r rd c query =
     (case r_upstreamCache r of
        None \<Rightarrow> (c, [], False)
      | Some ops \<Rightarrow> co_Get ops c (rd_cache rd) (Question_CacheKey X query))"

definition resolveUpstream ::
    "('u, 'c) resolver \<Rightarrow> 'u \<Rightarrow> question \<Rightarrow> time \<Rightarrow> 'u \<times> resource_record list outcome" where
  "resolveUpstream r u query now =
     (case r_upstream r of
        None \<Rightarrow> (u, Err (Errorf ''no upstream client configured''))
      | Some Resolve \<Rightarrow> Resolve u query now)"

definition cacheUpstreamResponse :: "('u, 'c) resolver \<Rightarrow> 'c \<Rightarrow> resource_record list \<Rightarrow> 'c \<times> unit outcome" where
  "cacheUpstreamResponse r c records =
     (case r_upstreamCache r of None \<Rightarrow> (c, Ret ()) | Some ops \<Rightarrow> co_Set ops c records)"

text \<open>
  \<open>HandleQuery\<close> always returns a nil error; its result here is the new state and the
  response. A failed \<open>Set\<close> is logged and dropped.
\<close>

definition HandleQuery ::
    "extern \<Rightarrow> ('u, 'c) resolver \<Rightarrow> readings \<Rightarrow> 'u \<times> 'c \<Rightarrow> question \<Rightarrow> (('u \<times> 'c) \<times> dns_response) outcome option" where
  "HandleQuery X r rd s query =
     (let (u, c) = s
      in dbind (resolveFromZone r rd u query)
        (\<lambda>(u, records, found, err).
           if found then
             (case err of
                Some e \<Rightarrow>
                  if isFatalAliasError e then Some (Ret ((u, c), buildResponse query SERVFAIL []))
                  else Some (Ret ((u, c), buildResponse query NOERROR records))
              | None \<Rightarrow> Some (Ret ((u, c), buildResponse query NOERROR records)))
           else if checkBlocklist r query then Some (Ret ((u, c), buildResponse query NXDOMAIN []))
           else
             let (c, records, found) = checkUpstreamCache X r rd c query
             in if found then Some (Ret ((u, c), buildResponse query NOERROR records))
                else
                  (case resolveUpstream r u query (rd_now rd) of
                     (u, Err e) \<Rightarrow> Some (Ret ((u, c), buildResponse query SERVFAIL []))
                   | (u, Panic p) \<Rightarrow> Some (Panic p)
                   | (u, Ret records) \<Rightarrow>
                       (let (c, _) = cacheUpstreamResponse r c records
                        in Some (Ret ((u, c), buildResponse query NOERROR records))))))"

section \<open>Facts about the steps\<close>

lemma buildResponse_simps [simp]:
  "resp_ID (buildResponse q rc rs) = q_ID q" "resp_RCode (buildResponse q rc rs) = rc"
  "resp_Question (buildResponse q rc rs) = q" "resp_Answers (buildResponse q rc rs) = rs"
  "resp_Authority (buildResponse q rc rs) = []" "resp_Additional (buildResponse q rc rs) = []"
  by (simp_all add: buildResponse_def)

text \<open>The zone cache has records for the question\<close>

definition zone_has :: "('u, 'c) resolver \<Rightarrow> question \<Rightarrow> bool" where
  "zone_has r query \<longleftrightarrow> (\<exists>find_records records. r_zoneCache r = Some find_records
     \<and> find_records query = (records, True) \<and> records \<noteq> [])"

lemma resolveFromZone_miss:
  "\<not> zone_has r query \<Longrightarrow> resolveFromZone r rd u query = Some (Ret (u, [], False, None))"
  by (auto simp: resolveFromZone_def zone_has_def split: option.splits prod.splits)

lemma resolveFromZone_hit:
  assumes "zone_has r query" and "resolveFromZone r rd u query = Some (Ret (v, records, found, err))"
  shows "found"
  using assms by (auto simp: resolveFromZone_def zone_has_def dbind_eq_Ret split: option.splits)

lemma HandleQuery_zone:
  assumes "zone_has r query" and "HandleQuery X r rd (u, c) query = Some (Ret ((v, d), resp))"
  shows "d = c \<and> (\<exists>records err. resolveFromZone r rd u query = Some (Ret (v, records, True, err))
    \<and> resp = (if \<exists>e. err = Some e \<and> isFatalAliasError e then buildResponse query SERVFAIL []
              else buildResponse query NOERROR records))"
proof -
  obtain w records found err where z: "resolveFromZone r rd u query = Some (Ret (w, records, found, err))"
    using assms(2) by (auto simp: HandleQuery_def dbind_eq_Ret)
  moreover have "found" using resolveFromZone_hit [OF assms(1) z] .
  ultimately show ?thesis
    using assms(2) by (auto simp: HandleQuery_def split: option.splits if_splits)
qed

lemma HandleQuery_no_zone:
  "\<not> zone_has r query \<Longrightarrow> HandleQuery X r rd (u, c) query =
     (if checkBlocklist r query then Some (Ret ((u, c), buildResponse query NXDOMAIN []))
      else
        let (c, records, found) = checkUpstreamCache X r rd c query
        in if found then Some (Ret ((u, c), buildResponse query NOERROR records))
           else
             (case resolveUpstream r u query (rd_now rd) of
                (u, Err e) \<Rightarrow> Some (Ret ((u, c), buildResponse query SERVFAIL []))
              | (u, Panic p) \<Rightarrow> Some (Panic p)
              | (u, Ret records) \<Rightarrow>
                  (let (c, _) = cacheUpstreamResponse r c records
                   in Some (Ret ((u, c), buildResponse query NOERROR records)))))"
  by (simp add: HandleQuery_def resolveFromZone_miss)

lemma alias_sentinels [simp]:
  "errors_Is ErrAliasDepthExceeded e \<longleftrightarrow> e = ErrAliasDepthExceeded"
  "errors_Is ErrAliasLoopDetected e \<longleftrightarrow> e = ErrAliasLoopDetected"
  "\<not> isFatalAliasError (Wrapf m ErrAliasTargetInvalid)" "\<not> isFatalAliasError (Wrapf m ErrAliasQuestionBuild)"
  by (auto simp: isFatalAliasError_def ErrAliasDepthExceeded_def ErrAliasLoopDetected_def
      ErrAliasTargetInvalid_def ErrAliasQuestionBuild_def)

section \<open>Properties\<close>

text \<open>
  Every response echoes the ID and the question of the query, carries no authority or
  additional records, has one of the codes NOERROR, NXDOMAIN and SERVFAIL, and has no
  answers when the code is an error.
\<close>

theorem response_shape:
  assumes "HandleQuery X r rd s query = Some (Ret (t, resp))"
  shows "resp_ID resp = q_ID query \<and> resp_Question resp = query
    \<and> resp_Authority resp = [] \<and> resp_Additional resp = []
    \<and> resp_RCode resp \<in> {NOERROR, NXDOMAIN, SERVFAIL} \<and> (resp_RCode resp \<noteq> NOERROR \<longrightarrow> resp_Answers resp = [])"
proof -
  obtain u c where s: "s = (u, c)" by (cases s)
  obtain v d where t: "t = (v, d)" by (cases t)
  have "\<exists>rc records. resp = buildResponse query rc records \<and> rc \<in> {NOERROR, NXDOMAIN, SERVFAIL}
      \<and> (rc \<noteq> NOERROR \<longrightarrow> records = [])"
  proof (cases "zone_has r query")
    case True
    from HandleQuery_zone [OF True assms [unfolded s t]] show ?thesis by (auto split: if_splits)
  next
    case False
    show ?thesis
      using assms unfolding s HandleQuery_no_zone [OF False]
      by (fastforce simp: Let_def split: if_splits prod.splits outcome.splits)
  qed
  then show ?thesis by auto
qed


text \<open>
  C12. Where a response comes from. NXDOMAIN is the answer exactly for a blocked question the
  zones do not answer. The upstream's state changes only by an alias chase or for a question
  that neither the zones, nor the blocklist, nor the cache decides; the cache's state changes
  only for a question that neither the zones nor the blocklist decides. For such a question
  the response is the cached records on a hit, and on a miss the upstream's records, which
  are then stored, or SERVFAIL when the upstream fails.
\<close>

theorem source_priority:
  assumes q: "HandleQuery X r rd (u, c) query = Some (Ret ((v, d), resp))"
    and g: "checkUpstreamCache X r rd c query = (c', records, hit)"
  shows "(resp_RCode resp = NXDOMAIN \<longleftrightarrow> \<not> zone_has r query \<and> checkBlocklist r query)
    \<and> (v \<noteq> u \<longrightarrow> (if zone_has r query then r_aliasResolver r \<noteq> None else \<not> checkBlocklist r query \<and> \<not> hit))
    \<and> (d \<noteq> c \<longrightarrow> \<not> zone_has r query \<and> \<not> checkBlocklist r query)
    \<and> (\<not> zone_has r query \<and> \<not> checkBlocklist r query \<longrightarrow>
        (if hit then v = u \<and> d = c' \<and> resp = buildResponse query NOERROR records
         else v = fst (resolveUpstream r u query (rd_now rd))
           \<and> (case snd (resolveUpstream r u query (rd_now rd)) of
                Ret answers \<Rightarrow> d = fst (cacheUpstreamResponse r c' answers) \<and> resp = buildResponse query NOERROR answers
              | _ \<Rightarrow> d = c' \<and> resp = buildResponse query SERVFAIL [])))"
proof (cases "zone_has r query")
  case True
  obtain rs err where z: "resolveFromZone r rd u query = Some (Ret (v, rs, True, err))" and d: "d = c"
    and resp: "resp = (if \<exists>e. err = Some e \<and> isFatalAliasError e then buildResponse query SERVFAIL []
              else buildResponse query NOERROR rs)"
    using HandleQuery_zone [OF True q] by blast
  have "v = u" if "r_aliasResolver r = None"
    using z that by (auto simp: resolveFromZone_def split: option.splits prod.splits if_splits)
  moreover have "resp_RCode resp \<noteq> NXDOMAIN" by (simp add: resp NOERROR_def NXDOMAIN_def SERVFAIL_def)
  ultimately show ?thesis using True d by auto
next
  case False
  then show ?thesis
    using q g unfolding HandleQuery_no_zone [OF False]
    by (auto simp: NOERROR_def NXDOMAIN_def SERVFAIL_def split: if_splits prod.splits outcome.splits)
qed

text \<open>
  With the alias resolver of this package a zone answer becomes its chase: a chain that
  loops or exceeds the depth is answered SERVFAIL without records, and every other outcome
  is answered NOERROR with the chain found so far.
\<close>

theorem zone_chase_outcome:
  assumes "r_zoneCache r = Some lookup" and "lookup query = (records, True)" and "records \<noteq> []"
    and "r_aliasResolver r = Some (Chase X a)" and "rd_alias rd = clk"
    and "Chase X a clk u query records = Some (Ret (v, chain, err))"
  shows "HandleQuery X r rd (u, c) query = Some (Ret ((v, c),
      if err = Some ErrAliasDepthExceeded \<or> err = Some ErrAliasLoopDetected
      then buildResponse query SERVFAIL [] else buildResponse query NOERROR chain))"
proof -
  have "chase_post X a (hd records) chain err \<or> err = None"
    using assms(6) chase_loop_post [OF _ chase_inv_new refl] by (auto simp: Chase_def split: if_splits)
  then have fatal: "isFatalAliasError e \<longleftrightarrow> e = ErrAliasDepthExceeded \<or> e = ErrAliasLoopDetected" if "err = Some e" for e
    using that alias_sentinels by (auto simp: chase_post_def isFatalAliasError_def split: if_splits)
  have "HandleQuery X r rd (u, c) query = (case err of
      Some e \<Rightarrow> if isFatalAliasError e then Some (Ret ((v, c), buildResponse query SERVFAIL []))
         else Some (Ret ((v, c), buildResponse query NOERROR chain))
    | None \<Rightarrow> Some (Ret ((v, c), buildResponse query NOERROR chain)))"
    using assms by (auto simp: HandleQuery_def resolveFromZone_def split: option.splits)
  then show ?thesis using fatal by (auto split: option.splits)
qed

text \<open>A small resolver without a cache, for the witnesses\<close>

definition sample_resolver :: "(unit, unit) resolver" where
  "sample_resolver = NewResolver (Some (\<lambda>q. q_Name q = ''ad'')) None None
     (Some (\<lambda>q. if q_Name q = ''x'' then ([sample_alias], True) else sample_zone q)) 8
     (Some (Chase sample_extern sample_chaser))"

definition sample_readings :: readings where
  "sample_readings = \<lparr>rd_alias = (\<lambda>_. 0), rd_cache = (\<lambda>_. 0), rd_now = 0\<rparr>"

lemma sample_chase:
  "Chase sample_extern sample_chaser (\<lambda>_. 0) () sample_question [sample_alias]
     = Some (Ret ((), [sample_alias, sample_address], None))"
  by code_simp

theorem response_shape_witness:
  "\<exists>resp. HandleQuery sample_extern sample_resolver sample_readings ((), ()) sample_question = Some (Ret (((), ()), resp))
    \<and> resp_ID resp = 7 \<and> resp_RCode resp = NOERROR"
proof -
  have h: "HandleQuery sample_extern sample_resolver sample_readings ((), ()) sample_question
      = Some (Ret (((), ()), buildResponse sample_question NOERROR [sample_alias, sample_address]))"
    using sample_chase
    by (simp add: HandleQuery_def resolveFromZone_def sample_resolver_def NewResolver_def sample_readings_def
        sample_question_def)
  from response_shape [OF h] h show ?thesis by (auto simp: sample_question_def)
qed

theorem source_priority_witness:
  "\<exists>resp. HandleQuery sample_extern sample_resolver sample_readings ((), ()) (sample_question\<lparr>q_Name := ''ad''\<rparr>)
      = Some (Ret (((), ()), resp)) \<and> resp_RCode resp = NXDOMAIN"
proof -
  let ?q = "sample_question\<lparr>q_Name := ''ad''\<rparr>"
  have z: "\<not> zone_has sample_resolver ?q"
    by (simp add: zone_has_def sample_zone_def sample_resolver_def NewResolver_def)
  have b: "checkBlocklist sample_resolver ?q" by (simp add: checkBlocklist_def sample_resolver_def NewResolver_def)
  have g: "checkUpstreamCache sample_extern sample_resolver sample_readings () ?q = ((), [], False)"
    by (simp add: checkUpstreamCache_def sample_resolver_def NewResolver_def)
  have h: "HandleQuery sample_extern sample_resolver sample_readings ((), ()) ?q
      = Some (Ret (((), ()), buildResponse ?q NXDOMAIN []))"
    using b by (simp add: HandleQuery_no_zone [OF z])
  show ?thesis using source_priority [OF h g] z b h by blast
qed

theorem zone_chase_outcome_witness:
  "HandleQuery sample_extern sample_resolver sample_readings ((), ()) sample_question
    = Some (Ret (((), ()), buildResponse sample_question NOERROR [sample_alias, sample_address]))"
proof -
  let ?z = "\<lambda>q. if q_Name q = ''x'' then ([sample_alias], True) else sample_zone q"
  have z: "r_zoneCache sample_resolver = Some ?z" "r_aliasResolver sample_resolver = Some (Chase sample_extern sample_chaser)"
    by (simp_all add: sample_resolver_def NewResolver_def)
  show ?thesis
    using zone_chase_outcome [OF z(1) _ _ z(2) _ sample_chase, of sample_readings "()"]
    by (simp add: sample_question_def sample_readings_def)
qed

end
