(* ===== verification/DnsCache.thy ===== *)
theory DnsCache
  imports Interfaces "HOL-Library.Sublist"
begin

text \<open>
  \<open>internal/dns/repos/dnscache\<close>: the cache of upstream answers, a layer over the LRU
  cache of \<open>hashicorp/golang-lru\<close>. The LRU cache is code outside the repository: its
  operations are the fields of a record that every definition takes as an argument, the
  laws its documentation promises are the locale \<open>lru_cache\<close>, and a list-based LRU cache
  is shown to obey them. \<open>IsExpired\<close> reads the clock once per record: the \<open>i\<close>-th reading
  of a call is \<open>clk i\<close>.
\<close>

section \<open>The LRU cache interface\<close>

record 'c lru =
  lru_New :: "int \<Rightarrow> 'c outcome"
  lru_Add :: "'c \<Rightarrow> string \<Rightarrow> resource_record list \<Rightarrow> 'c"
  lru_Get :: "'c \<Rightarrow> string \<Rightarrow> 'c \<times> resource_record list option"
  lru_Remove :: "'c \<Rightarrow> string \<Rightarrow> 'c"
  lru_Len :: "'c \<Rightarrow> nat"
  lru_Keys :: "'c \<Rightarrow> string list"

section \<open>The cache\<close>

record 'c dnsCache =
  dc_lru :: 'c

definition ErrMultipleKeys :: error where
  "ErrMultipleKeys = Sentinel ''multiple records with different keys provided''"

definition dnscache_New :: "'c lru \<Rightarrow> int \<Rightarrow> 'c dnsCache outcome" where
  "dnscache_New L n = obind (lru_New L n) (\<lambda>cache. Ret \<lparr>dc_lru = cache\<rparr>)"

definition dnscache_Set ::
    "extern \<Rightarrow> 'c lru \<Rightarrow> 'c dnsCache \<Rightarrow> resource_record list \<Rightarrow> 'c dnsCache \<times> unit outcome" where
  "dnscache_Set X L c records =
     (if length records = 0 then (c, Ret ())
      else let key = RR_CacheKey X (records ! 0) in
        if list_ex (\<lambda>record. RR_CacheKey X record \<noteq> key) records then (c, Err ErrMultipleKeys)
        else (c\<lparr>dc_lru := lru_Add L (dc_lru c) key records\<rparr>, Ret ()))"

definition dnscache_Get ::
    "'c lru \<Rightarrow> 'c dnsCache \<Rightarrow> (nat \<Rightarrow> time) \<Rightarrow> string \<Rightarrow> 'c dnsCache \<times> resource_record list \<times> bool" where
  "dnscache_Get L c clk key =
     (let (l, r) = lru_Get L (dc_lru c) key; c = c\<lparr>dc_lru := l\<rparr>
      in (case r of
            Some records \<Rightarrow>
              (let validRecords = unexpired clk 0 records
               in if length validRecords > 0
                  then (c\<lparr>dc_lru := lru_Add L (dc_lru c) key validRecords\<rparr>, validRecords, True)
                  else (c\<lparr>dc_lru := lru_Remove L (dc_lru c) key\<rparr>, [], False))
          | None \<Rightarrow> (c, [], False)))"

text \<open>
  \<open>Get\<close> calls the LRU cache twice, and only each of these calls is atomic: the lookup, and,
  when it found records, the write-back of those that are still valid. Two goroutines can
  interleave between the two.
\<close>

definition cache_fetch :: "'c lru \<Rightarrow> 'c dnsCache \<Rightarrow> string \<Rightarrow> 'c dnsCache \<times> resource_record list option" where
  "cache_fetch L c key = (let (l, r) = lru_Get L (dc_lru c) key in (c\<lparr>dc_lru := l\<rparr>, r))"

definition cache_settle ::
    "'c lru \<Rightarrow> 'c dnsCache \<Rightarrow> (nat \<Rightarrow> time) \<Rightarrow> string \<Rightarrow> resource_record list \<Rightarrow> 'c dnsCache \<times> resource_record list \<times> bool" where
  "cache_settle L c clk key records =
     (let validRecords = unexpired clk 0 records
      in if length validRecords > 0
         then (c\<lparr>dc_lru := lru_Add L (dc_lru c) key validRecords\<rparr>, validRecords, True)
         else (c\<lparr>dc_lru := lru_Remove L (dc_lru c) key\<rparr>, [], False))"

lemma dnscache_Get_parts:
  "dnscache_Get L c clk key = (case cache_fetch L c key of
     (d, Some records) \<Rightarrow> cache_settle L d clk key records | (d, None) \<Rightarrow> (d, [], False))"
  by (simp add: dnscache_Get_def cache_fetch_def cache_settle_def Let_def split: prod.splits option.splits)

definition dnscache_Delete :: "'c lru \<Rightarrow> 'c dnsCache \<Rightarrow> string \<Rightarrow> 'c dnsCache" where
  "dnscache_Delete L c key = c\<lparr>dc_lru := lru_Remove L (dc_lru c) key\<rparr>"

definition dnscache_Len :: "'c lru \<Rightarrow> 'c dnsCache \<Rightarrow> nat" where
  "dnscache_Len L c = lru_Len L (dc_lru c)"

definition dnscache_Keys :: "'c lru \<Rightarrow> 'c dnsCache \<Rightarrow> string list" where
  "dnscache_Keys L c = lru_Keys L (dc_lru c)"

section \<open>Histories\<close>

text \<open>
  A history of calls on a cache, and the records a history leaves for a key when nothing
  is evicted and nothing expires: those of the last accepted \<open>Set\<close> of the key, unless a
  \<open>Delete\<close> of the key followed.
\<close>

datatype cache_op = OpSet "resource_record list" | OpGet "nat \<Rightarrow> time" string | OpDelete string

definition cache_step :: "extern \<Rightarrow> 'c lru \<Rightarrow> 'c dnsCache \<Rightarrow> cache_op \<Rightarrow> 'c dnsCache" where
  "cache_step X L c opn = (case opn of
       OpSet records \<Rightarrow> fst (dnscache_Set X L c records)
     | OpGet clk key \<Rightarrow> fst (dnscache_Get L c clk key)
     | OpDelete key \<Rightarrow> dnscache_Delete L c key)"

definition cache_run :: "extern \<Rightarrow> 'c lru \<Rightarrow> 'c dnsCache \<Rightarrow> cache_op list \<Rightarrow> 'c dnsCache" where
  "cache_run X L c ops = foldl (cache_step X L) c ops"

fun spec_step :: "extern \<Rightarrow> (string \<Rightarrow> resource_record list) \<Rightarrow> cache_op \<Rightarrow> string \<Rightarrow> resource_record list" where
  "spec_step X m (OpSet records) =
     (if records \<noteq> [] \<and> same_key X records then m(RR_CacheKey X (hd records) := records) else m)"
| "spec_step X m (OpGet clk key) = m"
| "spec_step X m (OpDelete key) = m(key := [])"

definition last_set :: "extern \<Rightarrow> cache_op list \<Rightarrow> string \<Rightarrow> resource_record list" where
  "last_set X ops = foldl (spec_step X) (\<lambda>_. []) ops"

section \<open>Facts about the operations\<close>

lemma unexpired_subseq: "subseq (unexpired clk i records) records"
  by (induction records arbitrary: i) auto

lemma Set_Ret:
  "dnscache_Set X L c records =
     (if records = [] then (c, Ret ())
      else if same_key X records
        then (c\<lparr>dc_lru := lru_Add L (dc_lru c) (RR_CacheKey X (hd records)) records\<rparr>, Ret ())
      else (c, Err ErrMultipleKeys))"
  by (cases records) (auto simp: dnscache_Set_def same_key_def Let_def list_ex_iff)

section \<open>The laws of the LRU cache and what they give the cache\<close>

text \<open>
  \<open>inv\<close> is the representation invariant of the LRU cache, \<open>view\<close> its contents and \<open>cap\<close>
  its capacity. \<open>Add\<close> may drop another key, and only when a new key enters a full cache.
\<close>

locale lru_cache =
  fixes L :: "'c lru" and inv :: "'c \<Rightarrow> bool" and view :: "'c \<Rightarrow> string \<Rightarrow> resource_record list option"
    and cap :: "'c \<Rightarrow> nat"
  assumes new_ok: "is_ret (lru_New L n) \<longleftrightarrow> 0 < n"
    and new: "lru_New L n = Ret c \<Longrightarrow> inv c \<and> view c = Map.empty \<and> cap c = nat n"
    and add: "inv c \<Longrightarrow> inv (lru_Add L c k v) \<and> cap (lru_Add L c k v) = cap c \<and> view (lru_Add L c k v) k = Some v"
    and add_other: "inv c \<Longrightarrow> j \<noteq> k \<Longrightarrow> view (lru_Add L c k v) j = view c j \<or> view (lru_Add L c k v) j = None"
    and add_room: "inv c \<Longrightarrow> view c k \<noteq> None \<or> card (dom (view c)) < cap c \<Longrightarrow>
      view (lru_Add L c k v) = (view c)(k \<mapsto> v)"
    and get: "inv c \<Longrightarrow> lru_Get L c k = (d, r) \<Longrightarrow> inv d \<and> view d = view c \<and> cap d = cap c \<and> r = view c k"
    and remove: "inv c \<Longrightarrow> inv (lru_Remove L c k) \<and> cap (lru_Remove L c k) = cap c
      \<and> view (lru_Remove L c k) = (view c)(k := None)"
    and len: "inv c \<Longrightarrow> lru_Len L c = card (dom (view c)) \<and> lru_Len L c \<le> cap c"
    and keys: "inv c \<Longrightarrow> distinct (lru_Keys L c) \<and> set (lru_Keys L c) = dom (view c)"
begin

abbreviation cinv :: "'c dnsCache \<Rightarrow> bool" where
  "cinv c \<equiv> inv (dc_lru c)"

abbreviation contents :: "'c dnsCache \<Rightarrow> string \<Rightarrow> resource_record list option" where
  "contents c \<equiv> view (dc_lru c)"

lemma Get_cases:
  assumes "cinv c"
  obtains (miss) d where "contents c key = None" "dnscache_Get L c clk key = (d, [], False)"
      "cinv d" "contents d = contents c" "cap (dc_lru d) = cap (dc_lru c)"
    | (hit) d records where "contents c key = Some records" "unexpired clk 0 records \<noteq> []"
      "dnscache_Get L c clk key = (d, unexpired clk 0 records, True)" "cinv d"
      "contents d = (contents c)(key \<mapsto> unexpired clk 0 records)" "cap (dc_lru d) = cap (dc_lru c)"
    | (expired) d records where "contents c key = Some records" "unexpired clk 0 records = []"
      "dnscache_Get L c clk key = (d, [], False)" "cinv d"
      "contents d = (contents c)(key := None)" "cap (dc_lru d) = cap (dc_lru c)"
proof -
  obtain l r where g: "lru_Get L (dc_lru c) key = (l, r)" by fastforce
  note l = get [OF assms g]
  show ?thesis
  proof (cases r)
    case None
    then show ?thesis using l g by (intro miss [of "c\<lparr>dc_lru := l\<rparr>"]) (auto simp: dnscache_Get_def Let_def)
  next
    case (Some records)
    then have v: "contents c key = Some records" using l by metis
    show ?thesis
    proof (cases "unexpired clk 0 records = []")
      case True
      then show ?thesis
        using l g Some v remove [of l key]
        by (intro expired [of records "c\<lparr>dc_lru := lru_Remove L l key\<rparr>"]) (auto simp: dnscache_Get_def Let_def)
    next
      case False
      moreover have "view l key \<noteq> None" using l v by simp
      ultimately show ?thesis
        using l g Some v add [of l key] add_room [of l key]
        by (intro hit [of records "c\<lparr>dc_lru := lru_Add L l key (unexpired clk 0 records)\<rparr>"])
          (auto simp: dnscache_Get_def Let_def)
    qed
  qed
qed

lemma fetch_law:
  assumes "cinv c" and "cache_fetch L c key = (d, r)"
  shows "cinv d \<and> contents d = contents c \<and> r = contents c key \<and> cap (dc_lru d) = cap (dc_lru c)"
  using assms get [of "dc_lru c" key] by (auto simp: cache_fetch_def Let_def split: prod.splits)

lemma settle_law:
  assumes "cinv c" and "cache_settle L c clk key records = (d, valid, found)"
  shows "cinv d \<and> cap (dc_lru d) = cap (dc_lru c) \<and> valid = unexpired clk 0 records \<and> (found \<longleftrightarrow> valid \<noteq> [])
    \<and> contents d key = (if found then Some valid else None)
    \<and> (\<forall>j. j \<noteq> key \<longrightarrow> contents d j = contents c j \<or> contents d j = None)"
proof (cases "unexpired clk 0 records = []")
  case True
  then show ?thesis using assms remove [OF assms(1), of key] by (auto simp: cache_settle_def)
next
  case False
  then have d: "d = c\<lparr>dc_lru := lru_Add L (dc_lru c) key (unexpired clk 0 records)\<rparr>"
      "valid = unexpired clk 0 records" "found"
    using assms(2) by (auto simp: cache_settle_def Let_def)
  then show ?thesis
    using False add [OF assms(1)] add_other [OF assms(1)] by (simp del: not_None_eq)
qed

lemma Get_snd:
  "cinv c \<Longrightarrow> snd (dnscache_Get L c clk key) = (case contents c key of
     None \<Rightarrow> ([], False) | Some records \<Rightarrow> (unexpired clk 0 records, unexpired clk 0 records \<noteq> []))"
  by (cases rule: Get_cases [of c key clk]) auto

lemma step_inv: "cinv c \<Longrightarrow> cinv (cache_step X L c opn) \<and> cap (dc_lru (cache_step X L c opn)) = cap (dc_lru c)"
proof (cases opn)
  case (OpSet records)
  then show "cinv c \<Longrightarrow> ?thesis" using add by (simp add: cache_step_def Set_Ret)
next
  case (OpGet clk key)
  assume c: "cinv c"
  then show ?thesis
    by (cases rule: Get_cases [of c key clk]) (simp_all add: cache_step_def OpGet)
next
  case (OpDelete key)
  then show "cinv c \<Longrightarrow> ?thesis" using remove by (simp add: cache_step_def dnscache_Delete_def)
qed

text \<open>The simulation: what is stored is part of what the specification keeps, and under its own key.\<close>

definition sim :: "extern \<Rightarrow> 'c dnsCache \<Rightarrow> (string \<Rightarrow> resource_record list) \<Rightarrow> bool" where
  "sim X c m \<longleftrightarrow> (\<forall>key records. contents c key = Some records \<longrightarrow>
     records \<noteq> [] \<and> subseq records (m key) \<and> (\<forall>r \<in> set records. RR_CacheKey X r = key))"

lemma sim_put:
  assumes "sim X c m" and "\<And>j. j \<noteq> k \<Longrightarrow> contents d j = contents c j \<or> contents d j = None"
    and "contents d k = Some records" and "records \<noteq> []" and "subseq records (m' k)"
    and "\<forall>r \<in> set records. RR_CacheKey X r = k" and "\<And>j. j \<noteq> k \<Longrightarrow> m' j = m j"
  shows "sim X d m'"
  unfolding sim_def
proof (intro allI impI)
  fix key rs assume k: "contents d key = Some rs"
  show "rs \<noteq> [] \<and> subseq rs (m' key) \<and> (\<forall>r \<in> set rs. RR_CacheKey X r = key)"
  proof (cases "key = k")
    case True
    then show ?thesis using assms(3-6) k by simp
  next
    case False
    then have "contents c key = Some rs" using assms(2) [OF False] k by auto
    then show ?thesis using assms(1) assms(7) [OF False] by (simp add: sim_def)
  qed
qed

lemma step_sim:
  assumes c: "cinv c" and sim: "sim X c m"
  shows "sim X (cache_step X L c opn) (spec_step X m opn)"
proof (cases opn)
  case (OpSet records)
  show ?thesis
  proof (cases "records \<noteq> [] \<and> same_key X records")
    case True
    let ?k = "RR_CacheKey X (hd records)"
    have step: "cache_step X L c opn = c\<lparr>dc_lru := lru_Add L (dc_lru c) ?k records\<rparr>"
      using True by (simp add: OpSet cache_step_def Set_Ret)
    show ?thesis
    proof (rule sim_put [OF sim])
      show "contents (cache_step X L c opn) j = contents c j \<or> contents (cache_step X L c opn) j = None"
        if "j \<noteq> ?k" for j
        using add_other [OF c that] by (simp add: step)
      show "contents (cache_step X L c opn) ?k = Some records" using add [OF c] by (simp add: step)
      show "\<forall>r \<in> set records. RR_CacheKey X r = ?k" using True same_keyD by blast
    qed (use True in \<open>simp_all add: OpSet\<close>)
  next
    case False
    then show ?thesis using sim by (auto simp: OpSet cache_step_def Set_Ret)
  qed
next
  case (OpGet clk key)
  from c show ?thesis
  proof (cases rule: Get_cases [of c key clk])
    case (miss d)
    then show ?thesis using sim by (simp add: cache_step_def OpGet sim_def)
  next
    case (hit d records)
    have "subseq (unexpired clk 0 records) (m key)"
      using hit sim unexpired_subseq subseq_order.order_trans unfolding sim_def by metis
    moreover have "\<forall>r \<in> set (unexpired clk 0 records). RR_CacheKey X r = key"
      using hit sim unexpired_subset unfolding sim_def by blast
    ultimately have "sim X d m"
      using hit by (intro sim_put [OF sim, of key d "unexpired clk 0 records"]) simp_all
    then show ?thesis using hit by (simp add: cache_step_def OpGet)
  next
    case (expired d records)
    then show ?thesis using sim by (simp add: cache_step_def OpGet sim_def)
  qed
next
  case (OpDelete key)
  then show ?thesis
    using sim remove [OF c, of key] by (simp add: cache_step_def dnscache_Delete_def sim_def)
qed

lemma run_sim:
  assumes "cinv c" and "sim X c m"
  shows "cinv (cache_run X L c ops) \<and> cap (dc_lru (cache_run X L c ops)) = cap (dc_lru c)
    \<and> sim X (cache_run X L c ops) (foldl (spec_step X) m ops)"
  using assms
proof (induction ops arbitrary: c m)
  case (Cons opn ops)
  then show ?case using step_inv [OF Cons.prems(1), of X opn] step_sim [OF Cons.prems, of opn]
    by (simp add: cache_run_def)
qed (simp add: cache_run_def)

lemma New_run_sim:
  assumes "dnscache_New L n = Ret c"
  shows "cinv (cache_run X L c ops) \<and> cap (dc_lru (cache_run X L c ops)) = nat n
    \<and> sim X (cache_run X L c ops) (last_set X ops)"
proof -
  from assms obtain l where l: "lru_New L n = Ret l" "c = \<lparr>dc_lru = l\<rparr>"
    by (auto simp: dnscache_New_def obind_eq_Ret)
  have "cinv c" "sim X c (\<lambda>_. [])" "cap (dc_lru c) = nat n" using new [OF l(1)] l(2) by (simp_all add: sim_def)
  then show ?thesis using run_sim [of c X "\<lambda>_. []" ops] by (simp add: last_set_def)
qed

end

section \<open>The interface to the resolver\<close>

text \<open>The cache over an LRU cache, as an implementation of \<open>resolver.Cache\<close>\<close>

definition dnscache_ops :: "extern \<Rightarrow> 'c lru \<Rightarrow> 'c dnsCache cache_ops" where
  "dnscache_ops X L = \<lparr>co_Set = dnscache_Set X L, co_Get = dnscache_Get L, co_Delete = dnscache_Delete L,
     co_Len = dnscache_Len L, co_Keys = dnscache_Keys L\<rparr>"

definition cache_ok :: "('c \<Rightarrow> bool) \<Rightarrow> ('c \<Rightarrow> string \<Rightarrow> resource_record list option) \<Rightarrow> extern \<Rightarrow> 'c dnsCache \<Rightarrow> bool" where
  "cache_ok ok view X c \<longleftrightarrow> ok (dc_lru c) \<and> (\<forall>key records. view (dc_lru c) key = Some records \<longrightarrow>
     records \<noteq> [] \<and> (\<forall>r \<in> set records. RR_CacheKey X r = key))"

lemma ops_simps [simp]:
  "co_Set (dnscache_ops X L) = dnscache_Set X L" "co_Get (dnscache_ops X L) = dnscache_Get L"
  by (simp_all add: dnscache_ops_def)

sublocale lru_cache \<subseteq> resolver_cache: answer_cache "dnscache_ops X L" X "cache_ok inv view X" for X
proof unfold_locales
  fix c d :: "'c dnsCache" and clk clk' key records res
  assume c: "cache_ok inv view X c"
  then have i: "inv (dc_lru c)" by (simp add: cache_ok_def)
  note snd = Get_snd [OF i, of clk key]
  have step: "cache_ok inv view X d" if "co_Get (dnscache_ops X L) c clk key = (d, records, b)" for b
    using i
  proof (cases rule: Get_cases [of c key clk])
    case (hit e stored)
    then show ?thesis
      using c that unexpired_subset [of clk 0 stored] by (auto simp: cache_ok_def)
  qed (use c that in \<open>auto simp: cache_ok_def\<close>)
  show "cache_ok inv view X d \<and> records \<noteq> []
      \<and> (\<forall>r \<in> set records. RR_CacheKey X r = key \<and> (\<exists>i. \<not> IsExpired r (clk i)))"
    if g: "co_Get (dnscache_ops X L) c clk key = (d, records, True)"
  proof -
    obtain stored where s: "contents c key = Some stored" "records = unexpired clk 0 stored" "records \<noteq> []"
      using snd g by (auto split: option.splits)
    then have "RR_CacheKey X r = key \<and> (\<exists>i. \<not> IsExpired r (clk i))" if "r \<in> set records" for r
      using c that unexpired_subset [of clk 0 stored] unexpired_set [of r clk 0 stored]
      by (auto simp: cache_ok_def)
    then show ?thesis using step [OF g] s(3) by blast
  qed
  show "cache_ok inv view X d \<and> records = []" if g: "co_Get (dnscache_ops X L) c clk key = (d, records, False)"
    using step [OF g] snd g by (auto split: option.splits)
  show "snd (co_Get (dnscache_ops X L) d clk' key) = ([], False)"
    if g: "co_Get (dnscache_ops X L) c clk key = (d, records, False)"
  proof -
    have "inv (dc_lru d) \<and> contents d key = None"
      using i by (cases rule: Get_cases [of c key clk]) (use g in auto)
    then show ?thesis using Get_snd [of d clk' key] by simp
  qed
  let ?k = "RR_CacheKey X (hd records)"
  let ?s = "c\<lparr>dc_lru := lru_Add L (dc_lru c) ?k records\<rparr>"
  have put: "inv (dc_lru ?s)" "contents ?s ?k = Some records" using add [OF i] by simp_all
  show "cache_ok inv view X d" if "co_Set (dnscache_ops X L) c records = (d, res)"
  proof (cases "records \<noteq> [] \<and> same_key X records")
    case True
    have "rs \<noteq> [] \<and> (\<forall>r \<in> set rs. RR_CacheKey X r = j)" if j: "contents ?s j = Some rs" for j rs
    proof (cases "j = ?k")
      case True
      with put j \<open>records \<noteq> [] \<and> same_key X records\<close> show ?thesis using same_keyD by auto
    next
      case False
      then have "contents c j = Some rs" using add_other [OF i False, of records] j by auto
      then show ?thesis using c by (simp add: cache_ok_def)
    qed
    then have "cache_ok inv view X ?s" using put(1) by (simp add: cache_ok_def)
    then show ?thesis using that True by (simp add: Set_Ret)
  next
    case False
    then show ?thesis using that c by (auto simp: Set_Ret split: if_splits)
  qed
  show "res = Ret () \<and> snd (co_Get (dnscache_ops X L) d clk ?k) = (unexpired clk 0 records, unexpired clk 0 records \<noteq> [])"
    if "records \<noteq> []" "same_key X records" "co_Set (dnscache_ops X L) c records = (d, res)"
    using that Get_snd [OF put(1), of clk ?k] put(2) by (auto simp: Set_Ret)
  show "d = c \<and> \<not> is_ret res" if "\<not> same_key X records" "co_Set (dnscache_ops X L) c records = (d, res)"
    using that by (cases "records = []") (auto simp: Set_Ret)
qed

section \<open>A list-based LRU cache\<close>

text \<open>
  A reference instance of the laws: the capacity and the entries, the most recently used
  first. \<open>lru_New\<close> refuses a size that is not positive, as the library does.
\<close>

type_synonym ref_lru = "nat \<times> (string \<times> resource_record list) list"

definition drop_key :: "string \<Rightarrow> (string \<times> 'a) list \<Rightarrow> (string \<times> 'a) list" where
  "drop_key k xs = filter (\<lambda>p. fst p \<noteq> k) xs"

definition ref_New :: "int \<Rightarrow> ref_lru outcome" where
  "ref_New n = (if n \<le> 0 then Err (Errorf ''must provide a positive size'') else Ret (nat n, []))"

fun ref_Add :: "ref_lru \<Rightarrow> string \<Rightarrow> resource_record list \<Rightarrow> ref_lru" where
  "ref_Add (n, xs) k v = (n, take n ((k, v) # drop_key k xs))"

fun ref_Get :: "ref_lru \<Rightarrow> string \<Rightarrow> ref_lru \<times> resource_record list option" where
  "ref_Get (n, xs) k = (case map_of xs k of
       None \<Rightarrow> ((n, xs), None) | Some v \<Rightarrow> ((n, (k, v) # drop_key k xs), Some v))"

fun ref_Remove :: "ref_lru \<Rightarrow> string \<Rightarrow> ref_lru" where
  "ref_Remove (n, xs) k = (n, drop_key k xs)"

definition ref_Len :: "ref_lru \<Rightarrow> nat" where
  "ref_Len c = length (snd c)"

definition ref_Keys :: "ref_lru \<Rightarrow> string list" where
  "ref_Keys c = rev (map fst (snd c))"

definition ref_lru :: "ref_lru lru" where
  "ref_lru = \<lparr>lru_New = ref_New, lru_Add = ref_Add, lru_Get = ref_Get, lru_Remove = ref_Remove,
     lru_Len = ref_Len, lru_Keys = ref_Keys\<rparr>"

fun ref_inv :: "ref_lru \<Rightarrow> bool" where
  "ref_inv (n, xs) \<longleftrightarrow> 0 < n \<and> length xs \<le> n \<and> distinct (map fst xs)"

fun ref_view :: "ref_lru \<Rightarrow> string \<Rightarrow> resource_record list option" where
  "ref_view (n, xs) = map_of xs"

lemma map_of_drop_key: "map_of (drop_key k xs) = (map_of xs)(k := None)"
  by (induction xs) (auto simp: drop_key_def)

lemma drop_key_keys: "fst ` set (drop_key k xs) = fst ` set xs - {k}"
  by (auto simp: drop_key_def)

lemma distinct_drop_key: "distinct (map fst xs) \<Longrightarrow> distinct (map fst (drop_key k xs))"
  by (auto simp: drop_key_def distinct_map_filter)

lemma drop_key_notin: "k \<notin> fst ` set xs \<Longrightarrow> drop_key k xs = xs"
  by (induction xs) (auto simp: drop_key_def)

lemma length_drop_key:
  "distinct (map fst xs) \<Longrightarrow> length (drop_key k xs) = (if k \<in> fst ` set xs then length xs - 1 else length xs)"
proof (induction xs)
  case (Cons p xs)
  then show ?case
    by (cases "fst p = k") (auto simp: drop_key_def drop_key_notin [unfolded drop_key_def] Suc_diff_le
        neq_Nil_conv dest!: length_pos_if_in_set)
qed (simp add: drop_key_def)

lemma map_of_take: "distinct (map fst xs) \<Longrightarrow> map_of (take n xs) j = map_of xs j \<or> map_of (take n xs) j = None"
proof -
  assume "distinct (map fst xs)"
  moreover have "map_of xs j = map_of (take n xs @ drop n xs) j" by simp
  ultimately show ?thesis
    by (simp only: map_of_append map_add_def) (auto split: option.splits)
qed

lemma ref_card: "ref_inv (m, xs) \<Longrightarrow> card (dom (map_of xs)) = length xs"
  using distinct_card [of "map fst xs"] by (simp add: dom_map_of_conv_image_fst)

lemma ref_Add_ok:
  assumes inv: "ref_inv c"
  shows "ref_inv (ref_Add c k v)" "fst (ref_Add c k v) = fst c" "ref_view (ref_Add c k v) k = Some v"
    "j \<noteq> k \<Longrightarrow> ref_view (ref_Add c k v) j = ref_view c j \<or> ref_view (ref_Add c k v) j = None"
proof -
  obtain m' xs where c: "c = (Suc m', xs)" using inv by (metis ref_inv.elims(2) gr0_implies_Suc)
  have dist: "distinct (map fst ((k, v) # drop_key k xs))"
    using inv by (simp add: c drop_key_keys distinct_drop_key)
  show "ref_inv (ref_Add c k v)"
    using dist distinct_take [OF dist, of "Suc m'"] by (auto simp: c take_map dest: in_set_takeD)
  show "fst (ref_Add c k v) = fst c" "ref_view (ref_Add c k v) k = Some v" by (simp_all add: c)
  show "j \<noteq> k \<Longrightarrow> ref_view (ref_Add c k v) j = ref_view c j \<or> ref_view (ref_Add c k v) j = None"
    using map_of_take [OF dist, of "Suc m'" j] by (auto simp: c map_of_drop_key simp del: take_Suc_Cons)
qed

lemma ref_Add_room:
  assumes inv: "ref_inv c" and room: "ref_view c k \<noteq> None \<or> card (dom (ref_view c)) < fst c"
  shows "ref_view (ref_Add c k v) = (ref_view c)(k \<mapsto> v)"
proof -
  obtain m xs where c: "c = (m, xs)" by (cases c)
  have "length ((k, v) # drop_key k xs) \<le> m"
    using inv room ref_card [of m xs] length_drop_key [of xs k]
    by (auto simp: c map_of_eq_None_iff dest: length_pos_if_in_set)
  then show ?thesis by (simp add: c map_of_drop_key)
qed

lemma ref_Get_ok:
  assumes inv: "ref_inv c" and g: "ref_Get c k = (d, r)"
  shows "ref_inv d \<and> ref_view d = ref_view c \<and> fst d = fst c \<and> r = ref_view c k"
proof -
  obtain m xs where c: "c = (m, xs)" by (cases c)
  show ?thesis
  proof (cases "map_of xs k")
    case None
    then show ?thesis using g inv by (auto simp: c)
  next
    case (Some w)
    then have "k \<in> fst ` set xs" using weak_map_of_SomeI map_of_SomeD by force
    moreover from this have "0 < length xs" by (cases xs) auto
    ultimately show ?thesis
      using g inv Some length_drop_key [of xs k]
      by (auto simp: c map_of_drop_key drop_key_keys distinct_drop_key fun_upd_triv)
  qed
qed

lemma ref_lru_simps [simp]:
  "lru_New ref_lru = ref_New" "lru_Add ref_lru = ref_Add" "lru_Get ref_lru = ref_Get"
  "lru_Remove ref_lru = ref_Remove" "lru_Len ref_lru = ref_Len" "lru_Keys ref_lru = ref_Keys"
  by (simp_all add: ref_lru_def)

interpretation ref: lru_cache ref_lru ref_inv ref_view fst
proof unfold_locales
  fix n :: int and c d :: ref_lru and k j :: string and v r
  show "is_ret (lru_New ref_lru n) \<longleftrightarrow> 0 < n" by (simp add: ref_New_def)
  show "lru_New ref_lru n = Ret c \<Longrightarrow> ref_inv c \<and> ref_view c = Map.empty \<and> fst c = nat n"
    by (auto simp: ref_New_def split: if_splits)
  obtain m xs where c: "c = (m, xs)" by (cases c)
  assume inv: "ref_inv c"
  note len = ref_card [OF inv [unfolded c]]
  show "ref_inv (lru_Add ref_lru c k v) \<and> fst (lru_Add ref_lru c k v) = fst c
      \<and> ref_view (lru_Add ref_lru c k v) k = Some v"
    using ref_Add_ok(1-3) [OF inv] by simp
  show "j \<noteq> k \<Longrightarrow> ref_view (lru_Add ref_lru c k v) j = ref_view c j \<or> ref_view (lru_Add ref_lru c k v) j = None"
    using ref_Add_ok(4) [OF inv] by simp
  show "ref_view c k \<noteq> None \<or> card (dom (ref_view c)) < fst c \<Longrightarrow>
      ref_view (lru_Add ref_lru c k v) = (ref_view c)(k \<mapsto> v)"
    using ref_Add_room [OF inv] by simp
  show "lru_Get ref_lru c k = (d, r) \<Longrightarrow> ref_inv d \<and> ref_view d = ref_view c \<and> fst d = fst c \<and> r = ref_view c k"
    using ref_Get_ok [OF inv] by simp
  show "ref_inv (lru_Remove ref_lru c k) \<and> fst (lru_Remove ref_lru c k) = fst c
      \<and> ref_view (lru_Remove ref_lru c k) = (ref_view c)(k := None)"
    using inv length_drop_key [of xs k] by (auto simp: c map_of_drop_key distinct_drop_key)
  show "lru_Len ref_lru c = card (dom (ref_view c)) \<and> lru_Len ref_lru c \<le> fst c"
    using inv len by (simp add: c ref_Len_def)
  show "distinct (lru_Keys ref_lru c) \<and> set (lru_Keys ref_lru c) = dom (ref_view c)"
    using inv by (simp add: c ref_Keys_def dom_map_of_conv_image_fst)
qed

section \<open>Properties\<close>

text \<open>
  C4. Whatever calls came before, a lookup returns only records of the last accepted
  \<open>Set\<close> of its key that no \<open>Delete\<close> of the key followed, in their order, each with
  that key and unexpired at the moment it was checked; it reports a hit exactly when it
  returns some.
\<close>

theorem cache_get_sound:
  assumes "lru_cache L ok view cap" and "dnscache_New L n = Ret c"
    and get: "dnscache_Get L (cache_run X L c ops) clk key = (d, records, found)"
  shows "(found \<longleftrightarrow> records \<noteq> []) \<and> subseq records (last_set X ops key)
    \<and> (\<forall>r \<in> set records. RR_CacheKey X r = key \<and> (\<exists>i < length (last_set X ops key). \<not> IsExpired r (clk i)))"
proof -
  let ?c = "cache_run X L c ops"
  have sim: "ok (dc_lru ?c)" "lru_cache.sim view X ?c (last_set X ops)"
    using lru_cache.New_run_sim [OF assms(1,2)] by blast+
  have snd: "(records, found) = (case view (dc_lru ?c) key of
     None \<Rightarrow> ([], False) | Some stored \<Rightarrow> (unexpired clk 0 stored, unexpired clk 0 stored \<noteq> []))"
    using lru_cache.Get_snd [OF assms(1) sim(1), of clk key] get by simp
  show ?thesis
  proof (cases "view (dc_lru ?c) key")
    case (Some stored)
    have s: "subseq stored (last_set X ops key)" "\<forall>r \<in> set stored. RR_CacheKey X r = key"
      using sim(2) Some by (simp_all add: lru_cache.sim_def [OF assms(1)])
    have le: "length stored \<le> length (last_set X ops key)" using s(1) by (rule list_emb_length)
    have sub: "subseq (unexpired clk 0 stored) (last_set X ops key)"
      using unexpired_subseq s(1) by (rule subseq_order.order_trans)
    have "\<exists>i < length (last_set X ops key). \<not> IsExpired r (clk i)" if mem: "r \<in> set (unexpired clk 0 stored)" for r
    proof -
      obtain k where "k < 0 + length stored" "\<not> IsExpired r (clk k)" using unexpired_set [OF mem] by blast
      then show ?thesis using le by (intro exI [of _ k]) simp
    qed
    then show ?thesis
      using snd Some sub s(2) unexpired_subset [of clk 0 stored] by (simp add: subset_iff)
  qed (use snd in simp)
qed

text \<open>
  Records of one key that are stored are what the next lookup of the key returns, less
  the expired ones; a list of records with different keys is refused with
  \<open>ErrMultipleKeys\<close> and, like an empty list, leaves the cache as it was.
\<close>

theorem cache_set_get:
  assumes "lru_cache L ok view cap" and "dnscache_New L n = Ret c0" and "c = cache_run X L c0 ops"
  shows "(records \<noteq> [] \<and> same_key X records \<longrightarrow>
      (\<exists>d e. dnscache_Set X L c records = (d, Ret ())
        \<and> dnscache_Get L d clk (RR_CacheKey X (hd records)) = (e, unexpired clk 0 records, unexpired clk 0 records \<noteq> [])))
    \<and> (records \<noteq> [] \<and> \<not> same_key X records \<longrightarrow> dnscache_Set X L c records = (c, Err ErrMultipleKeys))
    \<and> (records = [] \<longrightarrow> dnscache_Set X L c records = (c, Ret ()))"
proof -
  have inv: "ok (dc_lru c)" using lru_cache.New_run_sim [OF assms(1,2)] assms(3) by blast
  let ?k = "RR_CacheKey X (hd records)"
  let ?d = "c\<lparr>dc_lru := lru_Add L (dc_lru c) ?k records\<rparr>"
  have d: "ok (dc_lru ?d)" "view (dc_lru ?d) ?k = Some records"
    using lru_cache.add [OF assms(1) inv] by simp_all
  have "\<exists>e. dnscache_Get L ?d clk ?k = (e, unexpired clk 0 records, unexpired clk 0 records \<noteq> [])"
    using assms(1) d(1)
    by (cases rule: lru_cache.Get_cases [of L ok view cap ?d ?k clk]) (use d(2) in simp_all)
  then show ?thesis by (auto simp: Set_Ret)
qed

text \<open>
  A lookup removes its key exactly when it finds no live record, and a \<open>Delete\<close>
  removes its key; neither changes what a lookup of another key returns.
\<close>

theorem cache_frame:
  assumes "lru_cache L ok view cap" and "dnscache_New L n = Ret c0" and "c = cache_run X L c0 ops"
    and get: "dnscache_Get L c clk key = (d, records, found)" and other: "other \<noteq> key"
  shows "set (dnscache_Keys L d) = (if found then set (dnscache_Keys L c) else set (dnscache_Keys L c) - {key})
    \<and> set (dnscache_Keys L (dnscache_Delete L c key)) = set (dnscache_Keys L c) - {key}
    \<and> snd (dnscache_Get L d clk' other) = snd (dnscache_Get L c clk' other)
    \<and> snd (dnscache_Get L (dnscache_Delete L c key) clk' other) = snd (dnscache_Get L c clk' other)"
proof -
  note lru = assms(1)
  have ok: "ok (dc_lru c)" using lru_cache.New_run_sim [OF lru assms(2)] assms(3) by blast
  have keys: "set (dnscache_Keys L e) = dom (view (dc_lru e))" if "ok (dc_lru e)" for e
    using lru_cache.keys [OF lru that] by (simp add: dnscache_Keys_def)
  let ?del = "dnscache_Delete L c key"
  have del: "ok (dc_lru ?del)" "view (dc_lru ?del) = (view (dc_lru c))(key := None)"
    using lru_cache.remove [OF lru ok] by (simp_all add: dnscache_Delete_def)
  have d: "ok (dc_lru d) \<and> dom (view (dc_lru d)) = (if found then dom (view (dc_lru c)) else dom (view (dc_lru c)) - {key})
      \<and> view (dc_lru d) other = view (dc_lru c) other"
    using lru ok
    by (cases rule: lru_cache.Get_cases [of L ok view cap c key clk]) (use get other in auto)
  have same: "snd (dnscache_Get L e clk' other) = snd (dnscache_Get L c clk' other)"
    if "ok (dc_lru e)" "view (dc_lru e) other = view (dc_lru c) other" for e
    using lru_cache.Get_snd [OF lru that(1)] lru_cache.Get_snd [OF lru ok] that(2) by simp
  show ?thesis
    using keys [OF ok] keys [OF del(1)] keys [of d] d del other same [of d] same [of ?del] by auto
qed

text \<open>
  The cache never holds more keys than the size it was made with; \<open>New\<close> refuses
  exactly the sizes that are not positive, and \<open>Len\<close> counts the distinct keys of \<open>Keys\<close>.
\<close>

theorem cache_capacity:
  assumes "lru_cache L ok view cap"
  shows "(is_ret (dnscache_New L n) \<longleftrightarrow> 0 < n)
    \<and> (dnscache_New L n = Ret c0 \<longrightarrow> c = cache_run X L c0 ops \<longrightarrow>
        dnscache_Len L c \<le> nat n \<and> distinct (dnscache_Keys L c) \<and> dnscache_Len L c = length (dnscache_Keys L c))"
proof (intro conjI impI)
  show "is_ret (dnscache_New L n) \<longleftrightarrow> 0 < n"
    using lru_cache.new_ok [OF assms, of n] by (cases "lru_New L n") (auto simp: dnscache_New_def)
next
  assume "dnscache_New L n = Ret c0" and c: "c = cache_run X L c0 ops"
  from lru_cache.New_run_sim [OF assms this(1)] c have ok: "ok (dc_lru c)" "cap (dc_lru c) = nat n" by auto
  note len = lru_cache.len [OF assms ok(1)] and keys = lru_cache.keys [OF assms ok(1)]
  show "dnscache_Len L c \<le> nat n" using len ok(2) by (simp add: dnscache_Len_def)
  show "distinct (dnscache_Keys L c)" using keys by (simp add: dnscache_Keys_def)
  show "dnscache_Len L c = length (dnscache_Keys L c)"
    using len keys distinct_card [of "lru_Keys L (dc_lru c)"] by (simp add: dnscache_Len_def dnscache_Keys_def)
qed


text \<open>A concrete cache of one entry, for the witnesses\<close>

definition sample_cached :: resource_record where
  "sample_cached = \<lparr>rr_Name = ''a'', rr_Type = 1, rr_Class = 1, rr_ttl = 10, rr_expiresAt = Some 10,
     rr_Data = [192, 0, 2, 1], rr_Text = ''192.0.2.1''\<rparr>"

definition sample_cache :: "ref_lru dnsCache" where
  "sample_cache = \<lparr>dc_lru = (2, [])\<rparr>"

lemma sample_New: "dnscache_New ref_lru 2 = Ret sample_cache"
  by (simp add: dnscache_New_def ref_lru_def ref_New_def sample_cache_def)

lemma sample_run:
  "cache_run sample_extern ref_lru sample_cache [OpSet [sample_cached]] = \<lparr>dc_lru = (2, [(''a|a|A|IN'', [sample_cached])])\<rparr>"
proof -
  have "RR_CacheKey sample_extern sample_cached = ''a|a|A|IN''" by code_simp
  then show ?thesis
    by (simp add: cache_run_def cache_step_def Set_Ret same_key_def sample_cache_def ref_lru_def drop_key_def)
qed

theorem cache_get_sound_witness:
  "\<exists>d records found. dnscache_Get ref_lru (cache_run sample_extern ref_lru sample_cache [OpSet [sample_cached]])
      (\<lambda>_. 5) ''a|a|A|IN'' = (d, records, found)
    \<and> found \<and> records = [sample_cached]
    \<and> subseq records (last_set sample_extern [OpSet [sample_cached]] ''a|a|A|IN'')"
proof -
  let ?c = "cache_run sample_extern ref_lru sample_cache [OpSet [sample_cached]]"
  have "snd (dnscache_Get ref_lru ?c (\<lambda>_. 5) ''a|a|A|IN'') = ([sample_cached], True)"
    unfolding sample_run by code_simp
  then obtain d where g: "dnscache_Get ref_lru ?c (\<lambda>_. 5) ''a|a|A|IN'' = (d, [sample_cached], True)"
    by (metis prod.collapse)
  from cache_get_sound [OF ref.lru_cache_axioms sample_New g] g show ?thesis by blast
qed

theorem cache_set_get_witness:
  "\<exists>d e. dnscache_Set sample_extern ref_lru sample_cache [sample_cached] = (d, Ret ())
    \<and> dnscache_Get ref_lru d (\<lambda>_. 5) ''a|a|A|IN'' = (e, [sample_cached], True)"
proof -
  have "same_key sample_extern [sample_cached]" by (simp add: same_key_def)
  moreover have "unexpired (\<lambda>_. 5) 0 [sample_cached] = [sample_cached]"
      "RR_CacheKey sample_extern (hd [sample_cached]) = ''a|a|A|IN''" by code_simp+
  ultimately show ?thesis
    using cache_set_get [OF ref.lru_cache_axioms sample_New, of _ sample_extern "[]" "[sample_cached]" "\<lambda>_. 5"]
    by (simp add: cache_run_def)
qed

theorem cache_frame_witness:
  "set (dnscache_Keys ref_lru (dnscache_Delete ref_lru
      (cache_run sample_extern ref_lru sample_cache [OpSet [sample_cached]]) ''a|a|A|IN'')) = {}"
proof -
  let ?c = "cache_run sample_extern ref_lru sample_cache [OpSet [sample_cached]]"
  have "dnscache_Keys ref_lru ?c = [''a|a|A|IN'']" unfolding sample_run by code_simp
  moreover obtain d records found where "dnscache_Get ref_lru ?c (\<lambda>_. 5) ''a|a|A|IN'' = (d, records, found)"
    by (metis prod.collapse)
  ultimately show ?thesis
    using cache_frame [OF ref.lru_cache_axioms sample_New refl, of sample_extern "[OpSet [sample_cached]]"
        "\<lambda>_. 5" "''a|a|A|IN''" d records found "''b''"] by auto
qed

theorem cache_capacity_witness:
  "is_ret (dnscache_New ref_lru 2) \<and>
   dnscache_Len ref_lru (cache_run sample_extern ref_lru sample_cache [OpSet [sample_cached]]) \<le> 2"
  using cache_capacity [OF ref.lru_cache_axioms, of 2 sample_cache
      "cache_run sample_extern ref_lru sample_cache [OpSet [sample_cached]]" sample_extern "[OpSet [sample_cached]]"]
    sample_New by simp

end
