(* ===== verification/ZoneCache.thy ===== *)
theory ZoneCache
  imports Interfaces "HOL-Library.AList"
begin

text \<open>
  \<open>internal/dns/repos/zonecache\<close>: the authoritative records, a Go map from zone roots to
  maps from cache keys to records. A Go map is an association list with distinct keys,
  read with \<open>map_of\<close> and written with \<open>AList.update\<close> and \<open>AList.delete\<close>; the order of
  the list stands for the order in which one \<open>range\<close> loop visits the map. Every method
  holds the mutex from its first access to its last, so a method is one step.
\<close>

section \<open>State and operations\<close>

record zoneCache =
  zc_zones :: "(string \<times> (string \<times> resource_record list) list) list"

definition zonecache_New :: zoneCache where
  "zonecache_New = \<lparr>zc_zones = []\<rparr>"

definition FindRecords :: "extern \<Rightarrow> zoneCache \<Rightarrow> question \<Rightarrow> resource_record list \<times> bool" where
  "FindRecords X zc query =
     (let fqdn = CanonicalDNSName X (q_Name query);
          zone = GetApexDomain X fqdn
      in (case map_of (zc_zones zc) zone of
            None \<Rightarrow> ([], False)
          | Some zoneRecords \<Rightarrow>
              (let key = Question_CacheKey X query
               in (case map_of zoneRecords key of
                     None \<Rightarrow> ([], False)
                   | Some records \<Rightarrow> (records, True)))))"

text \<open>The loop of \<open>PutZone\<close>: \<open>append\<close> to a missing key appends to the nil slice.\<close>

fun group_records ::
    "extern \<Rightarrow> resource_record list \<Rightarrow> (string \<times> resource_record list) list \<Rightarrow> (string \<times> resource_record list) list" where
  "group_records X [] zoneMap = zoneMap"
| "group_records X (record # records) zoneMap =
     (let key = RR_CacheKey X record;
          old = (case map_of zoneMap key of None \<Rightarrow> [] | Some rs \<Rightarrow> rs)
      in group_records X records (AList.update key (old @ [record]) zoneMap))"

definition PutZone :: "extern \<Rightarrow> zoneCache \<Rightarrow> string \<Rightarrow> resource_record list \<Rightarrow> zoneCache" where
  "PutZone X zc zoneRoot records =
     (let zoneRoot = CanonicalDNSName X zoneRoot;
          zoneMap = group_records X records []
      in zc\<lparr>zc_zones := AList.update zoneRoot zoneMap (zc_zones zc)\<rparr>)"

definition RemoveZone :: "extern \<Rightarrow> zoneCache \<Rightarrow> string \<Rightarrow> zoneCache" where
  "RemoveZone X zc zoneRoot =
     (let zoneRoot = CanonicalDNSName X zoneRoot
      in zc\<lparr>zc_zones := AList.delete zoneRoot (zc_zones zc)\<rparr>)"

definition Zones :: "zoneCache \<Rightarrow> string list" where
  "Zones zc = map fst (zc_zones zc)"

definition zonecache_Count :: "zoneCache \<Rightarrow> nat" where
  "zonecache_Count zc = sum_list (map (\<lambda>(_, zone). length zone) (zc_zones zc))"

section \<open>Specification\<close>

text \<open>
  What the cache promises: it maps each zone root to the list of records last put there,
  and a lookup selects from the zone of the question's apex domain the records with the
  question's key, in order.
\<close>

type_synonym zone_spec = "string \<Rightarrow> resource_record list option"

datatype zone_op = OpPut string "resource_record list" | OpRemove string

fun zone_step :: "extern \<Rightarrow> zoneCache \<Rightarrow> zone_op \<Rightarrow> zoneCache" where
  "zone_step X zc (OpPut root records) = PutZone X zc root records"
| "zone_step X zc (OpRemove root) = RemoveZone X zc root"

definition zone_run :: "extern \<Rightarrow> zone_op list \<Rightarrow> zoneCache" where
  "zone_run X ops = foldl (zone_step X) zonecache_New ops"

fun zspec_step :: "extern \<Rightarrow> zone_spec \<Rightarrow> zone_op \<Rightarrow> zone_spec" where
  "zspec_step X m (OpPut root records) = m(CanonicalDNSName X root \<mapsto> records)"
| "zspec_step X m (OpRemove root) = m(CanonicalDNSName X root := None)"

definition zspec_run :: "extern \<Rightarrow> zone_op list \<Rightarrow> zone_spec" where
  "zspec_run X ops = foldl (zspec_step X) Map.empty ops"

definition select :: "extern \<Rightarrow> string \<Rightarrow> resource_record list \<Rightarrow> resource_record list" where
  "select X key records = filter (\<lambda>r. RR_CacheKey X r = key) records"

definition zspec_find :: "extern \<Rightarrow> zone_spec \<Rightarrow> question \<Rightarrow> resource_record list \<times> bool" where
  "zspec_find X m q =
     (case m (GetApexDomain X (CanonicalDNSName X (q_Name q))) of
        None \<Rightarrow> ([], False)
      | Some records \<Rightarrow> (let rs = select X (Question_CacheKey X q) records in (rs, rs \<noteq> [])))"

section \<open>Refinement\<close>

lemma group_records_distinct:
  "distinct (map fst m) \<Longrightarrow> distinct (map fst (group_records X records m))"
  by (induction X records m rule: group_records.induct) (simp_all add: Let_def distinct_update)

lemma group_records_lookup:
  "map_of (group_records X records m) key =
     (case map_of m key of
        None \<Rightarrow> if select X key records = [] then None else Some (select X key records)
      | Some rs \<Rightarrow> Some (rs @ select X key records))"
  by (induction X records m rule: group_records.induct)
    (auto simp: Let_def select_def update_conv' split: option.splits)

lemma group_records_find:
  "map_of (group_records X records []) key = (if select X key records = [] then None else Some (select X key records))"
  by (simp add: group_records_lookup)

lemma group_records_keys:
  "fst ` set (group_records X records []) = RR_CacheKey X ` set records"
proof -
  have "key \<in> fst ` set (group_records X records []) \<longleftrightarrow> select X key records \<noteq> []" for key
    using map_of_eq_None_iff [of "group_records X records []" key]
    by (auto simp: group_records_find split: if_splits)
  then show ?thesis by (simp add: set_eq_iff select_def filter_empty_conv image_iff) metis
qed

text \<open>The simulation relation: the zones are those of the specification, each grouped by key.\<close>

definition zone_rel :: "extern \<Rightarrow> zoneCache \<Rightarrow> zone_spec \<Rightarrow> bool" where
  "zone_rel X zc m \<longleftrightarrow> distinct (map fst (zc_zones zc))
     \<and> map_of (zc_zones zc) = map_option (\<lambda>records. group_records X records []) \<circ> m"

lemma zone_rel_step: "zone_rel X zc m \<Longrightarrow> zone_rel X (zone_step X zc opn) (zspec_step X m opn)"
  by (cases opn)
    (auto simp: zone_rel_def PutZone_def RemoveZone_def Let_def distinct_update distinct_delete
      update_conv' delete_conv' fun_eq_iff)

lemma zone_rel_run: "zone_rel X (zone_run X ops) (zspec_run X ops)"
proof -
  have "zone_rel X (foldl (zone_step X) zc ops) (foldl (zspec_step X) m ops)" if "zone_rel X zc m" for zc m
    using that by (induction ops arbitrary: zc m) (simp_all add: zone_rel_step)
  moreover have "zone_rel X zonecache_New Map.empty" by (simp add: zone_rel_def zonecache_New_def fun_eq_iff)
  ultimately show ?thesis unfolding zone_run_def zspec_run_def by blast
qed

lemma zone_rel_find: "zone_rel X zc m \<Longrightarrow> FindRecords X zc q = zspec_find X m q"
  by (auto simp: zone_rel_def FindRecords_def zspec_find_def Let_def group_records_find split: option.splits)

text \<open>A lookup returns records that were put.\<close>

lemma zspec_run_put: "zspec_run X ops z = Some rs \<Longrightarrow> \<exists>root. OpPut root rs \<in> set ops"
proof (induction ops arbitrary: z rule: rev_induct)
  case (snoc opn ops)
  then show ?case by (cases opn) (auto simp: zspec_run_def split: if_splits)
qed (simp add: zspec_run_def)

lemma FindRecords_put:
  assumes "FindRecords X (zone_run X ops) q = (rs, found)" and "rr \<in> set rs"
  shows "\<exists>root records. OpPut root records \<in> set ops \<and> rr \<in> set records"
  using assms zspec_run_put unfolding zone_rel_find [OF zone_rel_run]
  by (fastforce simp: zspec_find_def select_def Let_def split: option.splits)

section \<open>The interface to the resolver\<close>

definition zone_ok :: "extern \<Rightarrow> zoneCache \<Rightarrow> bool" where
  "zone_ok X zc \<longleftrightarrow> (\<exists>m. zone_rel X zc m)"

interpretation zone_store: answer_store "FindRecords X" X "zone_ok X" for X
  by unfold_locales
    (auto simp: zone_ok_def zone_rel_find zspec_find_def select_def Let_def split: option.splits)

lemma zone_ok_run: "zone_ok X (zone_run X ops)"
  using zone_rel_run by (auto simp: zone_ok_def)

section \<open>Properties\<close>

text \<open>
  C8. Refinement: after any sequence of \<open>PutZone\<close> and \<open>RemoveZone\<close> calls a lookup
  returns what the specification returns, the records of the zone's last \<open>PutZone\<close> with
  the question's key in their order, and \<open>Zones\<close> lists each zone of the specification once.
\<close>

theorem zonecache_refines:
  "FindRecords X (zone_run X ops) q = zspec_find X (zspec_run X ops) q
   \<and> distinct (Zones (zone_run X ops)) \<and> set (Zones (zone_run X ops)) = dom (zspec_run X ops)"
proof -
  note rel = zone_rel_run [of X ops]
  have "dom (map_of (zc_zones (zone_run X ops))) = dom (zspec_run X ops)"
    using rel by (auto simp: zone_rel_def dom_def)
  then have "set (Zones (zone_run X ops)) = dom (zspec_run X ops)"
    by (simp add: Zones_def dom_map_of_conv_image_fst)
  then show ?thesis using rel zone_rel_find [OF rel] by (simp add: Zones_def zone_rel_def)
qed

text \<open>
  \<open>Count\<close> is the number of pairs of a zone and a cache key of one of its records, so
  a name with several records of a type counts once: it is at most the number of records.
\<close>

theorem zonecache_count:
  "zonecache_Count (zone_run X ops)
     = (\<Sum>z \<in> dom (zspec_run X ops). card (RR_CacheKey X ` set (the (zspec_run X ops z))))"
proof -
  let ?zs = "zc_zones (zone_run X ops)" and ?m = "zspec_run X ops"
  have rel: "distinct (map fst ?zs)" "map_of ?zs = map_option (\<lambda>rs. group_records X rs []) \<circ> ?m"
    using zone_rel_run [of X ops] by (simp_all add: zone_rel_def)
  have dom: "dom ?m = fst ` set ?zs"
    using rel(2) by (auto simp: dom_def simp flip: dom_map_of_conv_image_fst)
  have len: "length (group_records X rs []) = card (RR_CacheKey X ` set rs)" for rs
    using distinct_card [OF group_records_distinct [of "[]" X rs]] group_records_keys [of X rs] by simp
  have zone: "length zone = card (RR_CacheKey X ` set (the (?m z)))" if "(z, zone) \<in> set ?zs" for z zone
  proof -
    have "map_of ?zs z = Some zone" using rel(1) that by simp
    then obtain rs where "?m z = Some rs" "zone = group_records X rs []" using rel(2) by auto
    then show ?thesis by (simp add: len)
  qed
  have "zonecache_Count (zone_run X ops) = sum_list (map (\<lambda>z. card (RR_CacheKey X ` set (the (?m z)))) (map fst ?zs))"
    unfolding zonecache_Count_def map_map by (intro arg_cong [of _ _ sum_list] map_cong refl) (auto simp: zone)
  also have "\<dots> = (\<Sum>z \<in> set (map fst ?zs). card (RR_CacheKey X ` set (the (?m z))))"
    by (rule sum_list_distinct_conv_sum_set [OF rel(1)])
  finally show ?thesis by (simp add: dom)
qed

text \<open>
  C34. A zone whose root is not the apex domain of a name is never consulted for that name:
  putting or removing it changes no answer for the name. A zone \<open>sub.example.com\<close> loaded
  beside its registrable domain is therefore unreachable.
\<close>

theorem zone_below_apex_unreachable:
  assumes "CanonicalDNSName X root \<noteq> GetApexDomain X (CanonicalDNSName X (q_Name q))"
  shows "FindRecords X (PutZone X zc root records) q = FindRecords X zc q
    \<and> FindRecords X (RemoveZone X zc root) q = FindRecords X zc q"
  using assms by (simp add: FindRecords_def PutZone_def RemoveZone_def Let_def update_conv' delete_conv')

theorem zone_below_apex_unreachable_witness:
  "FindRecords sample_extern (PutZone sample_extern zonecache_New ''s.a.b''
      [\<lparr>rr_Name = ''s.a.b'', rr_Type = 1, rr_Class = 1, rr_ttl = 10, rr_expiresAt = None,
        rr_Data = [192, 0, 2, 1], rr_Text = ''192.0.2.1''\<rparr>])
      \<lparr>q_ID = 1, q_Name = ''s.a.b'', q_Type = 1, q_Class = 1\<rparr> = ([], False)"
proof -
  have "CanonicalDNSName sample_extern ''s.a.b''
      \<noteq> GetApexDomain sample_extern (CanonicalDNSName sample_extern ''s.a.b'')" by code_simp
  from zone_below_apex_unreachable [of sample_extern "''s.a.b''" "\<lparr>q_ID = 1, q_Name = ''s.a.b'', q_Type = 1, q_Class = 1\<rparr>"]
    this show ?thesis by (simp add: FindRecords_def zonecache_New_def Let_def)
qed

end
