(* ===== verification/ResolverProps.thy ===== *)
theory ResolverProps
  imports Resolver DnsCache ZoneCache
begin

text \<open>
  What the resolver promises together with its repositories: a response for every query,
  answers from the cache until they expire, and what is and is not cached. The facts about
  any cache rest on the contract \<open>answer_cache\<close>, which the theory of the DNS cache
  discharges for the model of the code.
\<close>

section \<open>No panic\<close>

definition quiet :: "'u upstream_client option \<Rightarrow> bool" where
  "quiet up \<longleftrightarrow> (\<forall>resolve u q now. up = Some resolve \<longrightarrow> \<not> panics (snd (resolve u q now)))"

lemma upstreamLookup_ret: "quiet (ac_up a) \<Longrightarrow> \<exists>t. upstreamLookup a u q now = Ret t"
  unfolding quiet_def upstreamLookup_def
  by (cases "ac_up a") (auto split: prod.splits outcome.splits, metis panics_simps(3) snd_conv)

lemma resolveNext_ret:
  assumes "quiet (ac_up a)"
  shows "\<exists>t. resolveNext a u now st q target = Ret t"
  using upstreamLookup_ret [OF assms] by (auto simp: resolveNext_def Let_def split: prod.splits outcome.splits)

lemma chase_follow_ret:
  assumes "quiet (ac_up a)"
  shows "\<exists>t. chase_follow a now u st head = Ret t"
proof (cases "extractTarget head")
  case target: (Ret target)
  show ?thesis
  proof (cases "buildNextQuestion st target")
    case (Ret q)
    then show ?thesis
      using target resolveNext_ret [OF assms, of u now st q target] by (auto simp: chase_follow_def Let_def)
  qed (use target buildNextQuestion_errors(2) in \<open>auto simp: chase_follow_def\<close>)
qed (use extractTarget_errors(2) in \<open>auto simp: chase_follow_def\<close>)

lemma chase_step_ret: "quiet (ac_up a) \<Longrightarrow> \<exists>t. chase_step X a clk u st = Ret t"
  using chase_follow_ret by (auto simp: chase_step_def Let_def split: prod.splits)

lemma chase_loop_ret:
  assumes "chase_loop X a clk u st = Some r" and "quiet (ac_up a)"
  shows "\<exists>t. r = Ret t"
proof -
  have "quiet (ac_up a) \<longrightarrow> (\<exists>t. r = Ret t)"
  proof (rule chase_loop.raw_induct [where P = "\<lambda>X a clk u st r. quiet (ac_up a) \<longrightarrow> (\<exists>t. r = Ret t)", OF _ assms(1)], rule impI)
    fix f X a clk u st r
    assume IH: "\<And>X a clk u st r. f X a clk u st = Some r \<Longrightarrow> quiet (ac_up a) \<longrightarrow> (\<exists>t. r = Ret t)"
      and eq: "(case chase_step X a clk u st of
          Ret (u, st, done, err) \<Rightarrow> if err \<noteq> None \<or> done then Some (Ret (u, cs_chain st, err)) else f X a clk u st
        | Err e \<Rightarrow> Some (Err e) | Panic p \<Rightarrow> Some (Panic p)) = Some r"
      and q: "quiet (ac_up a)"
    from chase_step_ret [OF q] obtain t where "chase_step X a clk u st = Ret t" by blast
    then show "\<exists>t. r = Ret t" using eq IH q by (cases t) (auto split: if_splits)
  qed
  then show ?thesis using assms(2) by blast
qed

text \<open>
  C7. A response is produced for every query, without divergence or panic, when no upstream
  client panics and the alias chase, if one is configured, is depth-limited.
\<close>

theorem handle_query_total:
  assumes "quiet (r_upstream r)"
    and "r_aliasResolver r = None \<or>
      (\<exists>a. r_aliasResolver r = Some (Chase X a) \<and> 0 < ac_maxDepth a \<and> quiet (ac_up a))"
  shows "\<exists>t resp. HandleQuery X r rd s query = Some (Ret (t, resp))"
proof -
  obtain u c where s: "s = (u, c)" by (cases s)
  have zone: "\<exists>v records found err. resolveFromZone r rd u query = Some (Ret (v, records, found, err))"
  proof (cases "r_aliasResolver r")
    case None
    then show ?thesis by (auto simp: resolveFromZone_def split: option.splits prod.splits)
  next
    case (Some chase)
    with assms(2) obtain a where a: "chase = Chase X a" "0 < ac_maxDepth a" "quiet (ac_up a)" by auto
    have "\<exists>t. Chase X a clk u query records = Some (Ret t)" for clk records
    proof -
      obtain out where "Chase X a clk u query records = Some out"
        using Chase_returns [OF disjI1 [OF a(2)]] by blast
      then show ?thesis using chase_loop_ret [OF _ a(3)] by (auto simp: Chase_def split: if_splits)
    qed
    then have ret: "\<exists>v rs err. Chase X a clk u query records = Some (Ret (v, rs, err))" for clk records
      by (metis prod_cases3)
    show ?thesis
    proof (cases "r_zoneCache r")
      case None
      then show ?thesis by (auto simp: resolveFromZone_def)
    next
      case lookup: (Some lookup)
      obtain records b where l: "lookup query = (records, b)" by fastforce
      obtain v rs err where "Chase X a (rd_alias rd) u query records = Some (Ret (v, rs, err))" using ret by blast
      then show ?thesis using Some a(1) lookup l by (auto simp: resolveFromZone_def)
    qed
  qed
  show ?thesis
  proof (cases "zone_has r query")
    case True
    then obtain v records err where "resolveFromZone r rd u query = Some (Ret (v, records, True, err))"
      using zone resolveFromZone_hit [OF True] by metis
    then show ?thesis by (auto simp: s HandleQuery_def split: option.splits)
  next
    case False
    have "\<not> panics (snd (resolveUpstream r u query (rd_now rd)))"
      using assms(1) by (auto simp: resolveUpstream_def quiet_def split: option.splits)
    then show ?thesis
      unfolding s HandleQuery_no_zone [OF False]
      by (auto simp: Let_def split: prod.splits outcome.splits)
  qed
qed

section \<open>The cache of upstream answers\<close>

text \<open>The query reaches the cache: the zone does not answer it and the blocklist does not have it\<close>

definition passes :: "('u, 'c) resolver \<Rightarrow> question \<Rightarrow> bool" where
  "passes r query \<longleftrightarrow> \<not> zone_has r query \<and> \<not> checkBlocklist r query"

definition same_question :: "question \<Rightarrow> question \<Rightarrow> bool" where
  "same_question p q \<longleftrightarrow> q_Name p = q_Name q \<and> q_Type p = q_Type q \<and> q_Class p = q_Class q"

lemma same_question_key: "same_question p q \<Longrightarrow> Question_CacheKey X p = Question_CacheKey X q"
  by (simp add: same_question_def Question_CacheKey_def)

lemma handle_hit:
  assumes "passes r query" and "r_upstreamCache r = Some C"
    and "co_Get C c (rd_cache rd) (Question_CacheKey X query) = (d, records, True)"
  shows "HandleQuery X r rd (u, c) query = Some (Ret ((u, d), buildResponse query NOERROR records))"
  using assms by (simp add: passes_def HandleQuery_no_zone checkUpstreamCache_def)

lemma handle_miss:
  assumes "passes r query" and "r_upstreamCache r = Some C" and "r_upstream r = Some resolve"
    and "co_Get C c (rd_cache rd) (Question_CacheKey X query) = (d, rs, False)"
  shows "HandleQuery X r rd (u, c) query = (case resolve u query (rd_now rd) of
      (v, Err e) \<Rightarrow> Some (Ret ((v, d), buildResponse query SERVFAIL []))
    | (v, Panic p) \<Rightarrow> Some (Panic p)
    | (v, Ret records) \<Rightarrow> Some (Ret ((v, fst (co_Set C d records)), buildResponse query NOERROR records)))"
  using assms
  by (auto simp: passes_def HandleQuery_no_zone checkUpstreamCache_def resolveUpstream_def cacheUpstreamResponse_def
      Let_def split: prod.splits outcome.splits)

text \<open>
  C19. What happens to an answer of the upstream. It is returned with NOERROR. When its records
  have one key, it is cached under that key, which nothing compares with the question: every
  question with that key, this one or another one, is answered next with the records that have
  not expired, as long as there are any, and without asking the upstream. When they have
  different keys, as in every answer that starts with a CNAME, it is not cached at all.
\<close>

theorem answer_is_cached:
  assumes "answer_cache C X ok" and "ok c" and "r_upstreamCache r = Some C" and "r_upstream r = Some resolve"
    and "passes r query" and "passes r again"
    and "co_Get C c (rd_cache rd) (Question_CacheKey X query) = (d, [], False)"
    and "resolve u query (rd_now rd) = (v, Ret records)"
    and "records \<noteq> []"
  shows "(same_key X records \<longrightarrow> Question_CacheKey X again = RR_CacheKey X (hd records) \<longrightarrow>
      (\<exists>e f. HandleQuery X r rd (u, c) query = Some (Ret ((v, e), buildResponse query NOERROR records)) \<and> ok e
        \<and> (unexpired (rd_cache rd') 0 records \<noteq> [] \<longrightarrow>
            HandleQuery X r rd' (v, e) again
              = Some (Ret ((v, f), buildResponse again NOERROR (unexpired (rd_cache rd') 0 records))))))
    \<and> (\<not> same_key X records \<longrightarrow>
        HandleQuery X r rd (u, c) query = Some (Ret ((v, d), buildResponse query NOERROR records))
        \<and> snd (co_Get C d clk (Question_CacheKey X query)) = ([], False))"
proof -
  have d: "ok d" using answer_cache.get_miss [OF assms(1,2,7)] by simp
  obtain e res where e: "co_Set C d records = (e, res)" by fastforce
  have first: "HandleQuery X r rd (u, c) query = Some (Ret ((v, e), buildResponse query NOERROR records))"
    using handle_miss [OF assms(5,3,4,7)] assms(8) e by simp
  have "\<exists>f. unexpired (rd_cache rd') 0 records \<noteq> [] \<longrightarrow>
      HandleQuery X r rd' (v, e) again = Some (Ret ((v, f), buildResponse again NOERROR (unexpired (rd_cache rd') 0 records)))"
    if "same_key X records" and key: "Question_CacheKey X again = RR_CacheKey X (hd records)"
  proof -
    have "snd (co_Get C e (rd_cache rd') (Question_CacheKey X again))
        = (unexpired (rd_cache rd') 0 records, unexpired (rd_cache rd') 0 records \<noteq> [])"
      using answer_cache.set_get [OF assms(1) d assms(9) that(1) e] key by simp
    then obtain f where "co_Get C e (rd_cache rd') (Question_CacheKey X again)
        = (f, unexpired (rd_cache rd') 0 records, unexpired (rd_cache rd') 0 records \<noteq> [])"
      by (metis prod.collapse)
    then show ?thesis using handle_hit [OF assms(6,3)] by auto
  qed
  moreover have "e = d" if "\<not> same_key X records" using answer_cache.set_refused [OF assms(1) d that e] by simp
  moreover have "snd (co_Get C d clk (Question_CacheKey X query)) = ([], False)"
    using answer_cache.get_again [OF assms(1,2,7)] by simp
  ultimately show ?thesis using first answer_cache.set_ok [OF assms(1) d e] by blast
qed

text \<open>
  An answer with records of different keys, such as every answer that starts with a
  CNAME, is returned and never cached, and a failure of the upstream is answered SERVFAIL
  without records and not cached either: the same question asks the upstream again.
\<close>

theorem uncached_answers:
  assumes "answer_cache C X ok" and "ok c" and "r_upstreamCache r = Some C" and "r_upstream r = Some resolve"
    and "passes r query" and "passes r again" and "same_question again query"
    and "co_Get C c (rd_cache rd) (Question_CacheKey X query) = (d, [], False)"
    and "resolve u query (rd_now rd) = (v, answer)"
    and "(\<exists>e. answer = Err e) \<or> (\<exists>records. answer = Ret records \<and> \<not> same_key X records)"
  shows "HandleQuery X r rd (u, c) query = Some (Ret ((v, d), case answer of
      Ret records \<Rightarrow> buildResponse query NOERROR records | _ \<Rightarrow> buildResponse query SERVFAIL []))
    \<and> (\<exists>e. HandleQuery X r rd' (v, d) again = (case resolve v again (rd_now rd') of
        (w, Err _) \<Rightarrow> Some (Ret ((w, e), buildResponse again SERVFAIL []))
      | (w, Panic p) \<Rightarrow> Some (Panic p)
      | (w, Ret records) \<Rightarrow> Some (Ret ((w, fst (co_Set C e records)), buildResponse again NOERROR records))))"
proof -
  have d: "ok d" using answer_cache.get_miss [OF assms(1,2,8)] by simp
  have unchanged: "fst (co_Set C d records) = d" if "\<not> same_key X records" for records
    using answer_cache.set_refused [OF assms(1) d that] by (metis prod.collapse)
  have first: "HandleQuery X r rd (u, c) query = Some (Ret ((v, d), case answer of
      Ret records \<Rightarrow> buildResponse query NOERROR records | _ \<Rightarrow> buildResponse query SERVFAIL []))"
    using handle_miss [OF assms(5,3,4,8)] assms(9,10) unchanged by auto
  have "snd (co_Get C d (rd_cache rd') (Question_CacheKey X again)) = ([], False)"
    using answer_cache.get_again [OF assms(1,2,8)] same_question_key [OF assms(7), of X] by simp
  then obtain e where "co_Get C d (rd_cache rd') (Question_CacheKey X again) = (e, [], False)"
    by (metis prod.collapse)
  then show ?thesis using first handle_miss [OF assms(6,3,4)] by blast
qed

text \<open>
  Every answer that comes from the cache has at least one record, and each of its
  records has the question's key, hence its type, and was unexpired when it was checked;
  the upstream is not asked. Handling a query keeps the invariant of the cache.
\<close>

theorem cached_answer_sound:
  assumes "answer_cache C X ok" and "ok c" and "r_upstreamCache r = Some C"
    and "HandleQuery X r rd (u, c) query = Some (Ret ((v, d), resp))"
  shows "ok d \<and> (passes r query \<longrightarrow> snd (snd (co_Get C c (rd_cache rd) (Question_CacheKey X query))) \<longrightarrow>
      v = u \<and> resp_RCode resp = NOERROR \<and> resp_Answers resp \<noteq> []
      \<and> (\<forall>rr \<in> set (resp_Answers resp). RR_CacheKey X rr = Question_CacheKey X query
           \<and> rr_Type rr = q_Type query \<and> (\<exists>i. \<not> IsExpired rr (rd_cache rd i))))"
proof -
  obtain e records b where g: "co_Get C c (rd_cache rd) (Question_CacheKey X query) = (e, records, b)"
    by (metis prod_cases3)
  have e: "ok e" using answer_cache.get_ok [OF assms(1,2)] g by (metis fst_conv)
  have put: "ok (fst (co_Set C e rs))" for rs
    using answer_cache.set_ok [OF assms(1) e] by (metis prod.collapse)
  have "ok d"
  proof (cases "zone_has r query")
    case True
    then show ?thesis using HandleQuery_zone [OF True assms(4)] assms(2) by simp
  next
    case False
    show ?thesis
      using assms(4) unfolding HandleQuery_no_zone [OF False]
      using assms(2,3) g e put
      by (auto simp: checkUpstreamCache_def cacheUpstreamResponse_def Let_def
          split: if_splits prod.splits outcome.splits) (metis fst_conv)
  qed
  moreover have "v = u \<and> resp_RCode resp = NOERROR \<and> resp_Answers resp \<noteq> []
      \<and> (\<forall>rr \<in> set (resp_Answers resp). RR_CacheKey X rr = Question_CacheKey X query
           \<and> rr_Type rr = q_Type query \<and> (\<exists>i. \<not> IsExpired rr (rd_cache rd i)))" if "passes r query" b
  proof -
    have hit: "co_Get C c (rd_cache rd) (Question_CacheKey X query) = (e, records, True)" using g that by simp
    have "resp = buildResponse query NOERROR records" "v = u"
      using handle_hit [OF that(1) assms(3) hit] assms(4) by simp_all
    then show ?thesis
      using answer_cache.get_hit [OF assms(1,2) hit]
      by (auto simp: RR_CacheKey_def Question_CacheKey_def dest: cache_key_type_class)
  qed
  ultimately show ?thesis using g by simp
qed

section \<open>Concrete runs\<close>

text \<open>
  A resolver over the model of the cache and an upstream that counts its calls; asked for \<open>z\<close>
  it answers with an address of \<open>a\<close>.
\<close>

definition sample_up :: "nat upstream_client" where
  "sample_up u q now = (u + 1,
     if q_Name q = ''a'' \<or> q_Name q = ''z'' then Ret [sample_cached]
     else if q_Name q = ''x'' then Ret [sample_alias, sample_address]
     else Err (Errorf ''timeout''))"

definition caching_resolver :: "(nat, ref_lru dnsCache) resolver" where
  "caching_resolver = NewResolver None (Some sample_up) (Some (dnscache_ops sample_extern ref_lru)) None 8 None"

definition ask :: "string \<Rightarrow> question" where
  "ask n = \<lparr>q_ID = 7, q_Name = n, q_Type = RRTypeA, q_Class = 1\<rparr>"

lemma caching_fields:
  "r_upstreamCache caching_resolver = Some (dnscache_ops sample_extern ref_lru)"
  "r_upstream caching_resolver = Some sample_up" "passes caching_resolver q"
  by (simp_all add: caching_resolver_def NewResolver_def passes_def zone_has_def checkBlocklist_def)

lemma sample_contract:
  "answer_cache (dnscache_ops sample_extern ref_lru) sample_extern (cache_ok ref_inv ref_view sample_extern)"
  "cache_ok ref_inv ref_view sample_extern sample_cache"
  "co_Get (dnscache_ops sample_extern ref_lru) sample_cache clk key = (sample_cache, [], False)"
  by (rule ref.resolver_cache.answer_cache_axioms)
    (simp_all add: cache_ok_def sample_cache_def dnscache_Get_def ref_lru_def)

theorem handle_query_total_witness:
  "\<exists>t resp. HandleQuery sample_extern caching_resolver sample_readings (0, sample_cache) (ask ''a'') = Some (Ret (t, resp))"
  by (rule handle_query_total) (auto simp: caching_resolver_def NewResolver_def quiet_def sample_up_def)

theorem answer_is_cached_witness:
  "(\<exists>e f. HandleQuery sample_extern caching_resolver sample_readings (0, sample_cache) (ask ''z'')
      = Some (Ret ((1, e), buildResponse (ask ''z'') NOERROR [sample_cached]))
    \<and> HandleQuery sample_extern caching_resolver (sample_readings\<lparr>rd_cache := \<lambda>_. 9\<rparr>) (1, e) (ask ''a'')
      = Some (Ret ((1, f), buildResponse (ask ''a'') NOERROR [sample_cached])))
   \<and> HandleQuery sample_extern caching_resolver sample_readings (0, sample_cache) (ask ''x'')
      = Some (Ret ((1, sample_cache), buildResponse (ask ''x'') NOERROR [sample_alias, sample_address]))"
proof -
  have k: "Question_CacheKey sample_extern (ask ''a'') = RR_CacheKey sample_extern (hd [sample_cached])"
    "same_key sample_extern [sample_cached]" by (code_simp, simp add: same_key_def)
  have "RR_CacheKey sample_extern sample_alias \<noteq> RR_CacheKey sample_extern sample_address" by code_simp
  then have l: "\<not> same_key sample_extern [sample_alias, sample_address]" by (simp add: same_key_def)
  have u: "unexpired (rd_cache (sample_readings\<lparr>rd_cache := \<lambda>_. 9\<rparr>)) 0 [sample_cached] = [sample_cached]"
    by (simp add: IsExpired_def sample_cached_def time_After_def)
  have up: "sample_up 0 (ask ''z'') (rd_now sample_readings) = (1, Ret [sample_cached])"
    "sample_up 0 (ask ''x'') (rd_now sample_readings) = (1, Ret [sample_alias, sample_address])"
    by (simp_all add: sample_up_def ask_def)
  note fate = answer_is_cached [where rd' = "sample_readings\<lparr>rd_cache := \<lambda>_. 9\<rparr>", OF sample_contract(1,2) caching_fields(1,2)
      caching_fields(3) caching_fields(3) sample_contract(3)]
  from fate [OF up(1), of "ask ''a''"] k u fate [OF up(2)] l show ?thesis by auto
qed

theorem uncached_answers_witness:
  "HandleQuery sample_extern caching_resolver sample_readings (0, sample_cache) (ask ''x'')
      = Some (Ret ((1, sample_cache), buildResponse (ask ''x'') NOERROR [sample_alias, sample_address]))"
proof -
  have "RR_CacheKey sample_extern sample_alias \<noteq> RR_CacheKey sample_extern sample_address" by code_simp
  then have k: "\<not> same_key sample_extern [sample_alias, sample_address]" by (simp add: same_key_def)
  have up: "sample_up 0 (ask ''x'') (rd_now sample_readings) = (1, Ret [sample_alias, sample_address])"
    by (simp add: sample_up_def ask_def)
  show ?thesis
    using uncached_answers [where C = "dnscache_ops sample_extern ref_lru" and X = sample_extern
        and ok = "cache_ok ref_inv ref_view sample_extern" and c = sample_cache and r = caching_resolver
        and resolve = sample_up and query = "ask ''x''" and again = "ask ''x''" and rd = sample_readings
        and d = sample_cache and u = 0 and v = 1, OF sample_contract(1,2) caching_fields(1,2) caching_fields(3)
        caching_fields(3) _ sample_contract(3) up] k
    by (auto simp: same_question_def)
qed

theorem cached_answer_sound_witness:
  "\<exists>v d resp. HandleQuery sample_extern caching_resolver sample_readings (0, sample_cache) (ask ''a'')
      = Some (Ret ((v, d), resp)) \<and> cache_ok ref_inv ref_view sample_extern d"
proof -
  have up: "sample_up 0 (ask ''a'') (rd_now sample_readings) = (1, Ret [sample_cached])"
    by (simp add: sample_up_def ask_def)
  have h: "HandleQuery sample_extern caching_resolver sample_readings (0, sample_cache) (ask ''a'')
      = Some (Ret ((1, fst (co_Set (dnscache_ops sample_extern ref_lru) sample_cache [sample_cached])),
          buildResponse (ask ''a'') NOERROR [sample_cached]))"
    using handle_miss [where C = "dnscache_ops sample_extern ref_lru" and c = sample_cache, OF caching_fields(3,1,2) sample_contract(3)] up by simp
  from cached_answer_sound [where ok = "cache_ok ref_inv ref_view sample_extern", OF sample_contract(1,2) caching_fields(1) h] h show ?thesis by blast
qed

end
