(* ===== verification/GoNet.thy ===== *)
theory GoNet
  imports GoStrings
begin

text \<open>
  The part of Go's \<open>net\<close> and \<open>net/netip\<close> packages the source relies on:
  \<open>net.ParseIP\<close>, \<open>IP.To4\<close>, \<open>IP.To16\<close>, \<open>IP.String\<close> and
  \<open>net.SplitHostPort\<close>. A \<open>net.IP\<close> is a byte list; the nil IP is \<open>None\<close> where a
  function can return it.
\<close>

section \<open>IPv4 text\<close>

text \<open>
  \<open>parseIPv4Fields\<close>: four decimal fields between dots, each of at least one digit,
  without a leading zero and at most 255.
\<close>

definition ipv4_field :: "string \<Rightarrow> byte option" where
  "ipv4_field f =
     (if f \<noteq> [] \<and> list_all is_digit f \<and> (length f = 1 \<or> hd f \<noteq> CHR ''0'') \<and> dec_value f \<le> 255
      then Some (of_nat (dec_value f)) else None)"

definition parse_ipv4 :: "string \<Rightarrow> bytes option" where
  "parse_ipv4 s =
     (let fs = map ipv4_field (Split s CHR ''.'')
      in if length fs = 4 \<and> None \<notin> set fs then Some (map the fs) else None)"

definition show_ipv4 :: "bytes \<Rightarrow> string" where
  "show_ipv4 b = Join (map (\<lambda>x. show_nat (unat x)) b) ''.''"

section \<open>IPv6 text\<close>

definition hex_val :: "char \<Rightarrow> nat option" where
  "hex_val c =
     (let n = (of_char c :: nat)
      in if 48 \<le> n \<and> n \<le> 57 then Some (n - 48)
         else if 97 \<le> n \<and> n \<le> 102 then Some (n - 87)
         else if 65 \<le> n \<and> n \<le> 70 then Some (n - 55)
         else None)"

definition is_hex :: "char \<Rightarrow> bool" where
  "is_hex c \<longleftrightarrow> hex_val c \<noteq> None"

definition hex_value :: "string \<Rightarrow> nat" where
  "hex_value s = foldl (\<lambda>n c. 16 * n + the (hex_val c)) 0 s"

text \<open>
  The loop of \<open>parseIPv6\<close> that reads groups: the bytes read so far, the position of
  the ellipsis if one was seen, and the rest of the string when it stops.
\<close>

function v6_loop :: "string \<Rightarrow> bytes \<Rightarrow> nat option \<Rightarrow> (bytes \<times> nat option \<times> string) option" where
  "v6_loop s ip ell =
     (if 16 \<le> length ip then Some (ip, ell, s)
      else
        let h = takeWhile is_hex s; r = dropWhile is_hex s;
            ip' = ip @ [of_nat (hex_value h div 256), of_nat (hex_value h)]
        in
        if h = [] \<or> 4 < length h then None
        else if r \<noteq> [] \<and> hd r = CHR ''.'' then
          (if ell = None \<and> length ip \<noteq> 12 then None
           else if 16 < length ip + 4 then None
           else (case parse_ipv4 s of None \<Rightarrow> None | Some q \<Rightarrow> Some (ip @ q, ell, [])))
        else (case r of
            [] \<Rightarrow> Some (ip', ell, [])
          | [c] \<Rightarrow> None
          | c # d # r' \<Rightarrow>
              if c \<noteq> CHR '':'' then None
              else if d = CHR '':'' then
                (if ell \<noteq> None then None
                 else if r' = [] then Some (ip', Some (length ip'), [])
                 else v6_loop r' ip' (Some (length ip')))
              else v6_loop (d # r') ip' ell))"
  by pat_completeness auto
termination
  by (relation "measure (\<lambda>(s, ip, ell). 16 - length ip)") auto

declare v6_loop.simps [simp del]

definition parse_ipv6 :: "string \<Rightarrow> bytes option" where
  "parse_ipv6 s0 =
     (let ell0 = (if prefix ''::'' s0 then Some 0 else None);
          s = (if prefix ''::'' s0 then drop 2 s0 else s0)
      in if ell0 \<noteq> None \<and> s = [] then Some (replicate 16 0)
         else (case v6_loop s [] ell0 of
             None \<Rightarrow> None
           | Some (ip, ell, rest) \<Rightarrow>
               if rest \<noteq> [] then None
               else if length ip < 16 then
                 (case ell of
                    None \<Rightarrow> None
                  | Some e \<Rightarrow> Some (take e ip @ replicate (16 - length ip) 0 @ drop e ip))
               else if ell \<noteq> None then None
               else Some ip))"

text \<open>\<open>netip.Addr.String\<close> for IPv6: the first longest run of two or more zero groups is \<open>::\<close>.\<close>

fun show_hex :: "nat \<Rightarrow> string" where
  "show_hex n =
     (let d = (\<lambda>k. if k < 10 then digit_char k else char_of (87 + k))
      in if n < 16 then [d n] else show_hex (n div 16) @ [d (n mod 16)])"

declare show_hex.simps [simp del]

definition v6_groups :: "bytes \<Rightarrow> nat list" where
  "v6_groups b = map (\<lambda>i. unat (b ! (2 * i)) * 256 + unat (b ! (2 * i + 1))) [0..<8]"

definition zero_run :: "nat list \<Rightarrow> (nat \<times> nat) option" where
  "zero_run g =
     foldl (\<lambda>best i.
        let l = length (takeWhile (\<lambda>x. x = 0) (drop i g))
        in if 2 \<le> l \<and> (case best of None \<Rightarrow> True | Some (s, e) \<Rightarrow> e - s < l)
           then Some (i, i + l) else best) None [0..<8]"

definition show_ipv6 :: "bytes \<Rightarrow> string" where
  "show_ipv6 b =
     (let g = v6_groups b
      in (case zero_run g of
            None \<Rightarrow> Join (map show_hex g) '':''
          | Some (s, e) \<Rightarrow>
              Join (map show_hex (take s g)) '':'' @ ''::'' @ Join (map show_hex (drop e g)) '':''))"

section \<open>net.IP\<close>

definition v4_in_v6_prefix :: bytes where
  "v4_in_v6_prefix = replicate 10 0 @ [0xFF, 0xFF]"

definition To4 :: "bytes \<Rightarrow> bytes option" where
  "To4 ip =
     (if length ip = 4 then Some ip
      else if length ip = 16 \<and> take 12 ip = v4_in_v6_prefix then Some (drop 12 ip)
      else None)"

definition To16 :: "bytes \<Rightarrow> bytes option" where
  "To16 ip =
     (if length ip = 4 then Some (v4_in_v6_prefix @ ip)
      else if length ip = 16 then Some ip
      else None)"

text \<open>\<open>IP.String\<close>, for the lengths the source calls it with (4 and 16)\<close>

definition ip_String :: "bytes \<Rightarrow> string" where
  "ip_String ip = (case To4 ip of Some b \<Rightarrow> show_ipv4 b | None \<Rightarrow> show_ipv6 ip)"

text \<open>
  \<open>net.ParseIP\<close>: the first of the characters \<open>.\<close>, \<open>:\<close> and \<open>%\<close> decides the
  syntax; an address with a zone is not an IP. The result is always in the 16-byte form.
\<close>

definition ParseIP :: "string \<Rightarrow> bytes option" where
  "ParseIP s =
     (case find (\<lambda>c. c = CHR ''.'' \<or> c = CHR '':'' \<or> c = CHR ''%'') s of
        None \<Rightarrow> None
      | Some c \<Rightarrow>
          if c = CHR ''.'' then map_option (\<lambda>b. v4_in_v6_prefix @ b) (parse_ipv4 s)
          else if c = CHR ''%'' \<or> CHR ''%'' \<in> set s then None
          else parse_ipv6 s)"

section \<open>Facts about IPv4 addresses\<close>

lemma length_v4_prefix [simp]: "length v4_in_v6_prefix = 12"
  by (simp add: v4_in_v6_prefix_def)

lemma To4_mapped [simp]: "length b = 4 \<Longrightarrow> To4 (v4_in_v6_prefix @ b) = Some b"
  by (simp add: To4_def)

lemma To4_4 [simp]: "length b = 4 \<Longrightarrow> To4 b = Some b"
  by (simp add: To4_def)

lemma To4_length: "To4 ip = Some b \<Longrightarrow> length b = 4"
  by (auto simp: To4_def split: if_splits)

lemma parse_ipv4_length: "parse_ipv4 s = Some b \<Longrightarrow> length b = 4"
  by (auto simp: parse_ipv4_def Let_def split: if_splits)

lemma show_nat_no_leading_zero: "length (show_nat n) = 1 \<or> hd (show_nat n) \<noteq> CHR ''0''"
proof (induction n rule: show_nat.induct)
  case (1 n)
  show ?case
  proof (cases "n < 10")
    case True
    then show ?thesis by (subst show_nat.simps) simp
  next
    case False
    let ?m = "n div 10"
    have m: "0 < ?m" using False by (simp add: div_greater_zero_iff)
    have "hd (show_nat ?m) \<noteq> CHR ''0''"
    proof (cases "?m < 10")
      case True
      then show ?thesis using m by (subst show_nat.simps) (simp add: digit_char_eq_zero)
    next
      case False
      then have "length (show_nat ?m) \<noteq> 1"
        by (subst show_nat.simps) simp
      with 1 \<open>\<not> n < 10\<close> show ?thesis by simp
    qed
    then show ?thesis using False by (subst (2) show_nat.simps) simp
  qed
qed

lemma ipv4_field_show_nat [simp]: "ipv4_field (show_nat (unat (x :: byte))) = Some x"
proof -
  have "unat x < 256" using unsigned_less [of x, where ?'a = nat] by simp
  then show ?thesis
    using show_nat_no_leading_zero by (simp add: ipv4_field_def)
qed

lemma show_nat_no_char: "\<not> is_digit c \<Longrightarrow> c \<notin> set (show_nat n)"
  using show_nat_digits [of n] by (auto simp: list_all_iff)

lemma parse_show_ipv4: "length b = 4 \<Longrightarrow> parse_ipv4 (show_ipv4 b) = Some b"
proof -
  assume b: "length b = 4"
  have dot: "CHR ''.'' \<notin> set (show_nat n)" for n
    by (rule show_nat_no_char) (simp add: is_digit_def)
  have "Split (show_ipv4 b) CHR ''.'' = map (\<lambda>x. show_nat (unat x)) b"
    unfolding show_ipv4_def by (rule Split_Join) (use b dot in auto)
  then show ?thesis
    using b by (auto simp: parse_ipv4_def Let_def comp_def)
qed

lemma find_dot_show_ipv4:
  assumes "length b = 4"
  shows "find (\<lambda>c. c = CHR ''.'' \<or> c = CHR '':'' \<or> c = CHR ''%'') (show_ipv4 b) = Some CHR ''.''"
proof -
  have other: "c \<notin> set (show_nat n)" if "c = CHR ''.'' \<or> c = CHR '':'' \<or> c = CHR ''%''" for c n
    by (rule show_nat_no_char) (use that in \<open>auto simp: is_digit_def\<close>)
  obtain x y where xy: "b = x # y" "y \<noteq> []" using assms by (cases b; cases "tl b") auto
  have "show_ipv4 b = show_nat (unat x) @ ''.'' @ Join (map (\<lambda>x. show_nat (unat x)) y) ''.''"
    using xy by (simp add: show_ipv4_def Join_Cons)
  moreover have "find (\<lambda>c. c = CHR ''.'' \<or> c = CHR '':'' \<or> c = CHR ''%'') (show_nat (unat x) @ t) =
      find (\<lambda>c. c = CHR ''.'' \<or> c = CHR '':'' \<or> c = CHR ''%'') t" for t
    by (rule find_append_skip) (use other in blast)
  ultimately show ?thesis by simp
qed

lemma ParseIP_show_ipv4: "length b = 4 \<Longrightarrow> ParseIP (show_ipv4 b) = Some (v4_in_v6_prefix @ b)"
  by (simp add: ParseIP_def find_dot_show_ipv4 parse_show_ipv4)

lemma v6_loop_length:
  assumes "v6_loop s ip ell = Some (ip', ell', r)" and "length ip \<le> 16" and "even (length ip)"
    and "case ell of None \<Rightarrow> True | Some e \<Rightarrow> e \<le> length ip"
  shows "length ip' \<le> 16 \<and> (case ell' of None \<Rightarrow> True | Some e \<Rightarrow> e \<le> length ip')"
  using assms
proof (induction s ip ell rule: v6_loop.induct)
  case (1 s ip ell)
  show ?case
  proof (cases "16 \<le> length ip")
    case True
    with "1.prems" show ?thesis by (auto simp: v6_loop.simps [of s ip ell] split: option.splits)
  next
    case False
    then have le: "length ip + 2 \<le> 16" using "1.prems"(3) by presburger
    let ?h = "takeWhile is_hex s" and ?r = "dropWhile is_hex s"
    let ?ip = "ip @ [of_nat (hex_value ?h div 256), of_nat (hex_value ?h)]"
    have h: "\<not> (?h = [] \<or> 4 < length ?h)"
      using "1.prems"(1) False by (auto simp: v6_loop.simps [of s ip ell] Let_def)
    show ?thesis
    proof (cases "?r \<noteq> [] \<and> hd ?r = CHR ''.''")
      case True
      with "1.prems" False h show ?thesis
        by (auto simp: v6_loop.simps [of s ip ell] Let_def
            split: if_splits option.splits dest: parse_ipv4_length)
    next
      case dot: False
      show ?thesis
      proof (cases "\<exists>c d r'. ?r = c # d # r'")
        case False
        then show ?thesis
          using "1.prems" \<open>\<not> 16 \<le> length ip\<close> h dot le
          by (auto simp: v6_loop.simps [of s ip ell] Let_def split: list.splits option.splits)
      next
        case True
        then obtain c d r' where r: "?r = c # d # r'" by blast
        note IH = "1.IH" [OF False refl refl refl h dot r refl]
        show ?thesis
          using "1.prems" False h dot r le IH
          by (auto simp: v6_loop.simps [of s ip ell] Let_def split: if_splits option.splits)
      qed
    qed
  qed
qed

lemma parse_ipv6_length: "parse_ipv6 s = Some b \<Longrightarrow> length b = 16"
  by (auto simp: parse_ipv6_def Let_def split: if_splits option.splits
      dest!: v6_loop_length)

lemma ParseIP_length: "ParseIP s = Some b \<Longrightarrow> length b = 16"
  by (auto simp: ParseIP_def split: option.splits if_splits dest: parse_ipv4_length parse_ipv6_length)

section \<open>Host and port\<close>

text \<open>
  \<open>net.SplitHostPort\<close>: the host and the port of \<open>host:port\<close> or \<open>[host]:port\<close>;
  \<open>None\<close> is an error.
\<close>

definition last_colon :: "string \<Rightarrow> nat option" where
  "last_colon s = (case filter (\<lambda>i. s ! i = CHR '':'') [0..<length s] of [] \<Rightarrow> None | is \<Rightarrow> Some (last is))"

definition first_index :: "char \<Rightarrow> string \<Rightarrow> nat option" where
  "first_index c s = find (\<lambda>i. s ! i = c) [0..<length s]"

definition SplitHostPort :: "string \<Rightarrow> (string \<times> string) option" where
  "SplitHostPort hp =
     (case last_colon hp of
        None \<Rightarrow> None
      | Some i \<Rightarrow>
          if hd hp = CHR ''['' then
            (case first_index CHR '']'' hp of
               None \<Rightarrow> None
             | Some e \<Rightarrow>
                 if e + 1 = i then
                   (let host = take (e - 1) (drop 1 hp)
                    in if CHR ''['' \<in> set (drop 1 hp) \<or> CHR '']'' \<in> set (drop (e + 1) hp) then None
                       else Some (host, drop (i + 1) hp))
                 else None)
          else
            (let host = take i hp
             in if CHR '':'' \<in> set host then None
                else if CHR ''['' \<in> set hp \<or> CHR '']'' \<in> set hp then None
                else Some (host, drop (i + 1) hp)))"

end
