(* ===== verification/RRData.thy ===== *)
theory RRData
  imports Utils RRTypes GoNet
begin

text \<open>
  \<open>internal/dns/common/rrdata\<close>: the conversion of a record's text to RDATA bytes and
  back, per record type, and the dispatch \<open>Encode\<close> and \<open>Decode\<close>. An index loop over
  a byte slice is a recursion on the bytes that are left. A slice expression whose bounds
  the code does not check is a \<open>Panic\<close> where they fail.
\<close>

section \<open>Domain names (000common.go)\<close>

fun encode_labels :: "string list \<Rightarrow> bytes outcome" where
  "encode_labels [] = Ret []"
| "encode_labels (label # labels) =
     (if length label = 0 then encode_labels labels
      else if 63 < length label then Err (Errorf ''label too long: %s'')
      else obind (encode_labels labels)
        (\<lambda>encoded. Ret (byte_len label # bytes_of_string label @ encoded)))"

definition encodeDomainName :: "extern \<Rightarrow> string \<Rightarrow> bytes outcome" where
  "encodeDomainName X name =
     (let name = CanonicalDNSName X name;
          labels = Split name CHR ''.''
      in obind (encode_labels labels) (\<lambda>encoded. Ret (encoded @ [0])))"

fun decode_labels :: "bytes \<Rightarrow> string list outcome" where
  "decode_labels [] = Ret []"
| "decode_labels (labelLen # b) =
     (if labelLen = 0 then Ret []
      else if length b < unat labelLen then Err (Errorf ''invalid domain name encoding'')
      else obind (decode_labels (drop (unat labelLen) b))
        (\<lambda>labels. Ret (string_of_bytes (take (unat labelLen) b) # labels)))"

definition decodeDomainName :: "bytes \<Rightarrow> string outcome" where
  "decodeDomainName b = obind (decode_labels b) (\<lambda>labels. Ret (Join labels ''.''))"

definition isIPv4 :: "bytes option \<Rightarrow> bool" where
  "isIPv4 ip \<longleftrightarrow> (case ip of None \<Rightarrow> False | Some a \<Rightarrow> To4 a \<noteq> None)"

definition isIPv6 :: "bytes option \<Rightarrow> bool" where
  "isIPv6 ip \<longleftrightarrow> (case ip of None \<Rightarrow> False | Some a \<Rightarrow> To16 a \<noteq> None \<and> To4 a = None)"

section \<open>A and AAAA\<close>

definition encodeAData :: "string \<Rightarrow> bytes outcome" where
  "encodeAData data =
     (let ip = ParseIP data
      in if ip = None \<or> \<not> isIPv4 ip then Err (Errorf ''invalid A record IP: %s'')
         else Ret (the (To4 (the ip))))"

definition decodeAData :: "bytes \<Rightarrow> string outcome" where
  "decodeAData b =
     (if \<not> isIPv4 (Some b) then Err (Errorf ''invalid A record IP: %v'')
      else Ret (ip_String (the (To4 b))))"

definition encodeAAAAData :: "string \<Rightarrow> bytes outcome" where
  "encodeAAAAData data =
     (let ip = ParseIP data
      in if ip = None \<or> \<not> isIPv6 ip then Err (Errorf ''invalid AAAA record IP: %s'')
         else Ret (the (To16 (the ip))))"

definition decodeAAAAData :: "bytes \<Rightarrow> string outcome" where
  "decodeAAAAData data =
     (if length data \<noteq> 16 then Err (Errorf ''invalid AAAA record length: %d'')
      else if \<not> isIPv6 (Some data) then Err (Errorf ''invalid AAAA record IP: %v'')
      else Ret (ip_String (the (To16 data))))"

section \<open>NS, CNAME and PTR\<close>

definition encodeNSData :: "extern \<Rightarrow> string \<Rightarrow> bytes outcome" where
  "encodeNSData X data = encodeDomainName X data"

definition decodeNSData :: "bytes \<Rightarrow> string outcome" where
  "decodeNSData b = decodeDomainName b"

definition encodeCNAMEData :: "extern \<Rightarrow> string \<Rightarrow> bytes outcome" where
  "encodeCNAMEData X data = encodeDomainName X data"

definition decodeCNAMEData :: "bytes \<Rightarrow> string outcome" where
  "decodeCNAMEData b = decodeDomainName b"

definition encodePTRData :: "extern \<Rightarrow> string \<Rightarrow> bytes outcome" where
  "encodePTRData X data = encodeDomainName X data"

definition decodePTRData :: "bytes \<Rightarrow> string outcome" where
  "decodePTRData b = decodeDomainName b"

section \<open>SOA\<close>

text \<open>The loop over the numeric fields: the first that does not parse ends it.\<close>

fun encode_u32s :: "string list \<Rightarrow> bytes outcome" where
  "encode_u32s [] = Ret []"
| "encode_u32s (part # parts) =
     (case ParseUint part 32 of
        None \<Rightarrow> Err (Errorf ''invalid SOA field %d: %v'')
      | Some val \<Rightarrow> obind (encode_u32s parts) (\<lambda>rest. Ret (put32 (of_nat val) @ rest)))"

definition encodeSOAData :: "extern \<Rightarrow> string \<Rightarrow> bytes outcome" where
  "encodeSOAData X data =
     (let parts = Fields data
      in if length parts \<noteq> 7 then Err (Errorf ''invalid SOA record format (expected 7 fields): %s'')
         else obind (map_err (\<lambda>_. Errorf ''invalid SOA mname: %v'') (encodeDomainName X (parts ! 0)))
           (\<lambda>mname. obind (map_err (\<lambda>_. Errorf ''invalid SOA rname: %v'') (encodeDomainName X (parts ! 1)))
           (\<lambda>rname. obind (encode_u32s (drop 2 parts))
           (\<lambda>u32. Ret (mname @ rname @ u32)))))"

definition show_u32 :: "bytes \<Rightarrow> nat \<Rightarrow> string" where
  "show_u32 b i = show_nat (unat (get32 b i))"

definition decodeSOAData :: "bytes \<Rightarrow> string outcome" where
  "decodeSOAData b =
     (if length b < 25 then Err (Errorf ''invalid SOA data length: %d'')
      else obind (map_err (\<lambda>_. Errorf ''invalid SOA mname: %v'') (decodeDomainName b))
        (\<lambda>mname. let offset = length mname + 2 in
           if length b < offset then Panic SliceBoundsOutOfRange
           else obind (map_err (\<lambda>_. Errorf ''invalid SOA rname: %v'') (decodeDomainName (drop offset b)))
             (\<lambda>rname. let offset = offset + (length rname + 2) in
                if length b < offset then Panic SliceBoundsOutOfRange
                else if length (drop offset b) < 20 then Err (Errorf ''SOA record missing integer fields'')
                else Ret (Join ([mname, rname] @ map (\<lambda>i. show_u32 b (offset + i * 4)) [0, 1, 2, 3, 4]) '' ''))))"

section \<open>MX\<close>

definition encodeMXData :: "extern \<Rightarrow> string \<Rightarrow> bytes outcome" where
  "encodeMXData X data =
     (let parts = Fields data
      in if length parts \<noteq> 2 then Err (Errorf ''invalid MX record format (expected: preference domain): %s'')
         else (case Atoi (parts ! 0) of
             None \<Rightarrow> Err (Errorf ''invalid MX preference: %s'')
           | Some pref \<Rightarrow>
               if pref < 0 \<or> 65535 < pref then Err (Errorf ''invalid MX preference: %s'')
               else obind (map_err (\<lambda>_. Errorf ''invalid MX exchange domain: %s'') (encodeDomainName X (parts ! 1)))
                 (\<lambda>encodedDomain. Ret (put16 (of_int pref) @ encodedDomain))))"

definition decodeMXData :: "bytes \<Rightarrow> string outcome" where
  "decodeMXData b =
     (if length b < 2 then Err (Errorf ''invalid MX data length'')
      else obind (map_err (\<lambda>_. Errorf ''invalid MX exchange domain: %v'') (decodeDomainName (drop 2 b)))
        (\<lambda>domain. Ret (show_nat (unat (get16 b 0)) @ '' '' @ domain)))"

section \<open>TXT\<close>

fun encode_segments :: "string list \<Rightarrow> bytes outcome" where
  "encode_segments [] = Ret []"
| "encode_segments (segment # segments) =
     (let segment = TrimSpace segment
      in if segment = '''' then encode_segments segments
         else if 255 < length segment then Err (Errorf ''TXT segment too long: %d bytes'')
         else obind (encode_segments segments)
           (\<lambda>encoded. Ret (byte_len segment # bytes_of_string segment @ encoded)))"

definition encodeTXTData :: "string \<Rightarrow> bytes outcome" where
  "encodeTXTData data =
     obind (encode_segments (Split data CHR '';''))
       (\<lambda>encoded. if length encoded = 0 then Err (Errorf ''TXT record must contain at least one segment'')
          else Ret encoded)"

fun decode_segments :: "bytes \<Rightarrow> string list outcome" where
  "decode_segments [] = Ret []"
| "decode_segments (len # b) =
     (if len = 0 then Ret []
      else if length b < unat len then Err (Errorf ''invalid TXT record: segment length exceeds remaining data'')
      else obind (decode_segments (drop (unat len) b))
        (\<lambda>segments. Ret (string_of_bytes (take (unat len) b) # segments)))"

definition decodeTXTData :: "bytes \<Rightarrow> string outcome" where
  "decodeTXTData b = obind (decode_segments b) (\<lambda>segments. Ret (Join segments ''; ''))"

section \<open>SRV\<close>

fun encode_u16s :: "string list \<Rightarrow> bytes outcome" where
  "encode_u16s [] = Ret []"
| "encode_u16s (part # parts) =
     (case ParseUint part 16 of
        None \<Rightarrow> Err (Errorf ''invalid SRV field %d: %v'')
      | Some val \<Rightarrow> obind (encode_u16s parts) (\<lambda>rest. Ret (put16 (of_nat val) @ rest)))"

definition encodeSRVData :: "extern \<Rightarrow> string \<Rightarrow> bytes outcome" where
  "encodeSRVData X data =
     (let parts = Fields data
      in if length parts \<noteq> 4 then Err (Errorf ''invalid SRV record format (expected 4 fields): %s'')
         else obind (encode_u16s (take 3 parts))
           (\<lambda>buf. obind (map_err (\<lambda>_. Errorf ''invalid SRV target: %v'') (encodeDomainName X (parts ! 3)))
           (\<lambda>target. Ret (buf @ target))))"

definition decodeSRVData :: "extern \<Rightarrow> bytes \<Rightarrow> string outcome" where
  "decodeSRVData X data =
     (if length data < 6 then Err (Errorf ''invalid SRV record length: %d'')
      else
        let priority = get16 data 0; weight = get16 data 2; port = get16 data 4
        in obind (map_err (\<lambda>_. Errorf ''invalid SRV target: %v'') (decodeDomainName (drop 6 data)))
             (\<lambda>target. Ret (CanonicalDNSName X
                (Join [show_nat (unat priority), show_nat (unat weight), show_nat (unat port), target] '' ''))))"

section \<open>CAA\<close>

definition encodeCAAData :: "string \<Rightarrow> bytes outcome" where
  "encodeCAAData data =
     (let parts = Fields data
      in if length parts < 3 then Err (Errorf ''invalid CAA record format (expected: flag tag value): %s'')
         else (case ParseUint (parts ! 0) 8 of
             None \<Rightarrow> Err (Errorf ''invalid CAA flag: %v'')
           | Some flag \<Rightarrow>
               let tag = parts ! 1 in
               if 255 < length tag then Err (Errorf ''CAA tag too long'')
               else
                 let rawValue = Join (drop 2 parts) '' '';
                     val = TrimChar rawValue CHR 0x22
                 in if 255 < length val then Err (Errorf ''CAA value too long'')
                    else Ret ([of_nat flag, byte_len tag] @ bytes_of_string tag @ bytes_of_string val)))"

text \<open>
  \<open>2+tagLen\<close> is a sum of bytes and wraps; the slice \<open>data[2 : 2+tagLen]\<close> panics when the
  sum is below 2.
\<close>

definition decodeCAAData :: "bytes \<Rightarrow> string outcome" where
  "decodeCAAData data =
     (if length data < 2 then Err (Errorf ''invalid CAA record length: %d'')
      else
        let flag = data ! 0; tagLen = data ! 1; end = unat (2 + tagLen)
        in if length data < end then Err (Errorf ''invalid CAA tag length: %d'')
           else if end < 2 then Panic SliceBoundsOutOfRange
           else
             let tag = string_of_bytes (take (end - 2) (drop 2 data));
                 val = string_of_bytes (drop end data)
             in Ret (show_nat (unat flag) @ '' '' @ tag @ '' '' @ [CHR 0x22] @ val @ [CHR 0x22]))"

section \<open>Dispatch (encoding.go, decoding.go)\<close>

definition encoderNotImplemented :: "rr_type \<Rightarrow> bytes outcome" where
  "encoderNotImplemented t = Err (Errorf ''%s record encoding not implemented yet'')"

definition decoderNotImplemented :: "rr_type \<Rightarrow> string outcome" where
  "decoderNotImplemented t = Err (Errorf ''%s record decoding not implemented yet'')"

definition not_implemented_types :: "rr_type list" where
  "not_implemented_types =
     [RRTypeNAPTR, RRTypeOPT, RRTypeDS, RRTypeRRSIG, RRTypeNSEC, RRTypeDNSKEY, RRTypeTLSA,
      RRTypeSVCB, RRTypeHTTPS]"

definition Encode :: "extern \<Rightarrow> rr_type \<Rightarrow> string \<Rightarrow> bytes outcome" where
  "Encode X rrType data =
     (if rrType = RRTypeA then encodeAData data
      else if rrType = RRTypeNS then encodeNSData X data
      else if rrType = RRTypeCNAME then encodeCNAMEData X data
      else if rrType = RRTypeSOA then encodeSOAData X data
      else if rrType = RRTypePTR then encodePTRData X data
      else if rrType = RRTypeMX then encodeMXData X data
      else if rrType = RRTypeTXT then encodeTXTData data
      else if rrType = RRTypeAAAA then encodeAAAAData data
      else if rrType = RRTypeSRV then encodeSRVData X data
      else if rrType \<in> set not_implemented_types then encoderNotImplemented rrType
      else if rrType = RRTypeCAA then encodeCAAData data
      else Ret (bytes_of_string data))"

definition Decode :: "extern \<Rightarrow> rr_type \<Rightarrow> bytes \<Rightarrow> string outcome" where
  "Decode X rrType data =
     (if rrType = RRTypeA then decodeAData data
      else if rrType = RRTypeNS then decodeNSData data
      else if rrType = RRTypeCNAME then decodeCNAMEData data
      else if rrType = RRTypeSOA then decodeSOAData data
      else if rrType = RRTypePTR then decodePTRData data
      else if rrType = RRTypeMX then decodeMXData data
      else if rrType = RRTypeTXT then decodeTXTData data
      else if rrType = RRTypeAAAA then decodeAAAAData data
      else if rrType = RRTypeSRV then decodeSRVData X data
      else if rrType \<in> set not_implemented_types then decoderNotImplemented rrType
      else if rrType = RRTypeCAA then decodeCAAData data
      else Ret (string_of_bytes data))"

section \<open>Facts about names\<close>

text \<open>The text a name has on the wire: its canonical form without empty labels.\<close>

definition wire_labels :: "string \<Rightarrow> string list" where
  "wire_labels name = filter (\<lambda>l. l \<noteq> []) (Split name CHR ''.'')"

definition normal_name :: "extern \<Rightarrow> string \<Rightarrow> string" where
  "normal_name X name = Join (wire_labels (CanonicalDNSName X name)) ''.''"

lemma decode_encode_labels:
  "encode_labels ls = Ret b \<Longrightarrow> decode_labels (b @ 0 # rest) = Ret (filter (\<lambda>l. l \<noteq> []) ls)"
proof (induction ls arbitrary: b)
  case (Cons l ls)
  show ?case
  proof (cases "length l = 0")
    case True
    with Cons show ?thesis by simp
  next
    case False
    with Cons.prems obtain r where "length l \<le> 63" "encode_labels ls = Ret r"
        "b = byte_len l # bytes_of_string l @ r"
      by (auto simp: obind_eq_Ret split: if_splits)
    with False Cons.IH [of r] show ?thesis by (simp add: unat_byte_len)
  qed
qed simp

lemma encode_labels_no_panic [simp]: "\<not> panics (encode_labels ls)"
  by (induction ls) (auto simp: panics_obind)

lemma decode_labels_no_panic [simp]: "\<not> panics (decode_labels b)"
  by (induction b rule: decode_labels.induct) (auto simp: panics_obind)

lemma encodeDomainName_no_panic [simp]: "\<not> panics (encodeDomainName X n)"
  by (simp add: encodeDomainName_def Let_def panics_obind)

lemma decodeDomainName_no_panic [simp]: "\<not> panics (decodeDomainName b)"
  by (simp add: decodeDomainName_def panics_obind)

lemma decodeDomainName_not_Panic [simp]: "decodeDomainName b \<noteq> Panic p"
  using decodeDomainName_no_panic [of b] by (metis panics_simps(3))

lemma decode_encodeDomainName:
  "encodeDomainName X n = Ret b \<Longrightarrow> decodeDomainName (b @ rest) = Ret (normal_name X n)"
  by (auto simp: encodeDomainName_def decodeDomainName_def obind_eq_Ret Let_def normal_name_def
      wire_labels_def decode_encode_labels)

lemma decode_encodeDomainName0:
  "encodeDomainName X n = Ret b \<Longrightarrow> decodeDomainName b = Ret (normal_name X n)"
  using decode_encodeDomainName [of X n b "[]"] by simp

lemma encode_labels_length:
  "encode_labels ls = Ret b \<Longrightarrow> length b = sum_list (map (\<lambda>l. length l + 1) (filter (\<lambda>l. l \<noteq> []) ls))"
  by (induction ls arbitrary: b) (auto simp: obind_eq_Ret split: if_splits)

lemma encodeDomainName_length:
  assumes "encodeDomainName X n = Ret b"
  shows "length b = (if normal_name X n = [] then 1 else length (normal_name X n) + 2)"
proof -
  let ?ls = "wire_labels (CanonicalDNSName X n)"
  obtain e where e: "encode_labels (Split (CanonicalDNSName X n) CHR ''.'') = Ret e" "b = e @ [0]"
    using assms by (auto simp: encodeDomainName_def Let_def obind_eq_Ret)
  have len: "length e = sum_list (map (\<lambda>l. length l + 1) ?ls)"
    using encode_labels_length [OF e(1)] by (simp add: wire_labels_def)
  show ?thesis
  proof (cases "?ls = []")
    case True
    with len e show ?thesis by (simp add: normal_name_def)
  next
    case False
    then have "length (normal_name X n) + 1 = length e"
      using length_Join_singleton [OF False] len by (simp add: normal_name_def)
    moreover have "0 < length (normal_name X n)"
      using False by (cases ?ls; cases "tl ?ls") (auto simp: normal_name_def wire_labels_def filter_eq_Cons_iff Join_Cons)
    ultimately show ?thesis using e by simp
  qed
qed

end
