(* ===== verification/Wire.thy ===== *)
theory Wire
  imports Domain RRData
begin

text \<open>
  \<open>internal/dns/gateways/wire\<close>: the codec for DNS messages over UDP (\<open>udp_codec.go\<close>,
  \<open>question.go\<close>), which implements the \<open>DNSCodec\<close> interface of \<open>codec.go\<close>. A
  \<open>bytes.Buffer\<close> that is written in order is the concatenation of what is written. The
  codec's logger has no part in the result and is left out.

  \<open>decodeName\<close> follows compression pointers by calling itself and nothing bounds the
  depth, so it is a \<open>partial_function\<close> whose value \<open>None\<close> is a call that does not
  return; so are the decoders that call it.
\<close>

section \<open>Names\<close>

text \<open>
  The loop of \<open>decodeName\<close>: \<open>labels\<close> are the labels read so far. A length byte with its
  two top bits set starts a pointer, whose target is decoded by a recursive call.
\<close>

partial_function (option) decodeName_loop ::
    "bytes \<Rightarrow> nat \<Rightarrow> string list \<Rightarrow> (string \<times> nat) outcome option" where
  "decodeName_loop data offset labels =
     (if length data \<le> offset then Some (Err (Errorf ''offset out of bounds''))
      else if data ! offset = 0 then Some (Ret (Join labels ''.'', offset + 1))
      else if data ! offset AND 0xC0 = 0xC0 then
        (if length data \<le> offset + 1 then Some (Err (Errorf ''compression pointer out of bounds''))
         else Option.bind (decodeName_loop data (unat (get16 data offset AND 0x3FFF)) [])
           (\<lambda>r. Some (obind r (\<lambda>(suffix, _). Ret (Join (labels @ [suffix]) ''.'', offset + 2)))))
      else if length data < offset + 1 + unat (data ! offset) then Some (Err (Errorf ''label length out of bounds''))
      else decodeName_loop data (offset + 1 + unat (data ! offset))
             (labels @ [string_of_bytes (take (unat (data ! offset)) (drop (offset + 1) data))]))"

declare decodeName_loop.simps [code]

definition decodeName :: "bytes \<Rightarrow> nat \<Rightarrow> (string \<times> nat) outcome option" where
  "decodeName data offset = decodeName_loop data offset []"

fun label_loop :: "string list \<Rightarrow> bytes outcome" where
  "label_loop [] = Ret []"
| "label_loop (label # labels) =
     (if 63 < length label then Err (Errorf ''label too long: %s'')
      else obind (label_loop labels) (\<lambda>rest. Ret (byte_len label # bytes_of_string label @ rest)))"

definition wire_encodeDomainName :: "string \<Rightarrow> bytes outcome" where
  "wire_encodeDomainName name =
     (if name = '''' then Ret [0]
      else obind (label_loop (Split name CHR ''.'')) (\<lambda>b. Ret (b @ [0])))"

section \<open>Queries\<close>

fun query_label_loop :: "string list \<Rightarrow> bytes outcome" where
  "query_label_loop [] = Ret []"
| "query_label_loop (label # labels) =
     (if 63 < length label then Err (Errorf ''label too long: %s'')
      else if 0 < length label then
        obind (query_label_loop labels) (\<lambda>rest. Ret (byte_len label # bytes_of_string label @ rest))
      else query_label_loop labels)"

definition EncodeQuery :: "question \<Rightarrow> bytes outcome" where
  "EncodeQuery q =
     (let header = put16 (q_ID q) @ put16 0x0100 @ put16 1 @ put16 0 @ put16 0 @ put16 0;
          name = TrimSuffix (q_Name q) ''.'';
          labels = Split name CHR ''.''
      in obind (query_label_loop labels)
           (\<lambda>qname. Ret (header @ qname @ [0] @ put16 (q_Type q) @ put16 (q_Class q))))"

definition decodeQuestion :: "bytes \<Rightarrow> nat \<Rightarrow> (string \<times> 16 word \<times> 16 word \<times> nat) outcome option" where
  "decodeQuestion data offset =
     dbind (decodeName data offset) (\<lambda>(name, newOffset).
       if length data < newOffset + 4 then Some (Err (Errorf ''truncated question fields''))
       else Some (Ret (name, get16 data newOffset, get16 data (newOffset + 2), newOffset + 4)))"

definition DecodeQuery :: "bytes \<Rightarrow> question outcome option" where
  "DecodeQuery data =
     (if length data < 12 then Some (Err (Errorf ''query too short''))
      else let qid = get16 data 0; qdCount = get16 data 4 in
        if qdCount \<noteq> 1 then Some (Err (Errorf ''expected exactly one question''))
        else dbind (decodeQuestion data 12) (\<lambda>(name, qtype, qclass, _).
          Some (Ret \<lparr>q_ID = qid, q_Name = name, q_Type = qtype, q_Class = qclass\<rparr>)))"

section \<open>Encoding a response\<close>

text \<open>
  The loop over the answers: \<open>first\<close> is \<open>resp.Answers[0].Name\<close>, and \<open>clk i\<close> the reading
  of the system clock that \<open>TTLRemaining\<close> takes for the answer of index \<open>i\<close>.
\<close>

definition qname_pointer :: bytes where
  "qname_pointer = (let qnameOffset = 12 :: nat
     in [0xC0 OR of_nat (qnameOffset div 256), of_nat (qnameOffset mod 256)])"

fun encode_answers :: "(nat \<Rightarrow> time) \<Rightarrow> string \<Rightarrow> nat \<Rightarrow> resource_record list \<Rightarrow> bytes outcome" where
  "encode_answers clk first i [] = Ret []"
| "encode_answers clk first i (rr # rrs) =
     obind (if rr_Name rr = first then Ret qname_pointer else wire_encodeDomainName (rr_Name rr))
       (\<lambda>name.
         if 65535 < length (rr_Data rr) then Err (Errorf ''resource record data too large: %d bytes (max 65535)'')
         else obind (encode_answers clk first (i + 1) rrs)
           (\<lambda>rest. Ret (name @ put16 (rr_Type rr) @ put16 (rr_Class rr)
              @ put32 (uint32_Seconds (TTLRemaining rr (clk i)))
              @ put16 (of_nat (length (rr_Data rr))) @ rr_Data rr @ rest)))"

definition EncodeResponse :: "(nat \<Rightarrow> time) \<Rightarrow> dns_response \<Rightarrow> bytes outcome" where
  "EncodeResponse clk resp =
     (let answerCount = length (resp_Answers resp) in
      if 65535 < answerCount then Err (Errorf ''too many answer records: %d (max 65535)'')
      else
        let header = put16 (resp_ID resp) @ put16 0x8180 @ put16 1 @ put16 (of_nat answerCount)
              @ put16 0 @ put16 0
        in obind (wire_encodeDomainName (q_Name (resp_Question resp)))
             (\<lambda>qname. obind (encode_answers clk (rr_Name (hd (resp_Answers resp))) 0 (resp_Answers resp))
             (\<lambda>answers. Ret (header @ qname @ put16 (q_Type (resp_Question resp))
                @ put16 (q_Class (resp_Question resp)) @ answers))))"

section \<open>Decoding a response\<close>

text \<open>
  The loop that skips the name of a question. It does not know compression pointers. The
  offset may pass the end of the data, which the next check catches.
\<close>

function skip_name :: "bytes \<Rightarrow> nat \<Rightarrow> nat outcome" where
  "skip_name data offset =
     (if length data \<le> offset then Err (Errorf ''truncated question name'')
      else if data ! offset = 0 then Ret (offset + 1)
      else skip_name data (offset + 1 + unat (data ! offset)))"
  by pat_completeness auto
termination
  by (relation "measure (\<lambda>(data, offset). length data - offset)") auto

declare skip_name.simps [simp del]

fun skip_questions :: "bytes \<Rightarrow> nat \<Rightarrow> nat \<Rightarrow> nat outcome" where
  "skip_questions data 0 offset = Ret offset"
| "skip_questions data (Suc n) offset =
     obind (skip_name data offset) (\<lambda>offset. skip_questions data n (offset + 4))"

definition parseResourceRecord ::
    "extern \<Rightarrow> bytes \<Rightarrow> nat \<Rightarrow> time \<Rightarrow> (resource_record \<times> nat) outcome option" where
  "parseResourceRecord X data offset now =
     (if length data < offset + 10 then Some (Err (Errorf ''truncated record section''))
      else dbind (map_option (map_err (Wrapf ''failed to decode record name: %w'')) (decodeName data offset))
        (\<lambda>(name, offset).
          if length data < offset + 10 then Some (Err (Errorf ''truncated record section after name''))
          else
            let rrtype = get16 data offset; rrclass = get16 data (offset + 2);
                ttl = get32 data (offset + 4); rdLen = unat (get16 data (offset + 8));
                offset = offset + 10
            in if length data < offset + rdLen then Some (Err (Errorf ''truncated rdata''))
               else let rdata = take rdLen (drop offset data) in
                 Some (obind (map_err (Wrapf ''failed to decode rdata: %w'') (Decode X rrtype rdata))
                   (\<lambda>txt. obind (map_err (Wrapf ''invalid resource record: %w'')
                       (NewCachedResourceRecord X name rrtype rrclass ttl rdata txt now))
                   (\<lambda>rr. Ret (rr, offset + rdLen))))))"

text \<open>The loop over one section; \<open>msg\<close> is the section's error message.\<close>

fun parse_section ::
    "extern \<Rightarrow> time \<Rightarrow> bytes \<Rightarrow> string \<Rightarrow> nat \<Rightarrow> nat \<Rightarrow> (resource_record list \<times> nat) outcome option" where
  "parse_section X now data msg 0 offset = Some (Ret ([], offset))"
| "parse_section X now data msg (Suc n) offset =
     dbind (map_option (map_err (Wrapf msg)) (parseResourceRecord X data offset now))
       (\<lambda>(rr, newOffset). dbind (parse_section X now data msg n newOffset)
       (\<lambda>(rrs, end). Some (Ret (rr # rrs, end))))"

definition DecodeResponse :: "extern \<Rightarrow> bytes \<Rightarrow> 16 word \<Rightarrow> time \<Rightarrow> dns_response outcome option" where
  "DecodeResponse X data expectedID now =
     (if length data < 12 then Some (Err (Errorf ''response too short''))
      else let rid = get16 data 0 in
        if rid \<noteq> expectedID then Some (Err (Errorf ''ID mismatch: expected %d, got %d''))
        else
          let flags = get16 data 2;
              rcode = ucast (flags AND 0x000F);
              qdCount = get16 data 4; anCount = get16 data 6;
              nsCount = get16 data 8; arCount = get16 data 10
          in dbind (Some (skip_questions data (unat qdCount) 12))
             (\<lambda>offset. dbind (parse_section X now data ''failed to parse answer record %d: %w'' (unat anCount) offset)
             (\<lambda>(answers, offset). dbind (parse_section X now data ''failed to parse authority record %d: %w'' (unat nsCount) offset)
             (\<lambda>(authority, offset). dbind (parse_section X now data ''failed to parse additional record %d: %w'' (unat arCount) offset)
             (\<lambda>(additional, _). Some (Ret
               \<lparr>resp_ID = rid, resp_RCode = rcode, resp_Question = zero_question,
                resp_Answers = answers, resp_Authority = authority, resp_Additional = additional\<rparr>))))))"

section \<open>Facts about names\<close>

text \<open>The bytes of a list of labels, and the names whose labels are all non-empty.\<close>

definition enc_labels :: "string list \<Rightarrow> bytes" where
  "enc_labels ls = concat (map (\<lambda>l. byte_len l # bytes_of_string l) ls)"

definition label_ok :: "string \<Rightarrow> bool" where
  "label_ok l \<longleftrightarrow> l \<noteq> [] \<and> length l \<le> 63"

definition wf_name :: "string \<Rightarrow> bool" where
  "wf_name n \<longleftrightarrow> n = [] \<or> [] \<notin> set (Split n CHR ''.'')"

lemma enc_labels_simps [simp]:
  "enc_labels [] = []" "enc_labels (l # ls) = byte_len l # bytes_of_string l @ enc_labels ls"
  by (simp_all add: enc_labels_def)

lemma label_ok_length: "label_ok l \<Longrightarrow> unat (byte_len l) = length l \<and> byte_len l \<noteq> 0"
  by (auto simp: label_ok_def unat_byte_len)

lemma small_no_pointer: "unat (w :: byte) < 64 \<Longrightarrow> w AND 0xC0 \<noteq> 0xC0"
proof
  assume w: "unat w < 64" and eq: "w AND 0xC0 = 0xC0"
  have "w AND 0xC0 \<le> w" by (rule word_and_le2)
  then have "unat (0xC0 :: byte) \<le> unat w" using eq by (simp add: word_le_nat_alt)
  with w show False by simp
qed

lemma query_label_loop_Ret:
  "query_label_loop ls = Ret b \<Longrightarrow>
     b = enc_labels (filter (\<lambda>l. l \<noteq> []) ls) \<and> (\<forall>l \<in> set (filter (\<lambda>l. l \<noteq> []) ls). label_ok l)"
  by (induction ls arbitrary: b) (auto simp: obind_eq_Ret label_ok_def split: if_splits)

lemma label_loop_Ret:
  "label_loop ls = Ret b \<Longrightarrow> b = enc_labels ls \<and> (\<forall>l \<in> set ls. length l \<le> 63)"
  by (induction ls arbitrary: b) (auto simp: obind_eq_Ret split: if_splits)

lemma wire_name_Ret:
  assumes "wire_encodeDomainName n = Ret b" and "wf_name n"
  shows "\<exists>ls. b = enc_labels ls @ [0] \<and> (\<forall>l \<in> set ls. label_ok l) \<and> Join ls ''.'' = n"
proof (cases "n = []")
  case True
  with assms show ?thesis by (intro exI [of _ "[]"]) (auto simp: wire_encodeDomainName_def)
next
  case False
  with assms show ?thesis
    by (intro exI [of _ "Split n CHR ''.''"])
      (auto simp: wire_encodeDomainName_def wf_name_def obind_eq_Ret label_ok_def dest!: label_loop_Ret)
qed

text \<open>Decoding labels that were written without compression\<close>

lemma decodeName_loop_labels:
  "\<forall>l \<in> set ls. label_ok l \<Longrightarrow>
     decodeName_loop (pre @ enc_labels ls @ 0 # post) (length pre) acc
       = Some (Ret (Join (acc @ ls) ''.'', length pre + length (enc_labels ls) + 1))"
proof (induction ls arbitrary: pre acc)
  case Nil
  then show ?case by (subst decodeName_loop.simps) (simp add: nth_append)
next
  case (Cons l ls)
  let ?d = "pre @ enc_labels (l # ls) @ 0 # post" and ?p = "pre @ byte_len l # bytes_of_string l"
  have l: "unat (byte_len l) = length l" "byte_len l \<noteq> 0" "length l < 64"
    using Cons.prems label_ok_length [of l] by (auto simp: label_ok_def)
  have at: "?d ! length pre = byte_len l" by (simp add: nth_append)
  have np: "byte_len l AND 0xC0 \<noteq> 0xC0" using l by (intro small_no_pointer) simp
  have split: "?d = ?p @ enc_labels ls @ 0 # post" by simp
  have "decodeName_loop ?d (length pre) acc = decodeName_loop ?d (length ?p) (acc @ [l])"
    by (subst decodeName_loop.simps) (simp add: at l np)
  also have "\<dots> = Some (Ret (Join ((acc @ [l]) @ ls) ''.'', length ?p + length (enc_labels ls) + 1))"
    unfolding split using Cons.prems by (intro Cons.IH) simp
  finally show ?case by simp
qed

lemma decodeName_labels:
  "\<forall>l \<in> set ls. label_ok l \<Longrightarrow> off = length pre \<Longrightarrow>
     decodeName (pre @ enc_labels ls @ 0 # post) off
       = Some (Ret (Join ls ''.'', length pre + length (enc_labels ls) + 1))"
  using decodeName_loop_labels [of ls pre post "[]"] by (simp add: decodeName_def)

lemma skip_name_labels:
  "\<forall>l \<in> set ls. label_ok l \<Longrightarrow> off = length pre \<Longrightarrow>
     skip_name (pre @ enc_labels ls @ 0 # post) off = Ret (length pre + length (enc_labels ls) + 1)"
proof (induction ls arbitrary: pre off)
  case Nil
  then show ?case by (subst skip_name.simps) (simp add: nth_append)
next
  case (Cons l ls)
  let ?d = "pre @ enc_labels (l # ls) @ 0 # post" and ?p = "pre @ byte_len l # bytes_of_string l"
  have l: "unat (byte_len l) = length l" "byte_len l \<noteq> 0"
    using Cons.prems label_ok_length [of l] by auto
  have at: "?d ! length pre = byte_len l" by (simp add: nth_append)
  have split: "?d = ?p @ enc_labels ls @ 0 # post" by simp
  have "skip_name ?d off = skip_name ?d (length ?p)"
    by (subst skip_name.simps) (simp add: at l Cons.prems)
  also have "\<dots> = Ret (length ?p + length (enc_labels ls) + 1)"
    unfolding split using Cons.prems by (intro Cons.IH) auto
  finally show ?case by simp
qed

section \<open>No panics\<close>

lemma skip_name_no_panic [simp]: "skip_name data offset \<noteq> Panic p"
proof (induction data offset rule: skip_name.induct)
  case (1 data offset)
  then show ?case by (subst skip_name.simps) auto
qed

lemma skip_questions_no_panic [simp]: "skip_questions data n offset \<noteq> Panic p"
proof (induction n arbitrary: offset)
  case (Suc n)
  then show ?case by (cases "skip_name data offset") auto
qed simp

lemma decodeName_loop_no_panic:
  assumes "decodeName_loop data offset labels = Some r"
  shows "\<forall>p. r \<noteq> Panic p"
proof (rule decodeName_loop.raw_induct [where P = "\<lambda>_ _ _ r. \<forall>p. r \<noteq> Panic p", OF _ assms])
  fix f data offset labels r
  assume IH: "\<And>data offset labels r. f data offset labels = Some r \<Longrightarrow> \<forall>p. r \<noteq> Panic p"
    and eq: "(if length data \<le> offset then Some (Err (Errorf ''offset out of bounds''))
      else if data ! offset = 0 then Some (Ret (Join labels ''.'', offset + 1))
      else if data ! offset AND 0xC0 = 0xC0 then
        (if length data \<le> offset + 1 then Some (Err (Errorf ''compression pointer out of bounds''))
         else Option.bind (f data (unat (get16 data offset AND 0x3FFF)) [])
           (\<lambda>r. Some (obind r (\<lambda>(suffix, _). Ret (Join (labels @ [suffix]) ''.'', offset + 2)))))
      else if length data < offset + 1 + unat (data ! offset) then Some (Err (Errorf ''label length out of bounds''))
      else f data (offset + 1 + unat (data ! offset))
             (labels @ [string_of_bytes (take (unat (data ! offset)) (drop (offset + 1) data))])) = Some r"
  show "\<forall>p. r \<noteq> Panic p"
  proof (cases "\<exists>s. f data (unat (get16 data offset AND 0x3FFF)) [] = Some s")
    case True
    then obtain s where s: "f data (unat (get16 data offset AND 0x3FFF)) [] = Some s" by blast
    then show ?thesis using eq IH [OF s] IH by (cases s) (auto split: if_splits)
  next
    case False
    then show ?thesis using eq IH by (auto split: if_splits)
  qed
qed

lemma decodeName_no_panic [simp]: "decodeName data offset \<noteq> Some (Panic p)"
  using decodeName_loop_no_panic [of data offset "[]"] by (auto simp: decodeName_def)

end
