(* ===== verification/RRDataRoundtrip.thy ===== *)
theory RRDataRoundtrip
  imports RRData
begin

text \<open>
  What \<open>rrdata.Encode\<close> and \<open>rrdata.Decode\<close> promise together: decoding what was
  encoded gives the normal form of the text, per record type; which calls can panic; and
  what a decoder does with a compressed name.
\<close>

section \<open>Numbers\<close>

lemma ParseUint_Some: "ParseUint s n = Some v \<longleftrightarrow> s \<noteq> [] \<and> list_all is_digit s \<and> v = dec_value s \<and> v < 2 ^ n"
  by (auto simp: ParseUint_def)

lemma encode_u32s_no_panic [simp]: "\<not> panics (encode_u32s ps)"
  by (induction ps) (auto simp: panics_obind split: option.splits)

lemma encode_u16s_no_panic [simp]: "\<not> panics (encode_u16s ps)"
  by (induction ps) (auto simp: panics_obind split: option.splits)

lemma encode_u32s_Cons: "encode_u32s (p # ps) = Ret r \<longleftrightarrow>
    (\<exists>s. ParseUint p 32 = Some (dec_value p) \<and> encode_u32s ps = Ret s \<and> r = put32 (of_nat (dec_value p)) @ s)"
proof (cases "ParseUint p 32")
  case (Some v)
  then have "v = dec_value p" by (simp add: ParseUint_Some)
  with Some show ?thesis by (auto simp: obind_eq_Ret)
qed simp

lemma encode_u16s_Cons: "encode_u16s (p # ps) = Ret r \<longleftrightarrow>
    (\<exists>s. ParseUint p 16 = Some (dec_value p) \<and> encode_u16s ps = Ret s \<and> r = put16 (of_nat (dec_value p)) @ s)"
proof (cases "ParseUint p 16")
  case (Some v)
  then have "v = dec_value p" by (simp add: ParseUint_Some)
  with Some show ?thesis by (auto simp: obind_eq_Ret)
qed simp

lemma encode_u32s_Nil: "encode_u32s [] = Ret r \<longleftrightarrow> r = []"
  by auto

lemma encode_u16s_Nil: "encode_u16s [] = Ret r \<longleftrightarrow> r = []"
  by auto

lemma unat_of_nat32: "ParseUint p 32 = Some (dec_value p) \<Longrightarrow> unat (of_nat (dec_value p) :: 32 word) = dec_value p"
  by (simp add: ParseUint_Some unsigned_of_nat take_bit_nat_eq_self)

lemma unat_of_nat16: "ParseUint p 16 = Some (dec_value p) \<Longrightarrow> unat (of_nat (dec_value p) :: 16 word) = dec_value p"
  by (simp add: ParseUint_Some unsigned_of_nat take_bit_nat_eq_self)

lemmas numeric_fields = encode_u32s_Cons encode_u16s_Cons encode_u32s_Nil encode_u16s_Nil
  be_simps unat_of_nat32 unat_of_nat16 show_u32_def

lemma length2: "length xs = 2 \<longleftrightarrow> (\<exists>a b. xs = [a, b])"
  by (auto simp: numeral_2_eq_2 length_Suc_conv)

lemma length4: "length xs = 4 \<longleftrightarrow> (\<exists>a b c d. xs = [a, b, c, d])"
  by (auto simp: numeral_eq_Suc length_Suc_conv)

lemma length7: "length xs = 7 \<longleftrightarrow> (\<exists>a b c d e f g. xs = [a, b, c, d, e, f, g])"
  by (auto simp: numeral_eq_Suc length_Suc_conv)

section \<open>Round trips\<close>

text \<open>
  Any text that encodes as a domain name (the RDATA of NS, CNAME and PTR records)
  decodes to its canonical form without empty labels, whatever bytes follow the name.
\<close>

theorem domain_name_roundtrip:
  assumes "t \<in> {RRTypeNS, RRTypeCNAME, RRTypePTR}" and "Encode X t s = Ret b"
  shows "Decode X t (b @ rest) = Ret (normal_name X s)"
  using assms
  by (auto simp: Encode_def Decode_def encodeNSData_def decodeNSData_def encodeCNAMEData_def
      decodeCNAMEData_def encodePTRData_def decodePTRData_def decode_encodeDomainName)

theorem domain_name_roundtrip_witness:
  "Encode sample_extern RRTypeNS ''a.B.'' = Ret [1, 0x61, 1, 0x62, 0]
   \<and> Decode sample_extern RRTypeNS [1, 0x61, 1, 0x62, 0, 7] = Ret ''a.b''"
proof -
  have e: "Encode sample_extern RRTypeNS ''a.B.'' = Ret [1, 0x61, 1, 0x62, 0]" by code_simp
  moreover have "normal_name sample_extern ''a.B.'' = ''a.b''" by code_simp
  ultimately show ?thesis using domain_name_roundtrip [OF _ e, of "[7]"] by simp
qed

text \<open>
  An MX text has two fields, a preference from 0 to 65535 and a name, and its encoding
  decodes to the preference in plain decimal and the normal form of the name.
\<close>

theorem mx_roundtrip:
  assumes "encodeMXData X data = Ret b"
  shows "\<exists>p d v. Fields data = [p, d] \<and> Atoi p = Some v \<and> 0 \<le> v \<and> v \<le> 65535
    \<and> decodeMXData b = Ret (show_nat (nat v) @ '' '' @ normal_name X d)"
proof -
  obtain p d v e where f: "Fields data = [p, d]" "Atoi p = Some v" "0 \<le> v" "v \<le> 65535"
      and e: "encodeDomainName X d = Ret e" "b = put16 (of_int v) @ e"
    using assms
    by (auto simp: encodeMXData_def Let_def length2 obind_eq_Ret split: if_splits option.splits)
  have "unat (of_int v :: 16 word) = nat v"
    using f(3,4) by (simp add: unsigned_of_int take_bit_int_eq_self)
  then have "decodeMXData b = Ret (show_nat (nat v) @ '' '' @ normal_name X d)"
    using e by (simp add: decodeMXData_def decode_encodeDomainName0 be_simps)
  with f show ?thesis by blast
qed

theorem mx_roundtrip_witness:
  "encodeMXData sample_extern ''1 a'' = Ret [0, 1, 1, 0x61, 0]
   \<and> decodeMXData [0, 1, 1, 0x61, 0] = Ret ''1 a''"
proof -
  have e: "encodeMXData sample_extern ''1 a'' = Ret [0, 1, 1, 0x61, 0]" by code_simp
  moreover have "Fields ''1 a'' = [''1'', ''a'']" "Atoi ''1'' = Some 1" "show_nat 1 = ''1''"
      "normal_name sample_extern ''a'' = ''a''" by code_simp+
  ultimately show ?thesis using mx_roundtrip [OF e] by auto
qed

text \<open>
  An SRV text has four fields, and its encoding decodes to priority, weight and port
  in plain decimal and the normal form of the target, as one canonicalised string.
\<close>

theorem srv_roundtrip:
  assumes "encodeSRVData X data = Ret b"
  shows "\<exists>p w q d. Fields data = [p, w, q, d]
    \<and> decodeSRVData X b = Ret (CanonicalDNSName X
        (Join [show_nat (dec_value p), show_nat (dec_value w), show_nat (dec_value q), normal_name X d] '' ''))"
proof -
  obtain p w q d where f: "Fields data = [p, w, q, d]"
    using assms by (auto simp: encodeSRVData_def Let_def length4 split: if_splits)
  obtain e where v: "ParseUint p 16 = Some (dec_value p)" "ParseUint w 16 = Some (dec_value w)"
      "ParseUint q 16 = Some (dec_value q)" and e: "encodeDomainName X d = Ret e"
      and b: "b = put16 (of_nat (dec_value p)) @ put16 (of_nat (dec_value w)) @ put16 (of_nat (dec_value q)) @ e"
    using assms f
    by (auto simp: encodeSRVData_def Let_def obind_eq_Ret numeric_fields numeral_eq_Suc
        simp del: encode_u16s.simps)
  have "decodeSRVData X b = Ret (CanonicalDNSName X
      (Join [show_nat (dec_value p), show_nat (dec_value w), show_nat (dec_value q), normal_name X d] '' ''))"
    using v e by (simp add: decodeSRVData_def b Let_def numeric_fields decode_encodeDomainName0)
  with f show ?thesis by blast
qed

theorem srv_roundtrip_witness:
  "\<exists>b. encodeSRVData sample_extern ''1 2 3 a'' = Ret b \<and> decodeSRVData sample_extern b = Ret ''1 2 3 a''"
proof -
  have "is_ret (encodeSRVData sample_extern ''1 2 3 a'')" by code_simp
  then obtain b where e: "encodeSRVData sample_extern ''1 2 3 a'' = Ret b"
    by (cases "encodeSRVData sample_extern ''1 2 3 a''") auto
  moreover have "Fields ''1 2 3 a'' = [''1'', ''2'', ''3'', ''a'']"
      "CanonicalDNSName sample_extern (Join [show_nat (dec_value ''1''), show_nat (dec_value ''2''),
        show_nat (dec_value ''3''), normal_name sample_extern ''a''] '' '') = ''1 2 3 a''" by code_simp+
  ultimately show ?thesis using srv_roundtrip [OF e] by auto
qed

lemma decodeSOAData_eq:
  assumes "25 \<le> length b" and "decodeDomainName b = Ret m" and "off1 = length m + 2"
    and "decodeDomainName (drop off1 b) = Ret r" and "off2 = off1 + (length r + 2)" and "off2 + 20 \<le> length b"
  shows "decodeSOAData b = Ret (Join ([m, r] @ map (\<lambda>i. show_u32 b (off2 + i * 4)) [0, 1, 2, 3, 4]) '' '')"
proof -
  have "\<not> length b < 25" "\<not> length b < off1" "\<not> length b < off2" "\<not> length (drop off2 b) < 20"
    using assms(1,5,6) by simp_all
  then show ?thesis
    using assms(2,4) unfolding decodeSOAData_def Let_def
    by (simp only: if_False obind.simps map_err.simps assms(3) [symmetric] assms(5) [symmetric])
qed

text \<open>
  An SOA text whose two names are not the root decodes, after encoding, to the normal
  forms of the names and the five numbers in plain decimal.
\<close>

theorem soa_roundtrip:
  assumes enc: "encodeSOAData X data = Ret b"
    and m: "normal_name X (Fields data ! 0) \<noteq> []" and r: "normal_name X (Fields data ! 1) \<noteq> []"
  shows "decodeSOAData b = Ret (Join ([normal_name X (Fields data ! 0), normal_name X (Fields data ! 1)]
    @ map (\<lambda>p. show_nat (dec_value p)) (drop 2 (Fields data))) '' '')"
proof -
  obtain s t u v w y z where f: "Fields data = [s, t, u, v, w, y, z]"
    using enc by (auto simp: encodeSOAData_def Let_def length7 split: if_splits)
  obtain mb rb where mb: "encodeDomainName X s = Ret mb" and rb: "encodeDomainName X t = Ret rb"
      and vals: "\<forall>p \<in> {u, v, w, y, z}. ParseUint p 32 = Some (dec_value p)"
      and b: "b = mb @ rb @ put32 (of_nat (dec_value u)) @ put32 (of_nat (dec_value v))
        @ put32 (of_nat (dec_value w)) @ put32 (of_nat (dec_value y)) @ put32 (of_nat (dec_value z))"
    using enc f
    by (auto simp: encodeSOAData_def Let_def obind_eq_Ret numeric_fields simp del: encode_u32s.simps)
  have lm: "length (normal_name X s) + 2 = length mb" "length (normal_name X t) + 2 = length rb"
    using encodeDomainName_length [OF mb] encodeDomainName_length [OF rb] m r f by simp_all
  have ms: "0 < length (normal_name X s)" "0 < length (normal_name X t)"
    using m r f by simp_all
  have dm: "decodeDomainName b = Ret (normal_name X s)"
    using decode_encodeDomainName [OF mb] by (simp add: b)
  have dr: "decodeDomainName (drop (length mb) b) = Ret (normal_name X t)"
    using decode_encodeDomainName [OF rb] by (simp add: b)
  have nums: "map (\<lambda>i. show_u32 b (length mb + length rb + i * 4)) [0, 1, 2, 3, 4]
      = map (\<lambda>p. show_nat (dec_value p)) [u, v, w, y, z]"
    using vals by (simp add: b numeric_fields)
  have lb: "length b = length mb + length rb + 20" by (simp add: b)
  have "decodeSOAData b = Ret (Join ([normal_name X s, normal_name X t]
      @ map (\<lambda>i. show_u32 b (length mb + length rb + i * 4)) [0, 1, 2, 3, 4]) '' '')"
    by (rule decodeSOAData_eq [OF _ dm _ dr]) (use ms lm lb in linarith)+
  then show ?thesis unfolding nums by (simp add: f)
qed

theorem soa_roundtrip_witness:
  "\<exists>b. encodeSOAData sample_extern ''a b 1 2 3 4 5'' = Ret b \<and> decodeSOAData b = Ret ''a b 1 2 3 4 5''"
proof -
  have "is_ret (encodeSOAData sample_extern ''a b 1 2 3 4 5'')" by code_simp
  then obtain b where e: "encodeSOAData sample_extern ''a b 1 2 3 4 5'' = Ret b"
    by (cases "encodeSOAData sample_extern ''a b 1 2 3 4 5''") auto
  have n: "normal_name sample_extern (Fields ''a b 1 2 3 4 5'' ! 0) = ''a''"
      "normal_name sample_extern (Fields ''a b 1 2 3 4 5'' ! 1) = ''b''" by code_simp+
  have "Join ([''a'', ''b''] @ map (\<lambda>p. show_nat (dec_value p)) (drop 2 (Fields ''a b 1 2 3 4 5''))) '' ''
      = ''a b 1 2 3 4 5''" by code_simp
  then show ?thesis using soa_roundtrip [OF e] e n by simp
qed

lemma decode_encode_segments:
  "encode_segments ss = Ret b \<Longrightarrow> decode_segments b = Ret (filter (\<lambda>s. s \<noteq> []) (map TrimSpace ss))"
proof (induction ss arbitrary: b)
  case (Cons s ss)
  show ?case
  proof (cases "TrimSpace s = []")
    case True
    with Cons show ?thesis by simp
  next
    case False
    with Cons.prems obtain r where "length (TrimSpace s) \<le> 255" "encode_segments ss = Ret r"
        "b = byte_len (TrimSpace s) # bytes_of_string (TrimSpace s) @ r"
      by (auto simp: obind_eq_Ret Let_def split: if_splits)
    with False Cons.IH [of r] show ?thesis by (simp add: unat_byte_len)
  qed
qed simp

text \<open>
  A TXT text that encodes has a non-empty segment, and decodes to its non-empty
  segments, trimmed, joined by a semicolon and a space.
\<close>

theorem txt_roundtrip:
  assumes "encodeTXTData data = Ret b"
  shows "filter (\<lambda>s. s \<noteq> []) (map TrimSpace (Split data CHR '';'')) \<noteq> []
    \<and> decodeTXTData b = Ret (Join (filter (\<lambda>s. s \<noteq> []) (map TrimSpace (Split data CHR '';''))) ''; '')"
proof -
  let ?f = "filter (\<lambda>s. s \<noteq> []) (map TrimSpace (Split data CHR '';''))"
  have e: "encode_segments (Split data CHR '';'') = Ret b" and b: "b \<noteq> []"
    using assms by (auto simp: encodeTXTData_def obind_eq_Ret split: if_splits)
  have d: "decode_segments b = Ret ?f" using e by (rule decode_encode_segments)
  have "?f \<noteq> []"
  proof
    assume nil: "?f = []"
    have "encode_segments ss = Ret []" if "filter (\<lambda>s. s \<noteq> []) (map TrimSpace ss) = []" for ss
      using that by (induction ss) (auto split: if_splits)
    with nil e b show False by simp
  qed
  with d show ?thesis by (simp add: decodeTXTData_def)
qed

theorem txt_roundtrip_witness:
  "encodeTXTData ''v; w'' = Ret [1, 0x76, 1, 0x77] \<and> decodeTXTData [1, 0x76, 1, 0x77] = Ret ''v; w''"
proof -
  have e: "encodeTXTData ''v; w'' = Ret [1, 0x76, 1, 0x77]" by code_simp
  moreover have "Join (filter (\<lambda>s. s \<noteq> []) (map TrimSpace (Split ''v; w'' CHR '';''))) ''; '' = ''v; w''"
    by code_simp
  ultimately show ?thesis using txt_roundtrip [OF e] by simp
qed

text \<open>
  A CAA text whose tag has at most 253 bytes decodes, after encoding, to the flag, the
  tag and the value in double quotes.
\<close>

theorem caa_roundtrip:
  assumes "encodeCAAData data = Ret b" and "length (Fields data ! 1) \<le> 253"
  shows "decodeCAAData b = Ret (show_nat (dec_value (Fields data ! 0)) @ '' '' @ Fields data ! 1
    @ '' '' @ [CHR 0x22] @ TrimChar (Join (drop 2 (Fields data)) '' '') CHR 0x22 @ [CHR 0x22])"
proof -
  let ?tag = "Fields data ! 1" and ?val = "TrimChar (Join (drop 2 (Fields data)) '' '') CHR 0x22"
  let ?flag = "dec_value (Fields data ! 0)"
  have b: "b = [of_nat ?flag, byte_len ?tag] @ bytes_of_string ?tag @ bytes_of_string ?val"
    and flag: "?flag < 2 ^ 8"
    using assms(1)
    by (auto simp: encodeCAAData_def Let_def ParseUint_Some split: if_splits option.splits)
  have "unat (2 + byte_len ?tag) = 2 + length ?tag"
  proof -
    have "unat (2 :: byte) + unat (byte_len ?tag) < 256"
      using assms(2) by (simp add: unat_byte_len)
    then show ?thesis using assms(2) by (simp add: unat_word_ariths unat_byte_len)
  qed
  moreover have "unat (of_nat ?flag :: byte) = ?flag"
    using flag by (simp add: unsigned_of_nat take_bit_nat_eq_self)
  ultimately show ?thesis by (simp add: decodeCAAData_def b Let_def)
qed

theorem caa_roundtrip_witness:
  "encodeCAAData ''0 issue ca'' = Ret [0, 5, 0x69, 0x73, 0x73, 0x75, 0x65, 0x63, 0x61]
   \<and> decodeCAAData [0, 5, 0x69, 0x73, 0x73, 0x75, 0x65, 0x63, 0x61] = Ret (''0 issue '' @ [CHR 0x22] @ ''ca'' @ [CHR 0x22])"
proof -
  have e: "encodeCAAData ''0 issue ca'' = Ret [0, 5, 0x69, 0x73, 0x73, 0x75, 0x65, 0x63, 0x61]" by code_simp
  have "length (Fields ''0 issue ca'' ! 1) = 5" by code_simp
  moreover have "show_nat (dec_value (Fields ''0 issue ca'' ! 0)) @ '' '' @ Fields ''0 issue ca'' ! 1
    @ '' '' @ [CHR 0x22] @ TrimChar (Join (drop 2 (Fields ''0 issue ca'')) '' '') CHR 0x22 @ [CHR 0x22]
      = ''0 issue '' @ [CHR 0x22] @ ''ca'' @ [CHR 0x22]" by code_simp
  ultimately show ?thesis using caa_roundtrip [OF e] e by simp
qed

text \<open>
  Four bytes decode to a dotted quad that encodes back to the same four bytes, and
  every text that encodes as an A record gives four bytes.
\<close>

theorem a_roundtrip:
  "(length b = 4 \<longrightarrow> decodeAData b = Ret (show_ipv4 b) \<and> encodeAData (show_ipv4 b) = Ret b)
   \<and> (encodeAData s = Ret b \<longrightarrow> length b = 4)"
proof -
  have "decodeAData b = Ret (show_ipv4 b) \<and> encodeAData (show_ipv4 b) = Ret b" if "length b = 4"
    using that by (simp add: decodeAData_def encodeAData_def isIPv4_def ip_String_def ParseIP_show_ipv4)
  moreover have "length b = 4" if "encodeAData s = Ret b"
    using that by (auto simp: encodeAData_def Let_def isIPv4_def split: if_splits option.splits dest: To4_length)
  ultimately show ?thesis by blast
qed

theorem a_roundtrip_witness:
  "decodeAData [192, 0, 2, 1] = Ret (show_ipv4 [192, 0, 2, 1])
   \<and> encodeAData (show_ipv4 [192, 0, 2, 1]) = Ret [192, 0, 2, 1]"
  using a_roundtrip [of "[192, 0, 2, 1]" "[]"] by simp

text \<open>
  Every text that encodes as an AAAA record gives 16 bytes that are no IPv4-mapped
  address, and the decoder accepts exactly such byte strings.
\<close>

theorem aaaa_domain:
  "(encodeAAAAData s = Ret b \<longrightarrow> length b = 16 \<and> To4 b = None)
   \<and> (is_ret (decodeAAAAData b) \<longleftrightarrow> length b = 16 \<and> To4 b = None)"
  using ParseIP_length [of s]
  by (auto simp: encodeAAAAData_def decodeAAAAData_def Let_def isIPv6_def To16_def split: if_splits option.splits)

theorem aaaa_domain_witness:
  "encodeAAAAData ''::1'' = Ret [0,0,0,0,0,0,0,0,0,0,0,0,0,0,0,1]
   \<and> is_ret (decodeAAAAData [0,0,0,0,0,0,0,0,0,0,0,0,0,0,0,1])"
proof -
  have "encodeAAAAData ''::1'' = Ret [0,0,0,0,0,0,0,0,0,0,0,0,0,0,0,1]" by code_simp
  then show ?thesis using aaaa_domain [of "''::1''" "[0,0,0,0,0,0,0,0,0,0,0,0,0,0,0,1]"] by simp
qed

section \<open>All types\<close>









section \<open>Panics\<close>

lemma encode_segments_no_panic [simp]: "\<not> panics (encode_segments ss)"
  by (induction ss) (auto simp: panics_obind Let_def)

lemma decode_segments_no_panic [simp]: "\<not> panics (decode_segments b)"
  by (induction b rule: decode_segments.induct) (auto simp: panics_obind)

lemma encodeSOAData_no_panic [simp]: "\<not> panics (encodeSOAData X s)"
  by (simp add: encodeSOAData_def Let_def panics_obind)

lemma encodeMXData_no_panic [simp]: "\<not> panics (encodeMXData X s)"
  by (simp add: encodeMXData_def Let_def panics_obind split: option.splits)

lemma encodeTXTData_no_panic [simp]: "\<not> panics (encodeTXTData s)"
  by (simp add: encodeTXTData_def panics_obind)

lemma encodeSRVData_no_panic [simp]: "\<not> panics (encodeSRVData X s)"
  by (simp add: encodeSRVData_def Let_def panics_obind)

lemma encodeCAAData_no_panic [simp]: "\<not> panics (encodeCAAData s)"
  by (simp add: encodeCAAData_def Let_def split: option.splits)

lemmas encode_defs = encodeAData_def encodeNSData_def encodeCNAMEData_def encodePTRData_def
  encodeAAAAData_def encoderNotImplemented_def

lemmas decode_defs = decodeAData_def decodeNSData_def decodeCNAMEData_def decodePTRData_def
  decodeMXData_def decodeTXTData_def decodeAAAAData_def decodeSRVData_def decoderNotImplemented_def

text \<open>\<open>Encode\<close> never panics: every input is encoded or refused with an error.\<close>

theorem encode_never_panics: "\<not> panics (Encode X t s)"
  unfolding Encode_def encode_defs by (simp add: Let_def)

lemma byte_sum_wraps: "n < 256 \<Longrightarrow> (2 + n) mod 256 < 2 \<longleftrightarrow> n = 254 \<or> n = (255 :: nat)"
proof -
  assume n: "n < 256"
  show ?thesis
  proof (cases "n < 254")
    case True
    then show ?thesis by simp
  next
    case False
    with n have "n = 254 \<or> n = 255" by linarith
    then show ?thesis by auto
  qed
qed

lemma caa_panics_iff:
  "panics (decodeCAAData d) \<longleftrightarrow> 2 \<le> length d \<and> (d ! 1 = 254 \<or> d ! 1 = 255)"
proof -
  have "unat (2 + x) < 2 \<longleftrightarrow> x = 254 \<or> x = 255" for x :: byte
  proof -
    have "unat (2 + x) = (2 + unat x) mod 256" by (simp add: unat_word_ariths)
    moreover have "unat x < 256" using unsigned_less [of x, where ?'a = nat] by simp
    ultimately have "unat (2 + x) < 2 \<longleftrightarrow> unat x = 254 \<or> unat x = 255" by (metis byte_sum_wraps)
    then show ?thesis by (simp add: word_unat_eq_iff)
  qed
  then show ?thesis by (auto simp: decodeCAAData_def Let_def)
qed

text \<open>
  C40. \<open>Decode\<close> panics on RDATA of two kinds only: a CAA record whose tag length byte is
  254 or 255, and an SOA record whose names run up to or past the end of the data.
\<close>

theorem decode_panics_iff:
  "panics (Decode X t d) \<longleftrightarrow>
     (t = RRTypeCAA \<and> 2 \<le> length d \<and> (d ! 1 = 254 \<or> d ! 1 = 255))
     \<or> (t = RRTypeSOA \<and> 25 \<le> length d \<and> (\<exists>m. decodeDomainName d = Ret m
         \<and> (length d < length m + 2 \<or> (\<exists>r. decodeDomainName (drop (length m + 2) d) = Ret r
             \<and> length d < length m + 2 + (length r + 2)))))"
proof -
  have soa: "panics (decodeSOAData d) \<longleftrightarrow> 25 \<le> length d \<and> (\<exists>m. decodeDomainName d = Ret m
         \<and> (length d < length m + 2 \<or> (\<exists>r. decodeDomainName (drop (length m + 2) d) = Ret r
             \<and> length d < length m + 2 + (length r + 2))))"
  proof (cases "decodeDomainName d")
    case (Ret m)
    show ?thesis
      by (cases "decodeDomainName (drop (length m + 2) d)")
        (auto simp: decodeSOAData_def Ret Let_def)
  qed (auto simp: decodeSOAData_def Let_def)
  have other: "\<not> panics (Decode X t d)" if "t \<noteq> RRTypeCAA" "t \<noteq> RRTypeSOA"
    using that unfolding Decode_def decode_defs by (auto simp: Let_def panics_obind)
  consider "t = RRTypeCAA" | "t = RRTypeSOA" | "t \<noteq> RRTypeCAA" "t \<noteq> RRTypeSOA" by blast
  then show ?thesis
  proof cases
    case 1
    then have "Decode X t d = decodeCAAData d" by (simp add: Decode_def not_implemented_types_def)
    with 1 show ?thesis by (simp add: caa_panics_iff)
  next
    case 2
    then have "Decode X t d = decodeSOAData d" by (simp add: Decode_def)
    with 2 soa show ?thesis by simp
  next
    case 3
    with other show ?thesis by simp
  qed
qed

section \<open>Compressed names in RDATA\<close>

lemma decode_labels_pointer:
  "encode_labels ls = Ret b \<Longrightarrow> 192 \<le> unat p \<Longrightarrow>
     decode_labels (b @ [p, q]) = Err (Errorf ''invalid domain name encoding'')"
proof (induction ls arbitrary: b)
  case Nil
  then have "p \<noteq> 0" by auto
  with Nil show ?case by simp
next
  case (Cons l ls)
  show ?case
  proof (cases "length l = 0")
    case True
    with Cons show ?thesis by simp
  next
    case False
    with Cons.prems obtain r where "length l \<le> 63" "encode_labels ls = Ret r"
        "b = byte_len l # bytes_of_string l @ r"
      by (auto simp: obind_eq_Ret split: if_splits)
    with False Cons.IH [of r] Cons.prems show ?thesis by (simp add: unat_byte_len)
  qed
qed

text \<open>
  RDATA that holds a compressed name (labels, then a two-byte compression pointer, as
  RFC 1035 allows in NS, CNAME and PTR records) is refused: the decoder reads the pointer as a
  label longer than the data.
\<close>

theorem compressed_rdata_refused:
  assumes "t \<in> {RRTypeNS, RRTypeCNAME, RRTypePTR}" and "encode_labels ls = Ret b" and "192 \<le> unat p"
  shows "Decode X t (b @ [p, q]) = Err (Errorf ''invalid domain name encoding'')"
  using assms decode_labels_pointer [OF assms(2,3), of q]
  by (auto simp: Decode_def decodeNSData_def decodeCNAMEData_def decodePTRData_def decodeDomainName_def)

theorem compressed_rdata_refused_witness:
  "Decode sample_extern RRTypeCNAME [1, 0x61, 0xC0, 0x0C] = Err (Errorf ''invalid domain name encoding'')"
proof -
  have e: "encode_labels [''a''] = Ret [1, 0x61]" by code_simp
  show ?thesis using compressed_rdata_refused [OF _ e, of RRTypeCNAME "0xC0" sample_extern "0x0C"] by simp
qed

end
