(* ===== verification/WireProps.thy ===== *)
theory WireProps
  imports Wire RRDataRoundtrip
begin

text \<open>
  What the codec promises: a query and a response survive the wire, a decoded response is
  made of valid records and answers the question that was asked, and exactly when the
  name decoder returns.
\<close>

section \<open>When decodeName returns\<close>

text \<open>
  The target of the pointer that ends the labels starting at \<open>offset\<close>, if a pointer ends
  them, and the offset reached after \<open>n\<close> pointers.
\<close>

function jump :: "bytes \<Rightarrow> nat \<Rightarrow> nat option" where
  "jump data offset =
     (if length data \<le> offset \<or> data ! offset = 0 then None
      else if data ! offset AND 0xC0 = 0xC0 then
        (if length data \<le> offset + 1 then None else Some (unat (get16 data offset AND 0x3FFF)))
      else if length data < offset + 1 + unat (data ! offset) then None
      else jump data (offset + 1 + unat (data ! offset)))"
  by pat_completeness auto
termination
  by (relation "measure (\<lambda>(data, offset). length data - offset)") auto

declare jump.simps [simp del]

fun jumps :: "bytes \<Rightarrow> nat \<Rightarrow> nat \<Rightarrow> nat option" where
  "jumps data offset 0 = Some offset"
| "jumps data offset (Suc n) = (case jump data offset of None \<Rightarrow> None | Some t \<Rightarrow> jumps data t n)"

lemma decodeName_loop_jump:
  "jump data offset = None \<Longrightarrow> \<exists>r. decodeName_loop data offset labels = Some r"
  "jump data offset = Some t \<Longrightarrow> decodeName_loop data t [] = Some r \<Longrightarrow>
     \<exists>r. decodeName_loop data offset labels = Some r"
proof (atomize (full), induction data offset arbitrary: labels rule: jump.induct)
  case (1 data offset)
  let ?next = "offset + 1 + unat (data ! offset)"
  show ?case
  proof (cases "length data \<le> offset \<or> data ! offset = 0 \<or> data ! offset AND 0xC0 = 0xC0
      \<or> length data < ?next")
    case True
    then show ?thesis
      by (auto simp: decodeName_loop.simps [of data offset labels] jump.simps [of data offset])
  next
    case False
    then show ?thesis
      using "1.IH" [of "labels @ [string_of_bytes (take (unat (data ! offset)) (drop (offset + 1) data))]"]
      by (simp add: decodeName_loop.simps [of data offset labels] jump.simps [of data offset])
  qed
qed

lemma decodeName_loop_returns:
  assumes "decodeName_loop data offset labels = Some r"
  shows "\<exists>n. jumps data offset n = None"
proof (rule decodeName_loop.raw_induct
    [where P = "\<lambda>data offset _ _. \<exists>n. jumps data offset n = None", OF _ assms])
  fix f data offset labels r
  assume IH: "\<And>data offset labels r. f data offset labels = Some r \<Longrightarrow> \<exists>n. jumps data offset n = None"
    and eq: "(if length data \<le> offset then Some (Err (Errorf ''offset out of bounds''))
      else if data ! offset = 0 then Some (Ret (Join labels ''.'', offset + 1))
      else if data ! offset AND 0xC0 = 0xC0 then
        (if length data \<le> offset + 1 then Some (Err (Errorf ''compression pointer out of bounds''))
         else Option.bind (f data (unat (get16 data offset AND 0x3FFF)) [])
           (\<lambda>r. Some (obind r (\<lambda>(suffix, _). Ret (Join (labels @ [suffix]) ''.'', offset + 2)))))
      else if length data < offset + 1 + unat (data ! offset) then Some (Err (Errorf ''label length out of bounds''))
      else f data (offset + 1 + unat (data ! offset))
             (labels @ [string_of_bytes (take (unat (data ! offset)) (drop (offset + 1) data))])) = Some r"
  let ?ptr = "unat (get16 data offset AND 0x3FFF)" and ?next = "offset + 1 + unat (data ! offset)"
  show "\<exists>n. jumps data offset n = None"
  proof (cases "jump data offset")
    case None
    then show ?thesis by (intro exI [of _ 1]) simp
  next
    case (Some t)
    show ?thesis
    proof (cases "data ! offset AND 0xC0 = 0xC0")
      case True
      with Some have t: "t = ?ptr" by (subst (asm) jump.simps) (auto split: if_splits)
      have "\<exists>s. f data ?ptr [] = Some s"
        using eq True Some by (subst (asm) jump.simps) (auto split: if_splits bind_splits)
      then obtain n where "jumps data t n = None" using IH t by blast
      then show ?thesis using Some by (intro exI [of _ "Suc n"]) simp
    next
      case False
      with Some have j: "jump data ?next = Some t" by (subst (asm) jump.simps) (auto split: if_splits)
      have "\<exists>ls s. f data ?next ls = Some s"
        using eq False Some by (subst (asm) jump.simps) (auto split: if_splits)
      then obtain n where n: "jumps data ?next n = None" using IH by blast
      then obtain m where "n = Suc m" by (cases n) auto
      with n j Some show ?thesis by (intro exI [of _ n]) simp
    qed
  qed
qed

lemma decodeName_loop_ends: "jumps data offset n = None \<Longrightarrow> \<exists>r. decodeName_loop data offset labels = Some r"
proof (induction n arbitrary: offset labels)
  case (Suc n)
  show ?case
  proof (cases "jump data offset")
    case None
    then show ?thesis by (rule decodeName_loop_jump(1))
  next
    case (Some t)
    with Suc obtain r where "decodeName_loop data t [] = Some r" by fastforce
    with Some show ?thesis by (rule decodeName_loop_jump(2))
  qed
qed simp

text \<open>
  C24. \<open>decodeName\<close> returns (a name or an error) exactly when the chain of compression
  pointers that starts at the offset ends; it never returns when the chain is endless.
\<close>

theorem decodeName_returns_iff:
  "(\<exists>r. decodeName data offset = Some r) \<longleftrightarrow> (\<exists>n. jumps data offset n = None)"
  unfolding decodeName_def using decodeName_loop_returns decodeName_loop_ends by blast

text \<open>
  When every pointer of a message points to a smaller offset than the start of the
  labels it ends (as RFC 1035 requires of a compressed message), decoding any name of the
  message returns.
\<close>

theorem decodeName_backward_returns:
  assumes "\<And>i t. jump data i = Some t \<Longrightarrow> t < i"
  shows "\<exists>r. decodeName data offset = Some r"
proof -
  have "jumps data offset n = None" if "offset < n" for n
    using that
  proof (induction n arbitrary: offset)
    case (Suc n)
    then show ?case using assms [of offset] by (fastforce split: option.splits)
  qed simp
  then show ?thesis unfolding decodeName_def using decodeName_loop_ends by blast
qed

theorem decodeName_backward_returns_witness:
  "decodeName [0, 0xC0, 0] 1 = Some (Ret ([], 3)) \<and> (\<exists>r. decodeName [0, 0xC0, 0] 1 = Some r)"
proof -
  have "t < i" if "jump [0, 0xC0, 0] i = Some t" for i t
  proof -
    consider "i = 0" | "i = 1" | "i = 2" | "3 \<le> i" by linarith
    then show ?thesis using that
      by cases (subst (asm) jump.simps; auto simp: get16_def)+
  qed
  from decodeName_backward_returns [of "[0, 0xC0, 0]", OF this] have "\<exists>r. decodeName [0, 0xC0, 0] 1 = Some r" by blast
  moreover have "decodeName [0, 0xC0, 0] 1 = Some (Ret ([], 3))" by code_simp
  ultimately show ?thesis by blast
qed

text \<open>
  A query of 14 bytes or more that claims one question whose name is a compression
  pointer to itself (offset 12) makes \<open>DecodeQuery\<close> recurse for ever: one such packet
  ends the server with a stack overflow.
\<close>

theorem DecodeQuery_self_pointer_diverges:
  assumes "14 \<le> length data" and "get16 data 4 = 1" and "data ! 12 = 0xC0" and "data ! 13 = 0x0C"
  shows "DecodeQuery data = None"
proof -
  have ptr: "unat (get16 data 12 AND 0x3FFF) = 12"
    using assms(3,4) by (simp add: get16_def)
  have j: "jump data 12 = Some 12"
    using assms ptr by (subst jump.simps) simp
  have "jumps data 12 n = Some 12" for n
    using j by (induction n) auto
  then have "decodeName data 12 = None"
    using decodeName_loop_returns [of data 12] by (metis decodeName_def option.distinct(1) option.exhaust)
  then show ?thesis
    using assms by (simp add: DecodeQuery_def decodeQuestion_def Let_def)
qed

theorem DecodeQuery_self_pointer_diverges_witness:
  "DecodeQuery [0, 1, 1, 0, 0, 1, 0, 0, 0, 0, 0, 0, 0xC0, 0x0C] = None"
  by (rule DecodeQuery_self_pointer_diverges) (simp_all add: get16_def)

section \<open>Offsets stay in the packet\<close>

lemma decodeName_loop_offset:
  assumes "decodeName_loop data offset labels = Some r"
  shows "case r of Ret (n, e) \<Rightarrow> offset < e \<and> e \<le> length data | _ \<Rightarrow> True"
proof (rule decodeName_loop.raw_induct
    [where P = "\<lambda>data offset _ r. case r of Ret (n, e) \<Rightarrow> offset < e \<and> e \<le> length data | _ \<Rightarrow> True", OF _ assms])
  fix f data offset labels r
  assume IH: "\<And>data offset labels r. f data offset labels = Some r \<Longrightarrow>
      case r of Ret (n, e) \<Rightarrow> offset < e \<and> e \<le> length data | _ \<Rightarrow> True"
    and eq: "(if length data \<le> offset then Some (Err (Errorf ''offset out of bounds''))
      else if data ! offset = 0 then Some (Ret (Join labels ''.'', offset + 1))
      else if data ! offset AND 0xC0 = 0xC0 then
        (if length data \<le> offset + 1 then Some (Err (Errorf ''compression pointer out of bounds''))
         else Option.bind (f data (unat (get16 data offset AND 0x3FFF)) [])
           (\<lambda>r. Some (obind r (\<lambda>(suffix, _). Ret (Join (labels @ [suffix]) ''.'', offset + 2)))))
      else if length data < offset + 1 + unat (data ! offset) then Some (Err (Errorf ''label length out of bounds''))
      else f data (offset + 1 + unat (data ! offset))
             (labels @ [string_of_bytes (take (unat (data ! offset)) (drop (offset + 1) data))])) = Some r"
  show "case r of Ret (n, e) \<Rightarrow> offset < e \<and> e \<le> length data | _ \<Rightarrow> True"
  proof (cases "data ! offset AND 0xC0 = 0xC0 \<and> data ! offset \<noteq> 0 \<and> offset < length data")
    case True
    then show ?thesis
      using eq by (auto split: if_splits bind_splits outcome.splits simp: obind_eq_Ret)
  next
    case False
    show ?thesis
    proof (cases "length data \<le> offset \<or> data ! offset = 0 \<or> length data < offset + 1 + unat (data ! offset)")
      case True
      with False eq show ?thesis by (auto split: if_splits)
    next
      case more: False
      then have "f data (offset + 1 + unat (data ! offset))
         (labels @ [string_of_bytes (take (unat (data ! offset)) (drop (offset + 1) data))]) = Some r"
        using eq False by auto
      from IH [OF this] show ?thesis by (auto split: outcome.splits)
    qed
  qed
qed

text \<open>
  A decoded name ends inside the packet and after its start, so every later read of
  the decoders starts from an offset that the packet has.
\<close>

theorem decodeName_offset:
  assumes "decodeName data offset = Some (Ret (name, newOffset))"
  shows "offset < newOffset \<and> newOffset \<le> length data"
  using decodeName_loop_offset [of data offset "[]"] assms by (fastforce simp: decodeName_def)

theorem decodeName_offset_witness:
  "decodeName [1, 0x61, 0, 7] 0 = Some (Ret (''a'', 3)) \<and> (0 :: nat) < 3 \<and> 3 \<le> length [1, 0x61, 0, 7 :: byte]"
proof -
  have e: "decodeName [1, 0x61, 0, 7] 0 = Some (Ret (''a'', 3))" by code_simp
  from decodeName_offset [OF e] e show ?thesis by simp
qed

lemma parseResourceRecord_offset:
  assumes "parseResourceRecord X data offset now = Some (Ret (rr, newOffset))"
  shows "offset + 10 < newOffset \<and> newOffset \<le> length data"
  using assms
  by (fastforce simp: parseResourceRecord_def Let_def dbind_eq_Ret obind_eq_Ret
      split: if_splits dest: decodeName_offset)

section \<open>Queries\<close>

text \<open>
  C18. Every query that encodes is decoded to the same ID, type and class and to the name
  without its trailing dot and its empty labels.
\<close>

theorem query_roundtrip:
  assumes "EncodeQuery q = Ret b"
  shows "DecodeQuery b = Some (Ret (q\<lparr>q_Name := Join (wire_labels (TrimSuffix (q_Name q) ''.'')) ''.''\<rparr>))"
proof -
  let ?ls = "wire_labels (TrimSuffix (q_Name q) ''.'')"
  let ?h = "put16 (q_ID q) @ put16 0x0100 @ put16 1 @ put16 0 @ put16 0 @ put16 0"
  let ?t = "put16 (q_Type q) @ put16 (q_Class q)"
  have ok: "\<forall>l \<in> set ?ls. label_ok l" and b: "b = ?h @ enc_labels ?ls @ 0 # ?t"
    using assms query_label_loop_Ret
    by (auto simp: EncodeQuery_def Let_def obind_eq_Ret wire_labels_def)
  have name: "decodeName b 12 = Some (Ret (Join ?ls ''.'', 13 + length (enc_labels ?ls)))"
    using decodeName_labels [OF ok, of 12 ?h ?t] by (simp add: b)
  have types: "get16 b (13 + length (enc_labels ?ls)) = q_Type q"
    "get16 b (13 + length (enc_labels ?ls) + 2) = q_Class q"
  proof -
    have b': "b = (?h @ enc_labels ?ls @ [0]) @ ?t" by (simp add: b)
    show "get16 b (13 + length (enc_labels ?ls)) = q_Type q"
      unfolding b' by (subst get16_append) (simp_all add: be_simps)
    show "get16 b (13 + length (enc_labels ?ls) + 2) = q_Class q"
      unfolding b' by (subst get16_append) (simp_all add: be_simps)
  qed
  have "length b = 17 + length (enc_labels ?ls)" by (simp add: b)
  then have "decodeQuestion b 12 = Some (Ret (Join ?ls ''.'', q_Type q, q_Class q, 17 + length (enc_labels ?ls)))"
    using types by (simp add: decodeQuestion_def name)
  moreover have "get16 b 4 = 1" "get16 b 0 = q_ID q" by (simp_all add: b be_simps)
  ultimately show ?thesis by (simp add: DecodeQuery_def b Let_def)
qed

theorem query_roundtrip_witness:
  "\<exists>b. EncodeQuery \<lparr>q_ID = 7, q_Name = ''a.'', q_Type = RRTypeA, q_Class = 1\<rparr> = Ret b
     \<and> DecodeQuery b = Some (Ret \<lparr>q_ID = 7, q_Name = ''a'', q_Type = RRTypeA, q_Class = 1\<rparr>)"
proof -
  let ?q = "\<lparr>q_ID = 7, q_Name = ''a.'', q_Type = RRTypeA, q_Class = 1\<rparr>"
  have "is_ret (EncodeQuery ?q)" by code_simp
  then obtain b where e: "EncodeQuery ?q = Ret b" by (cases "EncodeQuery ?q") auto
  have "Join (wire_labels (TrimSuffix ''a.'' ''.'')) ''.'' = ''a''" by code_simp
  then show ?thesis using query_roundtrip [OF e] e by simp
qed

section \<open>Responses\<close>

text \<open>
  The record a client reads where the server wrote \<open>rr\<close>: a name equal to the first
  answer's name is read as the name of the question, the rest through the record decoders.
\<close>

definition received ::
    "extern \<Rightarrow> string \<Rightarrow> string \<Rightarrow> time \<Rightarrow> time \<Rightarrow> resource_record \<Rightarrow> resource_record outcome" where
  "received X qname first sent now rr =
     obind (Decode X (rr_Type rr) (rr_Data rr))
       (\<lambda>txt. NewCachedResourceRecord X (if rr_Name rr = first then qname else rr_Name rr)
          (rr_Type rr) (rr_Class rr) (uint32_Seconds (TTLRemaining rr sent)) (rr_Data rr) txt now)"

text \<open>One answer written at the end of a message that starts with a question name is read back.\<close>

lemma read_back_name:
  assumes "(if rr_Name rr = first then Ret qname_pointer else wire_encodeDomainName (rr_Name rr)) = Ret nb"
    and "wf_name (rr_Name rr)" and "length h = 12" and "\<forall>l \<in> set qls. label_ok l"
  shows "decodeName ((h @ enc_labels qls @ 0 # pre) @ nb @ post) (length (h @ enc_labels qls @ 0 # pre))
    = Some (Ret (if rr_Name rr = first then Join qls ''.'' else rr_Name rr,
        length (h @ enc_labels qls @ 0 # pre) + length nb))"
proof (cases "rr_Name rr = first")
  case True
  let ?p = "h @ enc_labels qls @ 0 # pre"
  let ?d = "?p @ nb @ post"
  have nb: "nb = [0xC0, 0x0C]" using assms(1) True by (simp add: qname_pointer_def Let_def)
  have at: "?d ! length ?p = 0xC0" "get16 ?d (length ?p) = 0xC00C"
    by (simp add: nth_append nb, subst get16_append) (simp_all add: nb get16_def)
  have tgt: "decodeName_loop ?d 12 [] = Some (Ret (Join qls ''.'', 12 + length (enc_labels qls) + 1))"
    using decodeName_labels [OF assms(4), of 12 h "pre @ nb @ post"] assms(3) by (simp add: decodeName_def)
  show ?thesis
    unfolding decodeName_def
    by (subst decodeName_loop.simps) (use at tgt True nb in simp)
next
  case False
  then obtain ls where ls: "nb = enc_labels ls @ [0]" "\<forall>l \<in> set ls. label_ok l" "Join ls ''.'' = rr_Name rr"
    using wire_name_Ret assms(1,2) by fastforce
  then show ?thesis
    using False decodeName_labels [OF ls(2) refl, of "h @ enc_labels qls @ 0 # pre" post] by simp
qed

lemma read_back_record:
  assumes nb: "(if rr_Name rr = first then Ret qname_pointer else wire_encodeDomainName (rr_Name rr)) = Ret nb"
    and wf: "wf_name (rr_Name rr)" and h: "length h = 12" and q: "\<forall>l \<in> set qls. label_ok l"
    and len: "length (rr_Data rr) \<le> 65535"
    and rec: "received X (Join qls ''.'') first sent now rr = Ret out"
    and p: "p = h @ enc_labels qls @ 0 # pre"
    and d: "d = p @ nb @ put16 (rr_Type rr) @ put16 (rr_Class rr)
        @ put32 (uint32_Seconds (TTLRemaining rr sent)) @ put16 (of_nat (length (rr_Data rr))) @ rr_Data rr @ post"
  shows "parseResourceRecord X d (length p) now
    = Some (Ret (out, length p + length nb + 10 + length (rr_Data rr)))"
proof -
  define off where "off = length p + length nb"
  let ?f = "put16 (rr_Type rr) @ put16 (rr_Class rr) @ put32 (uint32_Seconds (TTLRemaining rr sent))
      @ put16 (of_nat (length (rr_Data rr)))"
  have d': "d = (p @ nb) @ ?f @ rr_Data rr @ post" by (simp add: d)
  have off: "off = length (p @ nb)" by (simp add: off_def)
  have name: "decodeName d (length p)
      = Some (Ret (if rr_Name rr = first then Join qls ''.'' else rr_Name rr, off))"
    using read_back_name [OF nb wf h q] unfolding d p off_def by simp
  have rd: "get16 d off = rr_Type rr" "get16 d (off + 2) = rr_Class rr"
      "get32 d (off + 4) = uint32_Seconds (TTLRemaining rr sent)"
      "get16 d (off + 8) = of_nat (length (rr_Data rr))"
    unfolding d' off by (simp_all add: be_simps)
  have "unat (of_nat (length (rr_Data rr)) :: 16 word) = length (rr_Data rr)"
    using len by (simp add: unsigned_of_nat take_bit_nat_eq_self)
  moreover have "take (length (rr_Data rr)) (drop (off + 10) d) = rr_Data rr"
    unfolding d' off by simp
  moreover have "off + 10 + length (rr_Data rr) \<le> length d" by (simp add: d' off)
  moreover have "length p + 10 \<le> length d" by (simp add: d')
  moreover obtain tx where "Decode X (rr_Type rr) (rr_Data rr) = Ret tx"
      "NewCachedResourceRecord X (if rr_Name rr = first then Join qls ''.'' else rr_Name rr)
          (rr_Type rr) (rr_Class rr) (uint32_Seconds (TTLRemaining rr sent)) (rr_Data rr) tx now = Ret out"
    using rec by (auto simp: received_def obind_eq_Ret)
  ultimately show ?thesis
    using name rd by (simp add: parseResourceRecord_def Let_def off_def)
qed

lemma read_back_answers:
  assumes "encode_answers clk first i rrs = Ret ab"
    and "\<forall>rr \<in> set rrs. wf_name (rr_Name rr)"
    and h: "length h = 12" and q: "\<forall>l \<in> set qls. label_ok l"
    and "length outs = length rrs"
    and "\<forall>k < length rrs. received X (Join qls ''.'') first (clk (i + k)) now (rrs ! k) = Ret (outs ! k)"
    and "p = h @ enc_labels qls @ 0 # pre"
  shows "parse_section X now (p @ ab) msg (length rrs) (length p) = Some (Ret (outs, length (p @ ab)))"
  using assms(1,2,5,6,7)
proof (induction rrs arbitrary: i ab outs pre p)
  case Nil
  then show ?case by simp
next
  case (Cons rr rrs)
  obtain out outs' where outs: "outs = out # outs'" using Cons.prems(3) by (cases outs) auto
  obtain nb rest where
      nb: "(if rr_Name rr = first then Ret qname_pointer else wire_encodeDomainName (rr_Name rr)) = Ret nb"
      and len: "length (rr_Data rr) \<le> 65535"
      and rest: "encode_answers clk first (i + 1) rrs = Ret rest"
      and ab: "ab = nb @ put16 (rr_Type rr) @ put16 (rr_Class rr)
        @ put32 (uint32_Seconds (TTLRemaining rr (clk i))) @ put16 (of_nat (length (rr_Data rr)))
        @ rr_Data rr @ rest"
    using Cons.prems(1) by (auto simp: obind_eq_Ret split: if_splits)
  have rec: "received X (Join qls ''.'') first (clk i) now rr = Ret out"
    using Cons.prems(4) outs by fastforce
  define e where "e = nb @ put16 (rr_Type rr) @ put16 (rr_Class rr)
        @ put32 (uint32_Seconds (TTLRemaining rr (clk i))) @ put16 (of_nat (length (rr_Data rr))) @ rr_Data rr"
  have ab': "p @ ab = (p @ e) @ rest" by (simp add: ab e_def)
  have "parseResourceRecord X (p @ ab) (length p) now
      = Some (Ret (out, length p + length nb + 10 + length (rr_Data rr)))"
    by (rule read_back_record [OF nb _ h q len rec Cons.prems(5)]) (use Cons.prems(2) ab in simp_all)
  moreover have "length p + length nb + 10 + length (rr_Data rr) = length (p @ e)"
    by (simp add: e_def)
  moreover have "parse_section X now ((p @ e) @ rest) msg (length rrs) (length (p @ e))
      = Some (Ret (outs', length ((p @ e) @ rest)))"
  proof (rule Cons.IH [OF rest])
    show "\<forall>k < length rrs. received X (Join qls ''.'') first (clk (i + 1 + k)) now (rrs ! k) = Ret (outs' ! k)"
    proof (intro allI impI)
      fix k assume "k < length rrs"
      then show "received X (Join qls ''.'') first (clk (i + 1 + k)) now (rrs ! k) = Ret (outs' ! k)"
        using Cons.prems(4) [rule_format, of "Suc k"] by (simp add: outs)
    qed
    show "p @ e = h @ enc_labels qls @ 0 # (pre @ e)" by (simp add: Cons.prems(5))
  qed (use Cons.prems outs in auto)
  ultimately show ?case by (simp add: ab' outs)
qed

lemma encode_answers_count: "encode_answers clk first i rrs = Ret ab \<Longrightarrow> length rrs = 0 \<longrightarrow> ab = []"
  by (cases rrs) auto

text \<open>
  C3. A response that encodes, whose names have no empty label and whose answers the record
  decoders accept, is decoded by a client that expects its ID to the same answers in order
  (each with the remaining seconds as its TTL, and expiring that long after it is
  received); the response code arrives as NOERROR, and no authority or additional record
  arrives.
\<close>

theorem response_roundtrip:
  assumes enc: "EncodeResponse clk resp = Ret b"
    and wq: "wf_name (q_Name (resp_Question resp))"
    and wa: "\<forall>rr \<in> set (resp_Answers resp). wf_name (rr_Name rr)"
    and lo: "length outs = length (resp_Answers resp)"
    and rec: "\<forall>i < length (resp_Answers resp).
      received X (q_Name (resp_Question resp)) (rr_Name (hd (resp_Answers resp))) (clk i) now
        (resp_Answers resp ! i) = Ret (outs ! i)"
  shows "DecodeResponse X b (resp_ID resp) now = Some (Ret
    \<lparr>resp_ID = resp_ID resp, resp_RCode = NOERROR, resp_Question = zero_question,
     resp_Answers = outs, resp_Authority = [], resp_Additional = []\<rparr>)"
proof -
  let ?q = "resp_Question resp" and ?n = "length (resp_Answers resp)"
  let ?first = "rr_Name (hd (resp_Answers resp))"
  define h where "h = put16 (resp_ID resp) @ put16 0x8180 @ put16 1 @ put16 (of_nat ?n) @ put16 0 @ put16 0"
  obtain qb ab where n: "?n \<le> 65535" and qb: "wire_encodeDomainName (q_Name ?q) = Ret qb"
      and ab: "encode_answers clk ?first 0 (resp_Answers resp) = Ret ab"
      and b: "b = h @ qb @ put16 (q_Type ?q) @ put16 (q_Class ?q) @ ab"
    using enc by (auto simp: EncodeResponse_def Let_def obind_eq_Ret h_def split: if_splits)
  obtain qls where qls: "qb = enc_labels qls @ [0]" "\<forall>l \<in> set qls. label_ok l" "Join qls ''.'' = q_Name ?q"
    using wire_name_Ret [OF qb wq] by blast
  have h: "length h = 12" by (simp add: h_def)
  define p where "p = h @ enc_labels qls @ 0 # (put16 (q_Type ?q) @ put16 (q_Class ?q))"
  have bp: "b = p @ ab" by (simp add: b p_def qls)
  have "skip_name b 12 = Ret (13 + length (enc_labels qls))"
    using skip_name_labels [OF qls(2), of 12 h] h by (simp add: b qls)
  then have skip: "skip_questions b 1 12 = Ret (length p)"
    by (simp add: p_def h)
  have parse: "parse_section X now b msg ?n (length p) = Some (Ret (outs, length b))" for msg
    unfolding bp using rec qls(3)
    by (intro read_back_answers [OF ab wa h qls(2) lo _ p_def]) simp
  have hdr: "get16 b 0 = resp_ID resp" "get16 b 2 = 0x8180" "get16 b 4 = 1" "get16 b 6 = of_nat ?n"
      "get16 b 8 = 0" "get16 b 10 = 0"
    by (simp_all add: b h_def be_simps)
  have "unat (of_nat ?n :: 16 word) = ?n"
    using n by (simp add: unsigned_of_nat take_bit_nat_eq_self)
  moreover have "12 \<le> length b" by (simp add: b h)
  ultimately show ?thesis
    using skip parse by (simp add: DecodeResponse_def Let_def hdr)
qed

definition sample_a :: resource_record where
  "sample_a = \<lparr>rr_Name = ''a'', rr_Type = RRTypeA, rr_Class = 1, rr_ttl = 1, rr_expiresAt = None,
     rr_Data = [192, 0, 2, 1], rr_Text = ''192.0.2.1''\<rparr>"

definition sample_response :: dns_response where
  "sample_response = \<lparr>resp_ID = 7, resp_RCode = NOERROR,
     resp_Question = \<lparr>q_ID = 7, q_Name = ''a'', q_Type = RRTypeA, q_Class = 1\<rparr>,
     resp_Answers = [sample_a], resp_Authority = [], resp_Additional = []\<rparr>"

lemma sample_a_received:
  "received sample_extern ''a'' ''a'' 0 5 sample_a = Ret (sample_a\<lparr>rr_expiresAt := Some 1000000005\<rparr>)"
proof -
  have "uint32_Seconds (TTLRemaining sample_a 0) = 1"
    using uint32_Seconds_whole [of 1] by (simp add: TTLRemaining_def sample_a_def)
  moreover have "Decode sample_extern (rr_Type sample_a) (rr_Data sample_a) = Ret ''192.0.2.1''" by code_simp
  moreover have "NewCachedResourceRecord sample_extern ''a'' (rr_Type sample_a) (rr_Class sample_a) 1
      (rr_Data sample_a) ''192.0.2.1'' 5 = Ret (sample_a\<lparr>rr_expiresAt := Some 1000000005\<rparr>)" by code_simp
  moreover have "rr_Name sample_a = ''a''" by (simp add: sample_a_def)
  ultimately show ?thesis by (simp add: received_def)
qed

theorem response_roundtrip_witness:
  "\<exists>b. EncodeResponse (\<lambda>_. 0) sample_response = Ret b
     \<and> DecodeResponse sample_extern b 7 5 = Some (Ret
       \<lparr>resp_ID = 7, resp_RCode = NOERROR, resp_Question = zero_question,
        resp_Answers = [sample_a\<lparr>rr_expiresAt := Some 1000000005\<rparr>], resp_Authority = [], resp_Additional = []\<rparr>)"
proof -
  have "is_ret (EncodeResponse (\<lambda>_. 0) sample_response)" by code_simp
  then obtain b where e: "EncodeResponse (\<lambda>_. 0) sample_response = Ret b"
    by (cases "EncodeResponse (\<lambda>_. 0) sample_response") auto
  have f: "q_Name (resp_Question sample_response) = ''a''" "resp_Answers sample_response = [sample_a]"
      "resp_ID sample_response = 7" "rr_Name sample_a = ''a''" "wf_name ''a''"
    by (simp_all add: sample_response_def sample_a_def wf_name_def)
  have "DecodeResponse sample_extern b (resp_ID sample_response) 5 = Some (Ret
       \<lparr>resp_ID = resp_ID sample_response, resp_RCode = NOERROR, resp_Question = zero_question,
        resp_Answers = [sample_a\<lparr>rr_expiresAt := Some 1000000005\<rparr>], resp_Authority = [], resp_Additional = []\<rparr>)"
    by (rule response_roundtrip [OF e]) (simp_all add: f sample_a_received)
  then show ?thesis using e f by simp
qed

text \<open>
  C31. The response code never reaches the wire: two responses that differ in their code
  (and in their authority and additional sections) have the same encoding, and the code
  field of every encoded response is 0, NOERROR.
\<close>

theorem EncodeResponse_drops_rcode:
  "EncodeResponse clk (resp\<lparr>resp_RCode := r, resp_Authority := au, resp_Additional := ad\<rparr>) = EncodeResponse clk resp
   \<and> (EncodeResponse clk resp = Ret b \<longrightarrow> get16 b 2 AND 0x000F = 0)"
  by (auto simp: EncodeResponse_def Let_def obind_eq_Ret be_simps)

theorem EncodeResponse_drops_rcode_witness:
  "EncodeResponse (\<lambda>_. 0) (sample_response\<lparr>resp_RCode := NXDOMAIN, resp_Authority := [], resp_Additional := []\<rparr>)
     = EncodeResponse (\<lambda>_. 0) sample_response
   \<and> (\<exists>b. EncodeResponse (\<lambda>_. 0) sample_response = Ret b \<and> get16 b 2 AND 0x000F = 0)"
proof -
  have "is_ret (EncodeResponse (\<lambda>_. 0) sample_response)" by code_simp
  then obtain b where e: "EncodeResponse (\<lambda>_. 0) sample_response = Ret b"
    by (cases "EncodeResponse (\<lambda>_. 0) sample_response") auto
  then show ?thesis using EncodeResponse_drops_rcode
    [where clk = "\<lambda>_. 0" and resp = sample_response and r = NXDOMAIN and au = "[]" and ad = "[]" and b = b] by blast
qed

section \<open>What a decoded response is\<close>

lemma parseResourceRecord_Ret:
  assumes "parseResourceRecord X data offset now = Some (Ret (rr, newOffset))"
  shows "valid_rr rr \<and> rr_expiresAt rr = Some (now + uint (rr_ttl rr) * Second)
    \<and> (\<exists>n. rr_Name rr = CanonicalDNSName X n) \<and> Decode X (rr_Type rr) (rr_Data rr) = Ret (rr_Text rr)"
  using assms
  by (auto simp: parseResourceRecord_def Let_def dbind_eq_Ret obind_eq_Ret NewCached_Ret split: if_splits)

lemma parse_section_Ret:
  assumes "parse_section X now data msg n offset = Some (Ret (rrs, e))"
  shows "length rrs = n \<and> (\<forall>rr \<in> set rrs. valid_rr rr \<and> rr_expiresAt rr = Some (now + uint (rr_ttl rr) * Second)
    \<and> (\<exists>n. rr_Name rr = CanonicalDNSName X n) \<and> Decode X (rr_Type rr) (rr_Data rr) = Ret (rr_Text rr))"
  using assms
proof (induction n arbitrary: offset rrs e)
  case (Suc n)
  then obtain rr o1 rrs' where "parseResourceRecord X data offset now = Some (Ret (rr, o1))"
      "parse_section X now data msg n o1 = Some (Ret (rrs', e))" "rrs = rr # rrs'"
    by (auto simp: dbind_eq_Ret)
  then show ?case using Suc.IH parseResourceRecord_Ret by fastforce
qed simp

text \<open>
  C25. A response that is accepted has the expected ID and the section sizes its header
  announces, and each of its records is valid, has a canonical name and the text of its
  data, and expires its TTL after the time of arrival.
\<close>

theorem DecodeResponse_sound:
  assumes "DecodeResponse X data expectedID now = Some (Ret resp)"
  shows "resp_ID resp = expectedID \<and> get16 data 0 = expectedID \<and> 12 \<le> length data
    \<and> length (resp_Answers resp) = unat (get16 data 6)
    \<and> length (resp_Authority resp) = unat (get16 data 8)
    \<and> length (resp_Additional resp) = unat (get16 data 10)
    \<and> (\<forall>rr \<in> set (resp_Answers resp) \<union> set (resp_Authority resp) \<union> set (resp_Additional resp).
         valid_rr rr \<and> rr_expiresAt rr = Some (now + uint (rr_ttl rr) * Second)
         \<and> (\<exists>n. rr_Name rr = CanonicalDNSName X n) \<and> Decode X (rr_Type rr) (rr_Data rr) = Ret (rr_Text rr))"
proof -
  obtain off an o1 ns o2 ar o3 where
      "parse_section X now data ''failed to parse answer record %d: %w'' (unat (get16 data 6)) off = Some (Ret (an, o1))"
      "parse_section X now data ''failed to parse authority record %d: %w'' (unat (get16 data 8)) o1 = Some (Ret (ns, o2))"
      "parse_section X now data ''failed to parse additional record %d: %w'' (unat (get16 data 10)) o2 = Some (Ret (ar, o3))"
      and r: "resp_Answers resp = an" "resp_Authority resp = ns" "resp_Additional resp = ar"
        "resp_ID resp = expectedID" "get16 data 0 = expectedID" "12 \<le> length data"
    using assms by (auto simp: DecodeResponse_def Let_def dbind_eq_Ret split: if_splits)
  then show ?thesis using parse_section_Ret by blast
qed

theorem DecodeResponse_sound_witness:
  "\<exists>resp. DecodeResponse sample_extern [0, 7, 0x81, 0x80, 0, 1, 0, 1, 0, 0, 0, 0,
      1, 0x61, 0, 0, 1, 0, 1, 0xC0, 12, 0, 1, 0, 1, 0, 0, 0, 9, 0, 4, 192, 0, 2, 1] 7 0 = Some (Ret resp)
    \<and> resp_ID resp = 7 \<and> length (resp_Answers resp) = 1 \<and> (\<forall>rr \<in> set (resp_Answers resp). valid_rr rr)"
proof -
  let ?d = "[0, 7, 0x81, 0x80, 0, 1, 0, 1, 0, 0, 0, 0,
      1, 0x61, 0, 0, 1, 0, 1, 0xC0, 12, 0, 1, 0, 1, 0, 0, 0, 9, 0, 4, 192, 0, 2, 1] :: bytes"
  let ?rr = "sample_a\<lparr>rr_ttl := 9, rr_expiresAt := Some 9000000000\<rparr>"
  have e: "DecodeResponse sample_extern ?d 7 0 = Some (Ret \<lparr>resp_ID = 7, resp_RCode = NOERROR,
      resp_Question = zero_question, resp_Answers = [?rr], resp_Authority = [], resp_Additional = []\<rparr>)"
    by code_simp
  from DecodeResponse_sound [OF e] e show ?thesis by (auto simp: get16_def)
qed

end
