(* ===== verification/Codec.thy ===== *)
theory Codec
  imports WireProps RRDataRoundtrip
begin

text \<open>
  \<open>internal/dns/gateways/wire/codec.go\<close>: the codec interface through which the upstream
  gateway and the transport use the wire format, the codec for UDP messages that implements
  it, and the contract the gateways rely on.
\<close>

section \<open>The interface\<close>

text \<open>
  \<open>None\<close> is a decoder that recurses for ever, which ends the process with a stack overflow;
  \<open>EncodeResponse\<close> takes the clock readings of \<open>TTLRemaining\<close>.
\<close>

record dns_codec =
  cd_EncodeQuery :: "question \<Rightarrow> bytes outcome"
  cd_DecodeResponse :: "bytes \<Rightarrow> 16 word \<Rightarrow> time \<Rightarrow> dns_response outcome option"
  cd_DecodeQuery :: "bytes \<Rightarrow> question outcome option"
  cd_EncodeResponse :: "(nat \<Rightarrow> time) \<Rightarrow> dns_response \<Rightarrow> bytes outcome"

definition NewUDPCodec :: "extern \<Rightarrow> dns_codec" where
  "NewUDPCodec X =
     \<lparr>cd_EncodeQuery = EncodeQuery, cd_DecodeResponse = DecodeResponse X,
      cd_DecodeQuery = DecodeQuery, cd_EncodeResponse = EncodeResponse\<rparr>"

lemma NewUDPCodec_simps [simp]:
  "cd_EncodeQuery (NewUDPCodec X) = EncodeQuery" "cd_DecodeResponse (NewUDPCodec X) = DecodeResponse X"
  "cd_DecodeQuery (NewUDPCodec X) = DecodeQuery" "cd_EncodeResponse (NewUDPCodec X) = EncodeResponse"
  by (simp_all add: NewUDPCodec_def)

text \<open>A goroutine that recurses for ever ends like one that panics.\<close>

definition fatal :: "'a outcome option \<Rightarrow> 'a outcome" where
  "fatal m = (case m of None \<Rightarrow> Panic StackOverflow | Some r \<Rightarrow> r)"

lemma fatal_simps [simp]: "fatal None = Panic StackOverflow" "fatal (Some r) = r"
  by (simp_all add: fatal_def)

lemma fatal_eq_Ret [simp]: "fatal m = Ret x \<longleftrightarrow> m = Some (Ret x)"
  by (cases m) auto

section \<open>The contract\<close>

text \<open>A record that arrived at time \<open>now\<close>: valid, with a canonical name, living for its TTL\<close>

definition arrived :: "extern \<Rightarrow> time \<Rightarrow> resource_record \<Rightarrow> bool" where
  "arrived X now rr \<longleftrightarrow> valid_rr rr \<and> rr_expiresAt rr = Some (now + uint (rr_ttl rr) * Second)
     \<and> (\<exists>n. rr_Name rr = CanonicalDNSName X n)"

locale message_codec =
  fixes C :: dns_codec and X :: extern
  assumes query_id: "cd_EncodeQuery C q = Ret b \<Longrightarrow> get16 b 0 = q_ID q"
    and query_error: "\<not> panics (cd_EncodeQuery C q)"
    and response_id: "cd_DecodeResponse C data expectedID now = Some (Ret resp) \<Longrightarrow>
      resp_ID resp = expectedID \<and> (\<forall>rr \<in> set (resp_Answers resp). arrived X now rr)"
    and response_error: "\<not> panics (cd_EncodeResponse C clk resp)"
begin

lemma answers_arrived:
  "cd_DecodeResponse C data expectedID now = Some (Ret resp) \<Longrightarrow> rr \<in> set (resp_Answers resp) \<Longrightarrow> arrived X now rr"
  using response_id by blast

end

lemma DecodeResponse_answers:
  assumes "DecodeResponse X data expectedID now = Some (Ret resp)"
  shows "resp_ID resp = expectedID \<and> (\<forall>rr \<in> set (resp_Answers resp). arrived X now rr)"
proof -
  obtain off n o1 where
      "parse_section X now data ''failed to parse answer record %d: %w'' n off = Some (Ret (resp_Answers resp, o1))"
      and "resp_ID resp = expectedID"
    using assms by (auto simp: DecodeResponse_def Let_def dbind_eq_Ret split: if_splits)
  then show ?thesis unfolding arrived_def using parse_section_Ret by blast
qed

lemma query_label_loop_panics [simp]: "\<not> panics (query_label_loop ls)"
  by (induction ls) (auto simp: panics_obind)

lemma label_loop_panics [simp]: "\<not> panics (label_loop ls)"
  by (induction ls) (auto simp: panics_obind)

lemma encodeDomainName_panics [simp]: "\<not> panics (wire_encodeDomainName n)"
  by (auto simp: wire_encodeDomainName_def panics_obind)

lemma encode_answers_panics [simp]: "\<not> panics (encode_answers clk first i rrs)"
  by (induction rrs arbitrary: i) (auto simp: panics_obind)

interpretation udp: message_codec "NewUDPCodec X" X for X
proof unfold_locales
  fix q b
  assume "cd_EncodeQuery (NewUDPCodec X) q = Ret b"
  then show "get16 b 0 = q_ID q"
    by (auto simp: EncodeQuery_def Let_def obind_eq_Ret get16_put16)
next
  fix q
  show "\<not> panics (cd_EncodeQuery (NewUDPCodec X) q)"
    by (auto simp: EncodeQuery_def Let_def panics_obind)
next
  fix data expectedID now resp
  assume "cd_DecodeResponse (NewUDPCodec X) data expectedID now = Some (Ret resp)"
  then show "resp_ID resp = expectedID \<and> (\<forall>rr \<in> set (resp_Answers resp). arrived X now rr)"
    by (auto dest: DecodeResponse_answers)
next
  fix clk resp
  show "\<not> panics (cd_EncodeResponse (NewUDPCodec X) clk resp)"
    by (auto simp: EncodeResponse_def Let_def panics_obind)
qed

section \<open>How decoding a response panics\<close>

lemma obind_eq_Panic: "obind r f = Panic p \<longleftrightarrow> r = Panic p \<or> (\<exists>x. r = Ret x \<and> f x = Panic p)"
  by (cases r) auto

lemma Decode_panic:
  assumes "Decode X t d = Panic p"
  shows "p = SliceBoundsOutOfRange"
proof -
  consider "t = RRTypeCAA" | "t = RRTypeSOA" | "t \<noteq> RRTypeCAA" "t \<noteq> RRTypeSOA" by blast
  then show ?thesis
  proof cases
    case 1
    then have "decodeCAAData d = Panic p" using assms by (simp add: Decode_def not_implemented_types_def)
    then show ?thesis by (auto simp: decodeCAAData_def Let_def split: if_splits)
  next
    case 2
    then have "decodeSOAData d = Panic p" using assms by (simp add: Decode_def)
    then show ?thesis by (auto simp: decodeSOAData_def Let_def obind_eq_Panic split: if_splits)
  next
    case 3
    then have "\<not> panics (Decode X t d)" unfolding Decode_def decode_defs by (auto simp: Let_def panics_obind)
    with assms show ?thesis by simp
  qed
qed

lemma parseResourceRecord_panic:
  assumes "parseResourceRecord X data offset now = Some (Panic p)"
  shows "p = SliceBoundsOutOfRange"
proof -
  have n: "NewCachedResourceRecord X n t c ttl d s now \<noteq> Panic q" for n t c ttl d s q
    using NewCached_no_panic [of X n t c ttl d s now] by (metis panics_simps(3))
  show ?thesis
    using assms
    by (auto simp: parseResourceRecord_def Let_def dbind_eq_Panic obind_eq_Panic n dest: Decode_panic split: if_splits)
qed

lemma parse_section_panic:
  "parse_section X now data msg n offset = Some (Panic p) \<Longrightarrow> p = SliceBoundsOutOfRange"
proof (induction n arbitrary: offset)
  case (Suc n)
  then show ?case by (auto simp: dbind_eq_Panic dest: parseResourceRecord_panic)
qed simp

lemma DecodeResponse_panic:
  "DecodeResponse X data expectedID now = Some (Panic p) \<Longrightarrow> p = SliceBoundsOutOfRange"
  by (auto simp: DecodeResponse_def Let_def dbind_eq_Panic dest: parse_section_panic split: if_splits)

end
