(* ===== verification/Transport.thy ===== *)
theory Transport
  imports Codec Interfaces
begin

text \<open>
  \<open>internal/dns/gateways/transport\<close>: the factory and the UDP transport. \<open>Start\<close> and \<open>Stop\<close>
  are functions on the state of the transport and of the network; the server is a step
  relation between the calls of \<open>Start\<close> and \<open>Stop\<close>, the listening goroutines they start,
  the goroutine of each packet, and the cancellation of the context. The sockets are code
  outside the repository: an argument, whose documented behaviour is the locale
  \<open>udp_network\<close>. The logger is left out.
\<close>

section \<open>The factory (transport.go, factory.go)\<close>

type_synonym transport_type = string

definition TransportUDP :: transport_type where "TransportUDP = ''udp''"
definition TransportDoH :: transport_type where "TransportDoH = ''doh''"
definition TransportDoT :: transport_type where "TransportDoT = ''dot''"
definition TransportDoQ :: transport_type where "TransportDoQ = ''doq''"

text \<open>\<open>running\<close> and the channel \<open>stopCh\<close>, of which only whether it is closed matters\<close>

record 's udp_transport =
  ut_addr :: string
  ut_conn :: "'s option"
  ut_codec :: dns_codec
  ut_running :: bool
  ut_stopped :: bool

definition NewUDPTransport :: "string \<Rightarrow> dns_codec \<Rightarrow> 's udp_transport" where
  "NewUDPTransport addr codec =
     \<lparr>ut_addr = addr, ut_conn = None, ut_codec = codec, ut_running = False, ut_stopped = False\<rparr>"

definition NewTransport :: "transport_type \<Rightarrow> string \<Rightarrow> dns_codec \<Rightarrow> 's udp_transport outcome" where
  "NewTransport transportType addr codec =
     (if transportType = TransportUDP then Ret (NewUDPTransport addr codec)
      else if transportType = TransportDoH then Err (Errorf ''DNS over HTTPS transport not yet implemented'')
      else if transportType = TransportDoT then Err (Errorf ''DNS over TLS transport not yet implemented'')
      else if transportType = TransportDoQ then Err (Errorf ''DNS over QUIC transport not yet implemented'')
      else Err (Errorf ''unsupported transport type: %s''))"

definition GetSupportedTransports :: "transport_type list" where
  "GetSupportedTransports = [TransportUDP]"

definition IsTransportSupported :: "transport_type \<Rightarrow> bool" where
  "IsTransportSupported transportType = list_ex (\<lambda>t. t = transportType) GetSupportedTransports"

lemma supported_iff: "IsTransportSupported ty \<longleftrightarrow> is_ret (NewTransport ty addr codec)"
  by (auto simp: IsTransportSupported_def GetSupportedTransports_def NewTransport_def)

section \<open>Sockets\<close>

record ('n, 'a, 's) udp_sockets =
  sk_ResolveUDPAddr :: "string \<Rightarrow> 'a outcome"
  sk_ListenUDP :: "'a \<Rightarrow> 'n \<Rightarrow> 'n \<times> 's outcome"
  sk_Close :: "'s \<Rightarrow> 'n \<Rightarrow> 'n \<times> error option"
  sk_ReadFromUDP :: "'s \<Rightarrow> nat \<Rightarrow> 'n \<Rightarrow> 'n \<times> (bytes \<times> 'a) outcome"
  sk_WriteToUDP :: "'s \<Rightarrow> bytes \<Rightarrow> 'a \<Rightarrow> 'n \<Rightarrow> 'n \<times> error option"

section \<open>Start and Stop\<close>

text \<open>Both hold the mutex throughout. \<open>Start\<close> starts a listening goroutine when it returns nil.\<close>

definition udp_Start ::
    "('n, 'a, 's) udp_sockets \<Rightarrow> 's udp_transport \<Rightarrow> 'n \<Rightarrow> 's udp_transport \<times> 'n \<times> unit outcome" where
  "udp_Start S t n =
     (if ut_running t then (t, n, Err (Errorf ''UDP transport already running''))
      else (case sk_ResolveUDPAddr S (ut_addr t) of
          Err e \<Rightarrow> (t, n, Err (Wrapf ''failed to resolve UDP address %s: %w'' e))
        | Panic p \<Rightarrow> (t, n, Panic p)
        | Ret udpAddr \<Rightarrow>
            (case sk_ListenUDP S udpAddr n of
               (n, Err e) \<Rightarrow> (t, n, Err (Wrapf ''failed to bind UDP socket on %s: %w'' e))
             | (n, Panic p) \<Rightarrow> (t, n, Panic p)
             | (n, Ret conn) \<Rightarrow> (t\<lparr>ut_conn := Some conn, ut_running := True\<rparr>, n, Ret ()))))"

definition udp_Stop ::
    "('n, 'a, 's) udp_sockets \<Rightarrow> 's udp_transport \<Rightarrow> 'n \<Rightarrow> 's udp_transport \<times> 'n \<times> unit outcome" where
  "udp_Stop S t n =
     (if \<not> ut_running t then (t, n, Ret ())
      else if ut_stopped t then (t, n, Panic CloseOfClosedChannel)
      else
        let t = t\<lparr>ut_stopped := True\<rparr>;
            (n, closeErr) = (case ut_conn t of Some conn \<Rightarrow> sk_Close S conn n | None \<Rightarrow> (n, None));
            t = t\<lparr>ut_running := False\<rparr>
        in (t, n, case closeErr of None \<Rightarrow> Ret () | Some e \<Rightarrow> Err e))"

definition Address :: "'s udp_transport \<Rightarrow> string" where
  "Address t = ut_addr t"

section \<open>The listening goroutine\<close>

text \<open>
  One iteration of its loop: the \<open>select\<close>, which returns when the context was cancelled or
  \<open>stopCh\<close> is closed and goes on to the read otherwise, and the read, during which the
  transport may be stopped and even started again: \<open>conn\<close> is the connection the transport had
  when the read began, \<open>t\<close> the transport when it ends. A read on a nil connection is an error
  of the \<open>net\<close> package.
\<close>

datatype 'a listen_result = LoopReturns | LoopContinues | LoopPacket bytes 'a

definition listen_select :: "'s udp_transport \<Rightarrow> bool \<Rightarrow> bool" where
  "listen_select t ctxDone \<longleftrightarrow> ctxDone \<or> ut_stopped t"

definition listen_read ::
    "('n, 'a, 's) udp_sockets \<Rightarrow> 's udp_transport \<Rightarrow> 's option \<Rightarrow> 'n \<Rightarrow> 'n \<times> 'a listen_result outcome" where
  "listen_read S t conn n =
     (let (n, r) = (case conn of
            Some conn \<Rightarrow> sk_ReadFromUDP S conn 512 n
          | None \<Rightarrow> (n, Err (Errorf ''invalid argument'')))
      in (case r of
            Err e \<Rightarrow> if \<not> ut_running t then (n, Ret LoopReturns) else (n, Ret LoopContinues)
          | Panic p \<Rightarrow> (n, Panic p)
          | Ret (packet, clientAddr) \<Rightarrow> (n, Ret (LoopPacket packet clientAddr))))"

section \<open>A packet\<close>

text \<open>
  The service behind the transport (\<open>resolver.DNSResponder\<close>), over its state. A packet that
  is not answered is logged, which is no result of the goroutine; only a panic matters.
\<close>

type_synonym 'h dns_responder = "'h \<Rightarrow> question \<Rightarrow> 'h \<times> dns_response outcome"

definition handlePacket ::
    "('n, 'a, 's) udp_sockets \<Rightarrow> 's udp_transport \<Rightarrow> (nat \<Rightarrow> time) \<Rightarrow> 'h dns_responder \<Rightarrow> bytes \<Rightarrow> 'a \<Rightarrow>
     'h \<times> 'n \<Rightarrow> ('h \<times> 'n) \<times> unit outcome" where
  "handlePacket S t clk handler data clientAddr st =
     (let (h, n) = st
      in (case fatal (cd_DecodeQuery (ut_codec t) data) of
            Err e \<Rightarrow> ((h, n), Ret ())
          | Panic p \<Rightarrow> ((h, n), Panic p)
          | Ret query \<Rightarrow>
              (case handler h query of
                 (h, Err e) \<Rightarrow> ((h, n), Ret ())
               | (h, Panic p) \<Rightarrow> ((h, n), Panic p)
               | (h, Ret response) \<Rightarrow>
                   (case cd_EncodeResponse (ut_codec t) clk response of
                      Err e \<Rightarrow> ((h, n), Ret ())
                    | Panic p \<Rightarrow> ((h, n), Panic p)
                    | Ret responseData \<Rightarrow>
                        (let (n, _) = (case ut_conn t of
                               Some conn \<Rightarrow> sk_WriteToUDP S conn responseData clientAddr n
                             | None \<Rightarrow> (n, Some (Errorf ''invalid argument'')))
                         in ((h, n), Ret ()))))))"

section \<open>The server\<close>

text \<open>
  The transport, the network, whether the context was cancelled, how many listening
  goroutines are before their \<open>select\<close>, the connections of those in their read, the packets whose
  goroutine has not run, the service, and the panic that ended the process. A packet is
  handled in one step; \<open>Packets\<close> has the steps of its goroutine.
\<close>

record ('n, 'a, 's, 'h) server =
  sv_t :: "'s udp_transport"
  sv_net :: 'n
  sv_done :: bool
  sv_loops :: nat
  sv_reading :: "'s option list"
  sv_packets :: "(bytes \<times> 'a) list"
  sv_handler :: 'h
  sv_crashed :: "panic option"

definition crashed_by :: "'b outcome \<Rightarrow> panic option" where
  "crashed_by r = (case r of Panic p \<Rightarrow> Some p | _ \<Rightarrow> None)"

lemma crashed_by_simps [simp]:
  "crashed_by (Ret x) = None" "crashed_by (Err e) = None" "crashed_by (Panic p) = Some p"
  by (simp_all add: crashed_by_def)

definition server_init :: "string \<Rightarrow> dns_codec \<Rightarrow> 'n \<Rightarrow> 'h \<Rightarrow> ('n, 'a, 's, 'h) server" where
  "server_init addr codec n h =
     \<lparr>sv_t = NewUDPTransport addr codec, sv_net = n, sv_done = False, sv_loops = 0, sv_reading = [],
      sv_packets = [], sv_handler = h, sv_crashed = None\<rparr>"

text \<open>The steps from outside: a call of \<open>Start\<close> or \<open>Stop\<close>, and the cancellation of the context\<close>

inductive control_step ::
    "('n, 'a, 's) udp_sockets \<Rightarrow> ('n, 'a, 's, 'h) server \<Rightarrow> ('n, 'a, 's, 'h) server \<Rightarrow> bool"
  for S where
  start: "\<lbrakk>sv_crashed s = None; udp_Start S (sv_t s) (sv_net s) = (t, n, res)\<rbrakk> \<Longrightarrow>
     control_step S s (s\<lparr>sv_t := t, sv_net := n,
        sv_loops := (if is_ret res then Suc (sv_loops s) else sv_loops s), sv_crashed := crashed_by res\<rparr>)"
| stop: "\<lbrakk>sv_crashed s = None; udp_Stop S (sv_t s) (sv_net s) = (t, n, res)\<rbrakk> \<Longrightarrow>
     control_step S s (s\<lparr>sv_t := t, sv_net := n, sv_crashed := crashed_by res\<rparr>)"
| cancel: "sv_crashed s = None \<Longrightarrow> control_step S s (s\<lparr>sv_done := True\<rparr>)"

text \<open>The steps of the listening goroutines and of those of the packets\<close>

inductive goroutine_step ::
    "('n, 'a, 's) udp_sockets \<Rightarrow> 'h dns_responder \<Rightarrow> ('n, 'a, 's, 'h) server \<Rightarrow> ('n, 'a, 's, 'h) server \<Rightarrow> bool"
  for S handler where
  select_returns:
    "\<lbrakk>sv_crashed s = None; sv_loops s = Suc k; listen_select (sv_t s) (sv_done s)\<rbrakk> \<Longrightarrow>
     goroutine_step S handler s (s\<lparr>sv_loops := k\<rparr>)"
| select_reads:
    "\<lbrakk>sv_crashed s = None; sv_loops s = Suc k; \<not> listen_select (sv_t s) (sv_done s)\<rbrakk> \<Longrightarrow>
     goroutine_step S handler s (s\<lparr>sv_loops := k, sv_reading := ut_conn (sv_t s) # sv_reading s\<rparr>)"
| read_returns:
    "\<lbrakk>sv_crashed s = None; sv_reading s = cs @ conn # ds;
      listen_read S (sv_t s) conn (sv_net s) = (n, Ret LoopReturns)\<rbrakk> \<Longrightarrow>
     goroutine_step S handler s (s\<lparr>sv_net := n, sv_reading := cs @ ds\<rparr>)"
| read_continues:
    "\<lbrakk>sv_crashed s = None; sv_reading s = cs @ conn # ds;
      listen_read S (sv_t s) conn (sv_net s) = (n, Ret LoopContinues)\<rbrakk> \<Longrightarrow>
     goroutine_step S handler s (s\<lparr>sv_net := n, sv_reading := cs @ ds, sv_loops := Suc (sv_loops s)\<rparr>)"
| read_packet:
    "\<lbrakk>sv_crashed s = None; sv_reading s = cs @ conn # ds;
      listen_read S (sv_t s) conn (sv_net s) = (n, Ret (LoopPacket data client))\<rbrakk> \<Longrightarrow>
     goroutine_step S handler s (s\<lparr>sv_net := n, sv_reading := cs @ ds, sv_loops := Suc (sv_loops s),
        sv_packets := sv_packets s @ [(data, client)]\<rparr>)"
| read_panics:
    "\<lbrakk>sv_crashed s = None; sv_reading s = cs @ conn # ds;
      listen_read S (sv_t s) conn (sv_net s) = (n, Panic p)\<rbrakk> \<Longrightarrow>
     goroutine_step S handler s (s\<lparr>sv_net := n, sv_crashed := Some p\<rparr>)"
| handle:
    "\<lbrakk>sv_crashed s = None; sv_packets s = ps @ (data, client) # qs;
      handlePacket S (sv_t s) clk handler data client (sv_handler s, sv_net s) = ((h, n), res)\<rbrakk> \<Longrightarrow>
     goroutine_step S handler s (s\<lparr>sv_packets := ps @ qs, sv_handler := h, sv_net := n, sv_crashed := crashed_by res\<rparr>)"

inductive server_step ::
    "('n, 'a, 's) udp_sockets \<Rightarrow> 'h dns_responder \<Rightarrow> ('n, 'a, 's, 'h) server \<Rightarrow> ('n, 'a, 's, 'h) server \<Rightarrow> bool"
  for S handler where
  control: "control_step S s t \<Longrightarrow> server_step S handler s t"
| goroutine: "goroutine_step S handler s t \<Longrightarrow> server_step S handler s t"

inductive server_reach ::
    "('n, 'a, 's) udp_sockets \<Rightarrow> 'h dns_responder \<Rightarrow> ('n, 'a, 's, 'h) server \<Rightarrow> ('n, 'a, 's, 'h) server \<Rightarrow> bool"
  for S handler s0 where
  initially: "server_reach S handler s0 s0"
| onward: "\<lbrakk>server_reach S handler s0 s; server_step S handler s t\<rbrakk> \<Longrightarrow> server_reach S handler s0 t"

inductive_cases control_stepE: "control_step S s t"
inductive_cases goroutine_stepE: "goroutine_step S handler s t"
inductive_cases server_stepE: "server_step S handler s t"

lemmas step_elims = server_stepE control_stepE goroutine_stepE

end
