(* ===== verification/TransportProps.thy ===== *)
theory TransportProps
  imports Transport
begin

text \<open>
  What the transport promises: it holds one socket exactly while it runs, at most one
  goroutine reads at a time, a stopped or cancelled server takes at most the packet it is
  reading, a transport cannot be used again after \<open>Stop\<close>, and what can end the process.
\<close>

section \<open>The socket interface\<close>

text \<open>The sockets that are open in a state of the network, and how the calls change them\<close>

locale udp_network =
  fixes S :: "('n, 'a, 's) udp_sockets" and opened :: "'n \<Rightarrow> 's set"
  assumes listen: "sk_ListenUDP S a n = (n', Ret conn) \<Longrightarrow> conn \<notin> opened n \<and> opened n' = insert conn (opened n)"
    and listen_fails: "sk_ListenUDP S a n = (n', Err e) \<Longrightarrow> opened n' = opened n"
    and closing: "sk_Close S conn n = (n', err) \<Longrightarrow> opened n' = opened n - {conn}"
    and reading: "sk_ReadFromUDP S conn k n = (n', r) \<Longrightarrow> opened n' = opened n"
    and closed: "conn \<notin> opened n \<Longrightarrow> \<exists>n' e. sk_ReadFromUDP S conn k n = (n', Err e)"
    and read_size: "sk_ReadFromUDP S conn k n = (n', Ret (data, a)) \<Longrightarrow> length data \<le> k"
    and writing: "sk_WriteToUDP S conn data a n = (n', err) \<Longrightarrow> opened n' = opened n"
    and calm: "\<not> panics (sk_ResolveUDPAddr S addr)" "\<not> panics (snd (sk_ListenUDP S a n))"
      "\<not> panics (snd (sk_ReadFromUDP S conn k n))"
begin

definition holds :: "'s udp_transport \<Rightarrow> 'n \<Rightarrow> bool" where
  "holds t n \<longleftrightarrow> (if ut_running t then \<exists>conn. ut_conn t = Some conn \<and> opened n = {conn} else opened n = {})"

lemma Start_cases:
  assumes "udp_Start S t n = (t', n', res)"
  shows "(is_ret res \<and> \<not> ut_running t \<and> (\<exists>conn. t' = t\<lparr>ut_conn := Some conn, ut_running := True\<rparr>
            \<and> opened n' = insert conn (opened n)))
    \<or> (\<not> is_ret res \<and> \<not> panics res \<and> t' = t \<and> opened n' = opened n)"
proof -
  have a: "sk_ResolveUDPAddr S (ut_addr t) \<noteq> Panic p" for p using calm(1) by (metis panics_simps(3))
  have b: "sk_ListenUDP S x n \<noteq> (m, Panic p)" for x m p using calm(2) by (metis panics_simps(3) snd_conv)
  show ?thesis
    using assms a b
    by (auto simp: udp_Start_def split: if_splits outcome.splits prod.splits dest: listen listen_fails)
qed

lemma Stop_cases:
  assumes "udp_Stop S t n = (t', n', res)"
  shows "(\<not> ut_running t \<and> t' = t \<and> n' = n \<and> res = Ret ())
    \<or> (ut_running t \<and> ut_stopped t \<and> t' = t \<and> n' = n \<and> res = Panic CloseOfClosedChannel)
    \<or> (ut_running t \<and> \<not> ut_stopped t \<and> t' = t\<lparr>ut_stopped := True, ut_running := False\<rparr> \<and> \<not> panics res
        \<and> opened n' = opened n - set_option (ut_conn t))"
  using assms by (auto simp: udp_Stop_def Let_def split: if_splits option.splits prod.splits dest: closing)

lemma handlePacket_opened:
  "handlePacket S t clk handler data a (h, n) = ((h', n'), res) \<Longrightarrow> opened n' = opened n"
  by (auto simp: handlePacket_def Let_def split: outcome.splits prod.splits option.splits dest: writing)

lemma read_opened: "listen_read S t conn n = (n', r) \<Longrightarrow> opened n' = opened n"
  by (auto simp: listen_read_def Let_def split: option.splits prod.splits outcome.splits if_splits dest: reading)

lemma read_calm: "listen_read S t conn n \<noteq> (n', Panic p)"
proof
  assume "listen_read S t conn n = (n', Panic p)"
  then obtain c m where "sk_ReadFromUDP S c 512 n = (m, Panic p)"
    by (auto simp: listen_read_def Let_def split: option.splits prod.splits outcome.splits if_splits)
  then show False using calm(3) by (metis panics_simps(3) snd_conv)
qed

lemma read_packet_size: "listen_read S t conn n = (n', Ret (LoopPacket data a)) \<Longrightarrow> length data \<le> 512"
  by (auto simp: listen_read_def Let_def split: option.splits prod.splits outcome.splits if_splits dest: read_size)

text \<open>The invariant of the server\<close>

definition server_inv :: "('n, 'a, 's, 'h) server \<Rightarrow> bool" where
  "server_inv s \<longleftrightarrow> holds (sv_t s) (sv_net s)
     \<and> length (sv_reading s) \<le> 1
     \<and> (\<not> ut_stopped (sv_t s) \<longrightarrow> sv_loops s + length (sv_reading s) \<le> 1)
     \<and> (\<not> ut_stopped (sv_t s) \<and> \<not> ut_running (sv_t s) \<longrightarrow> sv_loops s = 0 \<and> sv_reading s = [])
     \<and> (\<not> ut_stopped (sv_t s) \<longrightarrow> set (sv_reading s) \<subseteq> {ut_conn (sv_t s)})
     \<and> (\<forall>(data, a) \<in> set (sv_packets s). length data \<le> 512)"

lemma server_inv_init: "opened n = {} \<Longrightarrow> server_inv (server_init addr codec n h)"
  by (simp add: server_inv_def server_init_def holds_def NewUDPTransport_def)

lemma control_step_inv:
  assumes "control_step S s s'" and "server_inv s"
  shows "server_inv s'"
  using assms
proof (induction rule: control_step.induct)
  case (start s t n res)
  from Start_cases [OF start(2)] start(3) show ?case by (auto simp: server_inv_def holds_def)
next
  case (stop s t n res)
  from Stop_cases [OF stop(2)] stop(3) show ?case by (auto simp: server_inv_def holds_def)
qed (auto simp: server_inv_def)

lemma goroutine_step_inv:
  assumes "goroutine_step S handler s s'" and "server_inv s"
  shows "server_inv s'"
  using assms
proof (induction rule: goroutine_step.induct)
  case (read_packet s cs conn ds n data client)
  then show ?case
    using read_opened [OF read_packet(3)] read_packet_size [OF read_packet(3)]
    by (auto simp: server_inv_def holds_def)
next
  case (read_returns s cs conn ds n)
  then show ?case using read_opened [OF read_returns(3)] by (auto simp: server_inv_def holds_def)
next
  case (read_continues s cs conn ds n)
  then show ?case using read_opened [OF read_continues(3)] by (auto simp: server_inv_def holds_def)
next
  case (read_panics s cs conn ds n p)
  then show ?case using read_calm by blast
next
  case (handle s ps data client qs clk h n res)
  then show ?case using handlePacket_opened [OF handle(3)] by (auto simp: server_inv_def holds_def)
qed (auto simp: server_inv_def listen_select_def)

lemma server_step_inv: "server_step S handler s s' \<Longrightarrow> server_inv s \<Longrightarrow> server_inv s'"
  by (auto elim!: server_stepE intro: control_step_inv goroutine_step_inv)

lemma server_reach_inv:
  "server_reach S handler s0 s \<Longrightarrow> server_inv s0 \<Longrightarrow> server_inv s"
  by (induction rule: server_reach.induct) (auto intro: server_step_inv)

end

section \<open>A network in memory\<close>

text \<open>The open sockets (each named by its address), the datagrams to read and those written\<close>

type_synonym mem_net = "string list \<times> (bytes \<times> string) list \<times> (bytes \<times> string) list"

definition mem_Resolve :: "string \<Rightarrow> string outcome" where
  "mem_Resolve addr = (if addr = '''' then Err (Errorf ''missing address'') else Ret addr)"

fun mem_Listen :: "string \<Rightarrow> mem_net \<Rightarrow> mem_net \<times> string outcome" where
  "mem_Listen a (socks, ib, ob) =
     (if a \<in> set socks then ((socks, ib, ob), Err (Errorf ''address already in use''))
      else ((a # socks, ib, ob), Ret a))"

fun mem_Close :: "string \<Rightarrow> mem_net \<Rightarrow> mem_net \<times> error option" where
  "mem_Close conn (socks, ib, ob) = ((removeAll conn socks, ib, ob), None)"

fun mem_Read :: "string \<Rightarrow> nat \<Rightarrow> mem_net \<Rightarrow> mem_net \<times> (bytes \<times> string) outcome" where
  "mem_Read conn k (socks, ib, ob) =
     (if conn \<notin> set socks then ((socks, ib, ob), Err (Errorf ''use of closed network connection''))
      else (case ib of
              [] \<Rightarrow> ((socks, ib, ob), Err (Errorf ''connection refused''))
            | (data, a) # ib \<Rightarrow> ((socks, ib, ob), Ret (take k data, a))))"

fun mem_Write :: "string \<Rightarrow> bytes \<Rightarrow> string \<Rightarrow> mem_net \<Rightarrow> mem_net \<times> error option" where
  "mem_Write conn data a (socks, ib, ob) = ((socks, ib, ob @ [(data, a)]), None)"

definition mem_sockets :: "(mem_net, string, string) udp_sockets" where
  "mem_sockets = \<lparr>sk_ResolveUDPAddr = mem_Resolve, sk_ListenUDP = mem_Listen, sk_Close = mem_Close,
     sk_ReadFromUDP = mem_Read, sk_WriteToUDP = mem_Write\<rparr>"

definition mem_opened :: "mem_net \<Rightarrow> string set" where
  "mem_opened n = set (fst n)"

interpretation mem: udp_network mem_sockets mem_opened
proof unfold_locales
  fix a n n' conn
  assume "sk_ListenUDP mem_sockets a n = (n', Ret conn)"
  then show "conn \<notin> mem_opened n \<and> mem_opened n' = insert conn (mem_opened n)"
    by (cases n) (auto simp: mem_sockets_def mem_opened_def split: if_splits)
next
  fix a n n' e
  assume "sk_ListenUDP mem_sockets a n = (n', Err e)"
  then show "mem_opened n' = mem_opened n"
    by (cases n) (auto simp: mem_sockets_def mem_opened_def split: if_splits)
next
  fix conn n n' err
  assume "sk_Close mem_sockets conn n = (n', err)"
  then show "mem_opened n' = mem_opened n - {conn}"
    by (cases n) (auto simp: mem_sockets_def mem_opened_def)
next
  fix conn k n n' r
  assume "sk_ReadFromUDP mem_sockets conn k n = (n', r)"
  then show "mem_opened n' = mem_opened n"
    by (cases n) (auto simp: mem_sockets_def mem_opened_def split: if_splits list.splits)
next
  fix conn k n
  assume "conn \<notin> mem_opened n"
  then show "\<exists>n' e. sk_ReadFromUDP mem_sockets conn k n = (n', Err e)"
    by (cases n) (simp add: mem_sockets_def mem_opened_def)
next
  fix conn k n n' data a
  assume "sk_ReadFromUDP mem_sockets conn k n = (n', Ret (data, a))"
  then show "length data \<le> k"
    by (cases n) (auto simp: mem_sockets_def split: if_splits list.splits)
next
  fix conn data a n n' err
  assume "sk_WriteToUDP mem_sockets conn data a n = (n', err)"
  then show "mem_opened n' = mem_opened n"
    by (cases n) (auto simp: mem_sockets_def mem_opened_def)
next
  fix addr
  show "\<not> panics (sk_ResolveUDPAddr mem_sockets addr)" by (simp add: mem_sockets_def mem_Resolve_def)
next
  fix a n
  show "\<not> panics (snd (sk_ListenUDP mem_sockets a n))" by (cases n) (simp add: mem_sockets_def)
next
  fix conn k n
  show "\<not> panics (snd (sk_ReadFromUDP mem_sockets conn k n))"
    by (cases n) (simp add: mem_sockets_def split: list.splits)
qed

section \<open>Decoding does not panic\<close>

lemma DecodeQuery_no_panic: "DecodeQuery data \<noteq> Some (Panic p)"
  by (auto simp: DecodeQuery_def Let_def decodeQuestion_def dbind_eq_Panic
      split: if_splits prod.splits)

lemma handlePacket_panics:
  assumes "handlePacket S t clk handler data a (h, n) = ((h', n'), Panic p)" and "ut_codec t = NewUDPCodec X"
  shows "(DecodeQuery data = None \<and> p = StackOverflow)
    \<or> (\<exists>q m. DecodeQuery data = Some (Ret q) \<and> handler h q = (m, Panic p))"
proof -
  have e: "EncodeResponse clk resp \<noteq> Panic x" for resp x
    using udp.response_error [of X clk resp] by (metis NewUDPCodec_simps(4) panics_simps(3))
  have f: "fatal (DecodeQuery data) = Panic x \<Longrightarrow> DecodeQuery data = None \<and> x = StackOverflow" for x
    using DecodeQuery_no_panic [of data x] by (cases "DecodeQuery data") auto
  have g: "fatal (DecodeQuery data) = Ret q \<Longrightarrow> DecodeQuery data = Some (Ret q)" for q
    by (cases "DecodeQuery data") auto
  show ?thesis
    using assms(1) e
    by (auto simp: handlePacket_def Let_def assms(2) split: outcome.splits prod.splits option.splits dest!: f g)
qed

text \<open>
  A step in which a packet ends the process: the packet was waiting for its goroutine, and
  the decoder does not return on it, or the service panics on the question it holds.
\<close>

definition killed_by ::
    "'h dns_responder \<Rightarrow> ('n, 'a, 's, 'h) server \<Rightarrow> ('n, 'a, 's, 'h) server \<Rightarrow> bytes \<Rightarrow> 'a \<Rightarrow> panic \<Rightarrow> bool" where
  "killed_by handler s s' data client p \<longleftrightarrow>
     (\<exists>ps qs. sv_packets s = ps @ (data, client) # qs \<and> sv_packets s' = ps @ qs)
     \<and> ((p = StackOverflow \<and> DecodeQuery data = None)
        \<or> (\<exists>q h. DecodeQuery data = Some (Ret q) \<and> handler (sv_handler s) q = (h, Panic p)))"

context udp_network
begin

lemma server_step_codec:
  "server_step S handler s s' \<Longrightarrow> ut_codec (sv_t s') = ut_codec (sv_t s)"
  by (auto elim!: step_elims dest!: Start_cases Stop_cases)

lemma server_reach_codec: "server_reach S handler s0 s \<Longrightarrow> ut_codec (sv_t s) = ut_codec (sv_t s0)"
  by (induction rule: server_reach.induct) (simp_all add: server_step_codec)

lemma control_step_crash:
  assumes "control_step S s s'" and "sv_crashed s' = Some p"
  shows "p = CloseOfClosedChannel \<and> ut_running (sv_t s') \<and> ut_stopped (sv_t s')"
  using assms
proof (induction rule: control_step.induct)
  case (start s t n res)
  from Start_cases [OF start(2)] start(3) show ?case by (cases res) auto
next
  case (stop s t n res)
  from Stop_cases [OF stop(2)] stop(3) show ?case by (cases res) auto
qed simp

lemma goroutine_step_crash:
  assumes "goroutine_step S handler s s'" and "ut_codec (sv_t s) = NewUDPCodec X" and "sv_crashed s' = Some p"
  obtains data client where "killed_by handler s s' data client p"
  using assms
proof (induction rule: goroutine_step.induct)
  case (read_panics s cs conn ds n p)
  then show ?case using read_calm by blast
next
  case (handle s ps data client qs clk h n res)
  have "res = Panic p" using handle.prems(3) by (cases res) auto
  from handlePacket_panics [OF handle(3) [unfolded this] handle.prems(2)] handle(2)
  have "killed_by handler s (s\<lparr>sv_packets := ps @ qs, sv_handler := h, sv_net := n, sv_crashed := crashed_by res\<rparr>) data client p"
    by (auto simp: killed_by_def)
  then show ?case by (rule handle.prems(1))
qed simp_all

end

text \<open>A packet that waits for its goroutine was read from a socket before.\<close>

lemma goroutine_step_packets:
  assumes "goroutine_step S handler s s'" and "pk \<in> set (sv_packets s')"
  shows "pk \<in> set (sv_packets s) \<or> (\<exists>conn m. sk_ReadFromUDP S conn 512 (sv_net s) = (m, Ret pk))"
  using assms
proof (induction rule: goroutine_step.induct)
  case (read_packet s cs conn ds n data client)
  have "\<exists>c m. sk_ReadFromUDP S c 512 (sv_net s) = (m, Ret (data, client))"
    using read_packet(3)
    by (auto simp: listen_read_def Let_def split: option.splits prod.splits outcome.splits if_splits)
  then show ?case using read_packet.prems by auto
qed auto

section \<open>Shutting down\<close>

lemma Start_stopped: "ut_stopped (fst (udp_Start S t n)) = ut_stopped t"
  by (auto simp: udp_Start_def split: outcome.splits prod.splits)

lemma Stop_stopped: "ut_stopped t \<Longrightarrow> ut_stopped (fst (udp_Stop S t n))"
  by (auto simp: udp_Stop_def Let_def split: option.splits prod.splits)

lemma server_step_shut:
  assumes "server_step S handler s t" and "listen_select (sv_t s) (sv_done s)"
  shows "listen_select (sv_t t) (sv_done t)
    \<and> length (sv_reading t) + length (sv_packets t) \<le> length (sv_reading s) + length (sv_packets s)
    \<and> (ut_stopped (sv_t s) \<longrightarrow> ut_stopped (sv_t t))"
  using assms(1)
proof cases
  case control
  then show ?thesis using assms(2)
  proof cases
    case (start t n res)
    then show ?thesis using Start_stopped [of S "sv_t s" "sv_net s"] assms(2) by (simp add: listen_select_def)
  next
    case (stop t n res)
    then show ?thesis using Stop_stopped [of "sv_t s" S "sv_net s"] assms(2) by (auto simp: listen_select_def)
  qed (simp add: listen_select_def)
next
  case goroutine
  then show ?thesis using assms(2) by cases (auto simp: listen_select_def)
qed

lemma server_reach_shut:
  assumes "server_reach S handler s t" and "listen_select (sv_t s) (sv_done s)"
  shows "listen_select (sv_t t) (sv_done t)
    \<and> length (sv_reading t) + length (sv_packets t) \<le> length (sv_reading s) + length (sv_packets s)
    \<and> (ut_stopped (sv_t s) \<longrightarrow> ut_stopped (sv_t t))"
  using assms
proof (induction rule: server_reach.induct)
  case (onward t u)
  then show ?case using server_step_shut [OF onward.hyps(2)] by fastforce
qed simp

text \<open>What is left for the goroutines of a server to do\<close>

definition pending :: "('n, 'a, 's, 'h) server \<Rightarrow> nat" where
  "pending s = sv_loops s + length (sv_reading s) + length (sv_packets s)"

context udp_network
begin

text \<open>The server after \<open>Stop\<close>, until a further \<open>Start\<close>\<close>

definition shut :: "('n, 'a, 's, 'h) server \<Rightarrow> bool" where
  "shut s \<longleftrightarrow> ut_stopped (sv_t s) \<and> \<not> ut_running (sv_t s) \<and> opened (sv_net s) = {}"

lemma shut_read:
  assumes "shut s"
  shows "\<exists>n. listen_read S (sv_t s) conn (sv_net s) = (n, Ret LoopReturns)"
proof (cases conn)
  case (Some c)
  obtain n e where "sk_ReadFromUDP S c 512 (sv_net s) = (n, Err e)"
    using closed [of c "sv_net s" 512] assms by (auto simp: shut_def)
  then show ?thesis using assms Some by (simp add: listen_read_def shut_def)
qed (use assms in \<open>simp add: listen_read_def shut_def\<close>)

lemma shut_step:
  assumes "goroutine_step S handler s t" and "shut s"
  shows "shut t \<and> Suc (pending t) = pending s"
  using assms(1)
proof cases
  case (select_reads k)
  then show ?thesis using assms(2) by (simp add: shut_def listen_select_def)
next
  case (read_returns cs conn ds n)
  then show ?thesis using assms(2) read_opened [OF read_returns(4)] by (simp add: shut_def pending_def)
next
  case (read_continues cs conn ds n)
  then show ?thesis using shut_read [OF assms(2), of conn] by auto
next
  case (read_packet cs conn ds n data client)
  then show ?thesis using shut_read [OF assms(2), of conn] by auto
next
  case (read_panics cs conn ds n p)
  then show ?thesis using shut_read [OF assms(2), of conn] by auto
next
  case (handle ps data client qs clk h n res)
  then show ?thesis using assms(2) handlePacket_opened [OF handle(4)] by (simp add: shut_def pending_def)
qed (use assms(2) in \<open>simp add: shut_def pending_def\<close>)

lemma shut_run:
  "\<lbrakk>(goroutine_step S handler ^^ k) s t; shut s\<rbrakk> \<Longrightarrow> shut t \<and> k + pending t = pending s"
proof (induction k arbitrary: t)
  case (Suc k)
  then obtain u where "(goroutine_step S handler ^^ k) s u" and "goroutine_step S handler u t" by auto
  with Suc shut_step show ?case by fastforce
qed simp

lemma shut_progress:
  assumes "shut s" and "sv_crashed s = None" and "0 < pending s"
  shows "\<exists>t. goroutine_step S handler s t"
proof -
  consider k where "sv_loops s = Suc k" | conn ds where "sv_reading s = [] @ conn # ds"
    | data client qs where "sv_packets s = [] @ (data, client) # qs"
    using assms(3) by (cases "sv_loops s"; cases "sv_reading s"; cases "sv_packets s") (auto simp: pending_def)
  then show ?thesis
  proof cases
    case 1
    moreover have "listen_select (sv_t s) (sv_done s)" using assms(1) by (simp add: shut_def listen_select_def)
    ultimately show ?thesis using goroutine_step.select_returns assms(2) by blast
  next
    case 2
    then show ?thesis using goroutine_step.read_returns [OF assms(2)] shut_read [OF assms(1)] by blast
  next
    case 3
    obtain h n res where "handlePacket S (sv_t s) (\<lambda>_. 0) handler data client (sv_handler s, sv_net s) = ((h, n), res)"
      by (metis prod.exhaust)
    from goroutine_step.handle [OF assms(2) 3 this] show ?thesis by blast
  qed
qed

end

section \<open>Properties\<close>

text \<open>
  C17. The life of the socket: in every state of a server over a network where no socket was
  open, the open sockets are exactly that of the running transport (none when it does not
  run); at most one goroutine is reading, from that socket unless the transport was stopped; and
  every packet handed on has at most 512 bytes.
\<close>

theorem transport_socket:
  assumes "udp_network S opened" and "opened n = {}"
    and "server_reach S handler (server_init addr codec n h) s"
  shows "opened (sv_net s) = (if ut_running (sv_t s) then set_option (ut_conn (sv_t s)) else {})
    \<and> (ut_running (sv_t s) \<longrightarrow> ut_conn (sv_t s) \<noteq> None)
    \<and> length (sv_reading s) \<le> 1 \<and> (\<not> ut_stopped (sv_t s) \<longrightarrow> set (sv_reading s) \<subseteq> {ut_conn (sv_t s)})
    \<and> (\<forall>(data, a) \<in> set (sv_packets s). length data \<le> 512)"
proof -
  have "udp_network.server_inv opened s"
    using udp_network.server_reach_inv [OF assms(1,3)] udp_network.server_inv_init [OF assms(1,2)] .
  then show ?thesis
    by (auto simp: udp_network.server_inv_def [OF assms(1)] udp_network.holds_def [OF assms(1)])
qed

text \<open>
  Shutting down completes. After \<open>Stop\<close>, and until a further \<open>Start\<close>, no goroutine takes
  another packet: each of their steps ends a loop, a read or a packet, one of them can always
  be taken while there is any left and the process lives, and so they all end after as many
  steps as there were loops, reads and packets.
\<close>

theorem shutdown_completes:
  assumes "udp_network S opened" and "opened n = {}"
    and "server_reach S handler (server_init addr codec n h) s"
    and "ut_stopped (sv_t s)" and "\<not> ut_running (sv_t s)"
    and "(goroutine_step S handler ^^ k) s t"
  shows "k + pending t = pending s
    \<and> (sv_crashed t = None \<longrightarrow> 0 < pending t \<longrightarrow> (\<exists>u. goroutine_step S handler t u))
    \<and> opened (sv_net t) = {}"
proof -
  have "udp_network.server_inv opened s"
    using udp_network.server_reach_inv [OF assms(1,3)] udp_network.server_inv_init [OF assms(1,2)] .
  then have "udp_network.shut opened s"
    using assms(4,5) by (simp add: udp_network.server_inv_def [OF assms(1)] udp_network.holds_def [OF assms(1)]
        udp_network.shut_def [OF assms(1)])
  from udp_network.shut_run [OF assms(1,6) this] udp_network.shut_progress [OF assms(1)]
  show ?thesis by (auto simp: udp_network.shut_def [OF assms(1)])
qed

text \<open>
  Once the context is cancelled or \<open>Stop\<close> has closed the channel, whatever is called after
  that: the packets still to be handled and the running reads together never become more.
\<close>

lemma shutdown_drains:
  assumes "listen_select (sv_t s) (sv_done s)" and "server_reach S handler s t"
  shows "listen_select (sv_t t) (sv_done t)
    \<and> length (sv_reading t) + length (sv_packets t) \<le> length (sv_reading s) + length (sv_packets s)"
  using server_reach_shut [OF assms(2,1)] by blast

text \<open>
  A transport that was stopped cannot be used again: \<open>stopCh\<close> stays closed, so after a
  further \<open>Start\<close>, which succeeds as before, every listening goroutine returns at its
  \<open>select\<close>, and the next \<open>Stop\<close> of the running transport panics.
\<close>

theorem stopped_for_ever:
  assumes "ut_stopped (sv_t s)" and "server_reach S handler s t"
  shows "listen_select (sv_t t) d
    \<and> snd (snd (udp_Stop S (sv_t t) n)) = (if ut_running (sv_t t) then Panic CloseOfClosedChannel else Ret ())"
proof -
  have "ut_stopped (sv_t t)"
    using server_reach_shut [OF assms(2)] assms(1) by (simp add: listen_select_def)
  then show ?thesis by (simp add: listen_select_def udp_Stop_def)
qed

text \<open>The last step of a server that died, and the state before it\<close>

lemma server_crash_cases:
  assumes "udp_network S opened" and "server_reach S handler (server_init addr (NewUDPCodec X) n h) s"
    and "sv_crashed s = Some p"
  obtains s1 data client where "server_reach S handler (server_init addr (NewUDPCodec X) n h) s1"
      and "killed_by handler s1 s data client p"
    | "p = CloseOfClosedChannel" and "ut_running (sv_t s)" and "ut_stopped (sv_t s)"
  using assms(2)
proof cases
  case initially
  then show ?thesis using assms(3) by (simp add: server_init_def)
next
  case (onward s1)
  have c: "ut_codec (sv_t s1) = NewUDPCodec X"
    using udp_network.server_reach_codec [OF assms(1) onward(1)] by (simp add: server_init_def NewUDPTransport_def)
  from onward(2) show ?thesis
  proof cases
    case control
    from udp_network.control_step_crash [OF assms(1) this assms(3)] that(2) show ?thesis by blast
  next
    case goroutine
    from udp_network.goroutine_step_crash [OF assms(1) this c assms(3)] that(1) onward(1) show ?thesis by metis
  qed
qed

text \<open>
  C26. One packet ends the server: a datagram of 14 bytes or more that announces one question
  and whose name is a compression pointer to itself makes the goroutine that handles it
  overflow the stack, whatever the service and the state of the server.
\<close>

theorem query_of_death:
  assumes "14 \<le> length data" and "get16 data 4 = 1" and "data ! 12 = 0xC0" and "data ! 13 = 0x0C"
    and "ut_codec (sv_t s) = NewUDPCodec X" and "sv_crashed s = None" and "(data, client) \<in> set (sv_packets s)"
  shows "\<exists>s'. server_step S handler s s' \<and> sv_crashed s' = Some StackOverflow"
proof -
  obtain ps qs where p: "sv_packets s = ps @ (data, client) # qs" using assms(7) by (meson split_list)
  have "handlePacket S (sv_t s) clk handler data client (sv_handler s, sv_net s)
      = ((sv_handler s, sv_net s), Panic StackOverflow)" for clk
    using DecodeQuery_self_pointer_diverges [OF assms(1-4)] assms(5) by (simp add: handlePacket_def)
  from goroutine_step.handle [OF assms(6) p this [of undefined]] show ?thesis
    by (fastforce intro: server_step.goroutine)
qed

section \<open>Concrete runs\<close>

text \<open>A service that answers every query with an empty response\<close>

definition echo :: "unit dns_responder" where
  "echo h q = (h, Ret (NewDNSErrorResponse (q_ID q) NOERROR))"

definition after_start :: "('n, 'a, 's) udp_sockets \<Rightarrow> ('n, 'a, 's, 'h) server \<Rightarrow> ('n, 'a, 's, 'h) server" where
  "after_start S s = (case udp_Start S (sv_t s) (sv_net s) of (t, n, res) \<Rightarrow>
     s\<lparr>sv_t := t, sv_net := n, sv_loops := (if is_ret res then Suc (sv_loops s) else sv_loops s),
       sv_crashed := crashed_by res\<rparr>)"

definition after_stop :: "('n, 'a, 's) udp_sockets \<Rightarrow> ('n, 'a, 's, 'h) server \<Rightarrow> ('n, 'a, 's, 'h) server" where
  "after_stop S s = (case udp_Stop S (sv_t s) (sv_net s) of (t, n, res) \<Rightarrow>
     s\<lparr>sv_t := t, sv_net := n, sv_crashed := crashed_by res\<rparr>)"

lemma after_start_step: "sv_crashed s = None \<Longrightarrow> server_step S handler s (after_start S s)"
proof -
  assume c: "sv_crashed s = None"
  obtain t n res where e: "udp_Start S (sv_t s) (sv_net s) = (t, n, res)" by (metis prod_cases3)
  from server_step.control [OF control_step.start [OF c e]] show ?thesis unfolding after_start_def e prod.case .
qed

lemma after_stop_step: "sv_crashed s = None \<Longrightarrow> server_step S handler s (after_stop S s)"
proof -
  assume c: "sv_crashed s = None"
  obtain t n res where e: "udp_Stop S (sv_t s) (sv_net s) = (t, n, res)" by (metis prod_cases3)
  from server_step.control [OF control_step.stop [OF c e]] show ?thesis unfolding after_stop_def e prod.case .
qed

lemma after_start_mem:
  "\<lbrakk>\<not> ut_running (sv_t s); ut_addr (sv_t s) \<noteq> ''''; sv_net s = ([], ib, ob)\<rbrakk> \<Longrightarrow>
     after_start mem_sockets s = s\<lparr>sv_t := (sv_t s)\<lparr>ut_conn := Some (ut_addr (sv_t s)), ut_running := True\<rparr>,
       sv_net := ([ut_addr (sv_t s)], ib, ob), sv_loops := Suc (sv_loops s), sv_crashed := None\<rparr>"
  by (simp add: after_start_def udp_Start_def mem_sockets_def mem_Resolve_def)

lemma after_stop_mem:
  "\<lbrakk>ut_running (sv_t s); \<not> ut_stopped (sv_t s); ut_conn (sv_t s) = Some a; sv_net s = ([a], ib, ob)\<rbrakk> \<Longrightarrow>
     after_stop mem_sockets s = s\<lparr>sv_t := (sv_t s)\<lparr>ut_stopped := True, ut_running := False\<rparr>,
       sv_net := ([], ib, ob), sv_crashed := None\<rparr>"
  by (simp add: after_stop_def udp_Stop_def mem_sockets_def)

lemma after_stop_again:
  "\<lbrakk>ut_running (sv_t s); ut_stopped (sv_t s)\<rbrakk> \<Longrightarrow>
     after_stop S s = s\<lparr>sv_crashed := Some CloseOfClosedChannel\<rparr>"
  by (simp add: after_stop_def udp_Stop_def)

definition empty_net :: mem_net where
  "empty_net = ([], [], [])"

text \<open>\<open>Start\<close>, \<open>Stop\<close>, \<open>Start\<close> and \<open>Stop\<close> of any server\<close>

lemma restart_run:
  fixes s0 :: "(mem_net, string, string, 'h) server"
  assumes "s0 = server_init addr codec empty_net h" and addr: "addr \<noteq> ''''"
  obtains s where "server_reach mem_sockets handler s0 s" and "sv_crashed s = Some CloseOfClosedChannel"
    and "ut_running (sv_t s)" and "ut_stopped (sv_t s)"
proof -
  define s1 where "s1 = after_start mem_sockets s0"
  define s2 where "s2 = after_stop mem_sockets s1"
  define s3 where "s3 = after_start mem_sockets s2"
  define s4 where "s4 = after_stop mem_sockets s3"
  have f0: "sv_crashed s0 = None" "\<not> ut_running (sv_t s0)" "\<not> ut_stopped (sv_t s0)" "ut_addr (sv_t s0) = addr"
    "sv_net s0 = ([], [], [])"
    by (simp_all add: assms(1) server_init_def NewUDPTransport_def empty_net_def)
  then have f1: "sv_crashed s1 = None" "ut_running (sv_t s1)" "\<not> ut_stopped (sv_t s1)" "ut_addr (sv_t s1) = addr"
    "ut_conn (sv_t s1) = Some addr" "sv_net s1 = ([addr], [], [])"
    using addr by (simp_all add: s1_def after_start_mem)
  then have f2: "sv_crashed s2 = None" "\<not> ut_running (sv_t s2)" "ut_stopped (sv_t s2)" "ut_addr (sv_t s2) = addr"
    "sv_net s2 = ([], [], [])"
    by (simp_all add: s2_def after_stop_mem)
  then have f3: "sv_crashed s3 = None" "ut_running (sv_t s3)" "ut_stopped (sv_t s3)"
    using addr by (simp_all add: s3_def after_start_mem)
  then have f4: "sv_crashed s4 = Some CloseOfClosedChannel" "ut_running (sv_t s4)" "ut_stopped (sv_t s4)"
    by (simp_all add: s4_def after_stop_again)
  have "server_reach mem_sockets handler s0 s1"
    unfolding s1_def by (rule onward [OF initially after_start_step [OF f0(1)]])
  then have "server_reach mem_sockets handler s0 s2"
    unfolding s2_def by (rule onward [OF _ after_stop_step [OF f1(1)]])
  then have "server_reach mem_sockets handler s0 s3"
    unfolding s3_def by (rule onward [OF _ after_start_step [OF f2(1)]])
  then have "server_reach mem_sockets handler s0 s4"
    unfolding s4_def by (rule onward [OF _ after_stop_step [OF f3(1)]])
  then show ?thesis using that f4 by blast
qed

text \<open>A new server, then \<open>Start\<close>, \<open>Stop\<close>, \<open>Start\<close> and \<open>Stop\<close>\<close>

definition server0 :: "(mem_net, string, string, unit) server" where
  "server0 = server_init '':53'' (NewUDPCodec sample_extern) empty_net ()"

definition server1 :: "(mem_net, string, string, unit) server" where
  "server1 = after_start mem_sockets server0"

definition server2 :: "(mem_net, string, string, unit) server" where
  "server2 = after_stop mem_sockets server1"

definition server3 :: "(mem_net, string, string, unit) server" where
  "server3 = after_start mem_sockets server2"

definition server4 :: "(mem_net, string, string, unit) server" where
  "server4 = after_stop mem_sockets server3"

lemmas server_run_simps = server4_def server3_def server2_def server1_def server0_def server_init_def
  NewUDPTransport_def after_start_mem after_stop_mem after_stop_again empty_net_def

lemma server_crashed [simp]:
  "sv_crashed server0 = None" "sv_crashed server1 = None" "sv_crashed server2 = None" "sv_crashed server3 = None"
  "sv_crashed server4 = Some CloseOfClosedChannel"
  by (simp_all add: server_run_simps)

lemma server_flags [simp]:
  "ut_running (sv_t server1)" "ut_conn (sv_t server1) = Some '':53''"
  "ut_stopped (sv_t server2)" "ut_running (sv_t server3)"
  "sv_reading server2 = []" "sv_packets server2 = []"
  by (simp_all add: server_run_simps)

lemma server1_reach: "server_reach mem_sockets echo server0 server1"
  unfolding server1_def by (rule onward [OF initially after_start_step]) simp

lemma server3_reach: "server_reach mem_sockets echo server2 server3"
  unfolding server3_def by (rule onward [OF initially after_start_step]) simp

lemma server4_reach: "server_reach mem_sockets echo server0 server4"
proof -
  have "server_reach mem_sockets echo server0 server2"
    unfolding server2_def by (rule onward [OF server1_reach after_stop_step]) simp
  then have "server_reach mem_sockets echo server0 server3"
    unfolding server3_def by (rule onward [OF _ after_start_step]) simp
  then show ?thesis
    unfolding server4_def by (rule onward [OF _ after_stop_step]) simp
qed

theorem transport_socket_witness:
  "mem_opened (sv_net server1) = {'':53''} \<and> length (sv_reading server1) \<le> 1"
proof -
  have o: "mem_opened empty_net = {}" by (simp add: mem_opened_def empty_net_def)
  from transport_socket [OF mem.udp_network_axioms o server1_reach [unfolded server0_def]] show ?thesis by simp
qed

text \<open>The stopped server, whose listening goroutine has not yet returned\<close>

theorem shutdown_completes_witness:
  "pending server2 = 1 \<and> (\<exists>u. goroutine_step mem_sockets echo server2 u)"
proof -
  have o: "mem_opened empty_net = {}" by (simp add: mem_opened_def empty_net_def)
  have r: "server_reach mem_sockets echo server0 server2"
    unfolding server2_def by (rule onward [OF server1_reach after_stop_step]) simp
  have p: "pending server2 = 1" by (simp add: pending_def server_run_simps)
  have "(goroutine_step mem_sockets echo ^^ 0) server2 server2" by simp
  from shutdown_completes [OF mem.udp_network_axioms o r [unfolded server0_def] server_flags(3) _ this] p
  show ?thesis by (simp add: server_run_simps)
qed

theorem stopped_for_ever_witness:
  "listen_select (sv_t server3) False
     \<and> snd (snd (udp_Stop mem_sockets (sv_t server3) (sv_net server3))) = Panic CloseOfClosedChannel"
  using stopped_for_ever [OF server_flags(3) server3_reach] by simp

text \<open>A server with the packet to handle\<close>

definition server_hit :: "(mem_net, string, string, unit) server" where
  "server_hit = server0\<lparr>sv_packets := [([0, 1, 1, 0, 0, 1, 0, 0, 0, 0, 0, 0, 0xC0, 0x0C], ''client'')]\<rparr>"

theorem query_of_death_witness:
  "\<exists>s'. server_step mem_sockets echo server_hit s' \<and> sv_crashed s' = Some StackOverflow"
  by (rule query_of_death [where data = "[0, 1, 1, 0, 0, 1, 0, 0, 0, 0, 0, 0, 0xC0, 0x0C]" and client = "''client''"
        and X = sample_extern])
    (simp_all add: server_hit_def server0_def server_init_def NewUDPTransport_def get16_def)

end
