(* ===== verification/Packets.thy ===== *)
theory Packets
  imports ResolverProps TransportProps
begin

text \<open>
  The goroutines that handle packets, interleaved: \<open>handlePacket\<close> of \<open>udp_transport.go\<close>
  with \<open>HandleQuery\<close> of \<open>resolver.go\<close> and \<open>Get\<close> and \<open>Set\<close> of \<open>dnscache.go\<close>, cut into the
  steps between which another goroutine can run. A goroutine shares with the others the LRU
  cache (each of whose calls is atomic), the socket and the upstream network; the zone cache
  and the block list are only read. \<open>Transport\<close> has the same goroutine as one step.

  What the network of the upstream client is when a goroutine uses it depends on all the
  others, so a step takes the client's state, and its clock readings, from the schedule.
\<close>

section \<open>One goroutine\<close>

text \<open>
  Where it is: before decoding; with a question, before the zone cache, before the cache
  lookup, between the two calls of \<open>Get\<close>, before the upstream client, before \<open>Set\<close>; with
  the response, before encoding and writing it; and at its end.
\<close>

datatype task_phase = Received | Decoded question | Looking question
  | Fetched question "resource_record list" | Forwarding question
  | Answered question "resource_record list" | Responding dns_response | Finished

text \<open>What a step does beyond the cache: nothing, write a datagram, or panic\<close>

datatype task_event = Silent | Writes bytes | Panics panic

definition zone_response :: "question \<Rightarrow> resource_record list \<Rightarrow> error option \<Rightarrow> dns_response" where
  "zone_response q records err =
     (case err of
        Some e \<Rightarrow> if isFatalAliasError e then buildResponse q SERVFAIL [] else buildResponse q NOERROR records
      | None \<Rightarrow> buildResponse q NOERROR records)"

fun task_next ::
    "extern \<Rightarrow> 'c lru \<Rightarrow> dns_codec \<Rightarrow> ('u, 'c dnsCache) resolver \<Rightarrow> bytes \<Rightarrow> 'u \<Rightarrow> readings \<Rightarrow> (nat \<Rightarrow> time) \<Rightarrow>
     task_phase \<Rightarrow> 'c dnsCache \<Rightarrow> task_event \<times> task_phase \<times> 'c dnsCache" where
  "task_next X L C r data u rd clk Received c =
     (case fatal (cd_DecodeQuery C data) of
        Err e \<Rightarrow> (Silent, Finished, c)
      | Panic p \<Rightarrow> (Panics p, Finished, c)
      | Ret query \<Rightarrow> (Silent, Decoded query, c))"
| "task_next X L C r data u rd clk (Decoded query) c =
     (case fatal (resolveFromZone r rd u query) of
        Err e \<Rightarrow> (Silent, Finished, c)
      | Panic p \<Rightarrow> (Panics p, Finished, c)
      | Ret (_, records, found, err) \<Rightarrow>
          if found then (Silent, Responding (zone_response query records err), c)
          else if checkBlocklist r query then (Silent, Responding (buildResponse query NXDOMAIN []), c)
          else (Silent, Looking query, c))"
| "task_next X L C r data u rd clk (Looking query) c =
     (if r_upstreamCache r = None then (Silent, Forwarding query, c)
      else (case cache_fetch L c (Question_CacheKey X query) of
              (c, Some records) \<Rightarrow> (Silent, Fetched query records, c)
            | (c, None) \<Rightarrow> (Silent, Forwarding query, c)))"
| "task_next X L C r data u rd clk (Fetched query records) c =
     (case cache_settle L c (rd_cache rd) (Question_CacheKey X query) records of
        (c, valid, found) \<Rightarrow>
          if found then (Silent, Responding (buildResponse query NOERROR valid), c)
          else (Silent, Forwarding query, c))"
| "task_next X L C r data u rd clk (Forwarding query) c =
     (case snd (resolveUpstream r u query (rd_now rd)) of
        Err e \<Rightarrow> (Silent, Responding (buildResponse query SERVFAIL []), c)
      | Panic p \<Rightarrow> (Panics p, Finished, c)
      | Ret records \<Rightarrow> (Silent, Answered query records, c))"
| "task_next X L C r data u rd clk (Answered query records) c =
     (Silent, Responding (buildResponse query NOERROR records), fst (cacheUpstreamResponse r c records))"
| "task_next X L C r data u rd clk (Responding response) c =
     (case cd_EncodeResponse C clk response of
        Err e \<Rightarrow> (Silent, Finished, c)
      | Panic p \<Rightarrow> (Panics p, Finished, c)
      | Ret responseData \<Rightarrow> (Writes responseData, Finished, c))"
| "task_next X L C r data u rd clk Finished c = (Silent, Finished, c)"

section \<open>All of them\<close>

text \<open>
  The cache, the goroutines (each with its packet and client), the datagrams written so far
  in order, and the panic that ended the process.
\<close>

record ('c, 'a) packets =
  pk_cache :: "'c dnsCache"
  pk_tasks :: "(bytes \<times> 'a \<times> task_phase) list"
  pk_sent :: "(bytes \<times> 'a) list"
  pk_crashed :: "panic option"

text \<open>A packet arrives, or a goroutine takes its next step\<close>

datatype ('a, 'u) packet_act = Arrives bytes 'a | Steps nat 'u readings "nat \<Rightarrow> time"

definition task_step ::
    "extern \<Rightarrow> 'c lru \<Rightarrow> dns_codec \<Rightarrow> ('u, 'c dnsCache) resolver \<Rightarrow> nat \<Rightarrow> 'u \<Rightarrow> readings \<Rightarrow> (nat \<Rightarrow> time) \<Rightarrow>
     ('c, 'a) packets \<Rightarrow> ('c, 'a) packets" where
  "task_step X L C r i u rd clk s =
     (let (data, client, ph) = pk_tasks s ! i;
          (ev, ph', c) = task_next X L C r data u rd clk ph (pk_cache s)
      in s\<lparr>pk_cache := c, pk_tasks := (pk_tasks s)[i := (data, client, ph')],
           pk_sent := (case ev of Writes b \<Rightarrow> pk_sent s @ [(b, client)] | _ \<Rightarrow> pk_sent s),
           pk_crashed := (case ev of Panics p \<Rightarrow> Some p | _ \<Rightarrow> None)\<rparr>)"

fun packets_next ::
    "extern \<Rightarrow> 'c lru \<Rightarrow> dns_codec \<Rightarrow> ('u, 'c dnsCache) resolver \<Rightarrow> ('c, 'a) packets \<Rightarrow> ('a, 'u) packet_act \<Rightarrow>
     ('c, 'a) packets" where
  "packets_next X L C r s (Arrives data client) =
     (if pk_crashed s \<noteq> None then s else s\<lparr>pk_tasks := pk_tasks s @ [(data, client, Received)]\<rparr>)"
| "packets_next X L C r s (Steps i u rd clk) =
     (if pk_crashed s \<noteq> None \<or> length (pk_tasks s) \<le> i then s else task_step X L C r i u rd clk s)"

definition packets_run ::
    "extern \<Rightarrow> 'c lru \<Rightarrow> dns_codec \<Rightarrow> ('u, 'c dnsCache) resolver \<Rightarrow> ('c, 'a) packets \<Rightarrow> ('a, 'u) packet_act list \<Rightarrow>
     ('c, 'a) packets" where
  "packets_run X L C r s acts = foldl (packets_next X L C r) s acts"

definition packets_init :: "'c dnsCache \<Rightarrow> ('c, 'a) packets" where
  "packets_init c = \<lparr>pk_cache = c, pk_tasks = [], pk_sent = [], pk_crashed = None\<rparr>"

lemma packets_run_simps [simp]:
  "packets_run X L C r s [] = s"
  "packets_run X L C r s (act # acts) = packets_run X L C r (packets_next X L C r s act) acts"
  by (simp_all add: packets_run_def)

lemma packets_run_append: "packets_run X L C r s (acts @ acts') = packets_run X L C r (packets_run X L C r s acts) acts'"
  by (simp add: packets_run_def)

text \<open>An invariant of the steps of a schedule holds at its end.\<close>

lemma packets_run_invariant:
  assumes "P s" and "\<And>s act. P s \<Longrightarrow> act \<in> set acts \<Longrightarrow> P (packets_next X L C r s act)"
  shows "P (packets_run X L C r s acts)"
  using assms by (induction acts arbitrary: s) simp_all

text \<open>What a state still has to do: the steps its goroutines are from their ends\<close>

fun steps_left :: "task_phase \<Rightarrow> nat" where
  "steps_left Received = 7"
| "steps_left (Decoded q) = 6"
| "steps_left (Looking q) = 5"
| "steps_left (Fetched q rs) = 4"
| "steps_left (Forwarding q) = 3"
| "steps_left (Answered q rs) = 2"
| "steps_left (Responding resp) = 1"
| "steps_left Finished = 0"

lemma task_next_progress:
  "task_next X L C r data u rd clk ph c = (ev, ph', d) \<Longrightarrow> steps_left ph' \<le> steps_left ph - 1"
  by (cases ph) (auto split: outcome.splits prod.splits if_splits option.splits)

end
