(* ===== verification/ZoneFile.thy ===== *)
theory ZoneFile
  imports Domain RRData "HOL-Library.AList" "HOL-Library.Multiset"
begin

text \<open>
  \<open>internal/dns/repos/zone\<close>: the loader of zone files. Reading and parsing a file is
  koanf's work and is an argument, which gives for a path what \<open>k.String("zone_root")\<close>
  and \<open>k.Raw()\<close> return, or the error of \<open>k.Load\<close>; the directory walk is the list of the
  calls \<open>filepath.WalkDir\<close> makes to its callback. Maps are lists of pairs in the order the
  \<open>range\<close> loop visits them.
\<close>

section \<open>Parsed files\<close>

text \<open>The dynamic type \<open>any\<close> of a parsed value, as far as the loader tells values apart\<close>

datatype raw_value = VString string | VList "raw_value list" | VMap "(string \<times> raw_value) list" | VOther

record zone_doc =
  zd_zone_root :: string
  zd_Raw :: "(string \<times> raw_value) list"

text \<open>\<open>filepath.Ext\<close>: from the last dot of the last path element on\<close>

definition path_Ext :: "string \<Rightarrow> string" where
  "path_Ext path =
     (let base = rev (takeWhile (\<lambda>c. c \<noteq> CHR ''/'') (rev path));
          tail = rev (takeWhile (\<lambda>c. c \<noteq> CHR ''.'') (rev base))
      in if CHR ''.'' \<in> set base then CHR ''.'' # tail else [])"

section \<open>Records of a file\<close>

definition expandName :: "string \<Rightarrow> string \<Rightarrow> string" where
  "expandName label root =
     (if label = ''@'' then root
      else if HasSuffix label ''.'' then label
      else label @ ''.'' @ root)"

text \<open>The loop over the elements of a list value\<close>

fun string_elems :: "raw_value list \<Rightarrow> string list" where
  "string_elems [] = []"
| "string_elems (elem # v) =
     (case elem of
        VString s \<Rightarrow> (let s = TrimSpace s in if s = '''' then string_elems v else s # string_elems v)
      | _ \<Rightarrow> string_elems v)"

definition toStringValues :: "raw_value \<Rightarrow> string list" where
  "toStringValues val =
     (case val of
        VString v \<Rightarrow> (let s = TrimSpace v in if s = '''' then [] else [s])
      | VList v \<Rightarrow> string_elems v
      | _ \<Rightarrow> [])"

fun build_records ::
    "extern \<Rightarrow> string \<Rightarrow> rr_type \<Rightarrow> duration \<Rightarrow> string list \<Rightarrow> resource_record list outcome" where
  "build_records X fqdn rType defaultTTL [] = Ret []"
| "build_records X fqdn rType defaultTTL (s # values) =
     (if s = '''' then build_records X fqdn rType defaultTTL values
      else obind (Encode X rType s)
        (\<lambda>data. obind (NewAuthoritativeResourceRecord X fqdn rType 1 (uint32_Seconds defaultTTL) data s)
        (\<lambda>rr. obind (build_records X fqdn rType defaultTTL values)
        (\<lambda>records. Ret (rr # records)))))"

definition buildResourceRecord ::
    "extern \<Rightarrow> string \<Rightarrow> string \<Rightarrow> string list \<Rightarrow> duration \<Rightarrow> resource_record list outcome" where
  "buildResourceRecord X fqdn rrType values defaultTTL =
     (let rType = RRTypeFromString rrType in build_records X fqdn rType defaultTTL values)"

section \<open>Files\<close>

text \<open>The inner loop over the types of an owner name, and the outer loop over the names\<close>

fun load_types ::
    "extern \<Rightarrow> string \<Rightarrow> duration \<Rightarrow> (string \<times> raw_value) list \<Rightarrow> resource_record list outcome" where
  "load_types X fqdn defaultTTL [] = Ret []"
| "load_types X fqdn defaultTTL ((rrType, val) # rawMap) =
     (let values = toStringValues val
      in if length values = 0 then load_types X fqdn defaultTTL rawMap
         else obind (map_err (Wrapf ''invalid record in %s: %w'') (buildResourceRecord X fqdn rrType values defaultTTL))
           (\<lambda>recs. obind (load_types X fqdn defaultTTL rawMap) (\<lambda>records. Ret (recs @ records))))"

fun load_names ::
    "extern \<Rightarrow> string \<Rightarrow> duration \<Rightarrow> (string \<times> raw_value) list \<Rightarrow> resource_record list outcome" where
  "load_names X root defaultTTL [] = Ret []"
| "load_names X root defaultTTL ((name, raw) # rest) =
     (if name = ''zone_root'' then load_names X root defaultTTL rest
      else (case raw of
          VMap rawMap \<Rightarrow>
            (let fqdn = CanonicalDNSName X (expandName name root)
             in obind (load_types X fqdn defaultTTL rawMap)
               (\<lambda>recs. obind (load_names X root defaultTTL rest) (\<lambda>records. Ret (recs @ records))))
        | _ \<Rightarrow> load_names X root defaultTTL rest))"

definition supported_exts :: "string list" where
  "supported_exts = [''.yaml'', ''.yml'', ''.json'', ''.toml'']"

definition loadZoneFileWithRoot ::
    "extern \<Rightarrow> (string \<Rightarrow> zone_doc outcome) \<Rightarrow> string \<Rightarrow> duration \<Rightarrow> (string \<times> resource_record list) outcome" where
  "loadZoneFileWithRoot X Load path defaultTTL =
     (let ext = ToLower (ext_lower X) (path_Ext path)
      in if ext \<notin> set supported_exts then Ret ('''', [])
         else obind (map_err (Wrapf ''failed to load zone file %s: %w'') (Load path))
           (\<lambda>k. let root = zd_zone_root k
             in if root = '''' then Err (Errorf (''zone file %s missing '' @ [CHR 0x27] @ ''zone_root'' @ [CHR 0x27]))
                else let root = CanonicalDNSName X root
                  in obind (load_names X root defaultTTL (zd_Raw k)) (\<lambda>records. Ret (root, records))))"

definition loadZoneFile ::
    "extern \<Rightarrow> (string \<Rightarrow> zone_doc outcome) \<Rightarrow> string \<Rightarrow> duration \<Rightarrow> resource_record list outcome" where
  "loadZoneFile X Load path defaultTTL =
     obind (loadZoneFileWithRoot X Load path defaultTTL) (\<lambda>(_, records). Ret records)"

section \<open>Directories\<close>

text \<open>One call of the walk: the path and whether it is a directory, or the walk's error\<close>

datatype walk_entry = WalkDirEntry string | WalkFile string | WalkError error

type_synonym zone_map = "(string \<times> resource_record list) list"

definition zone_records :: "zone_map \<Rightarrow> string \<Rightarrow> resource_record list" where
  "zone_records zones zoneRoot = (case map_of zones zoneRoot of None \<Rightarrow> [] | Some rs \<Rightarrow> rs)"

fun walk_files ::
    "extern \<Rightarrow> (string \<Rightarrow> zone_doc outcome) \<Rightarrow> duration \<Rightarrow> walk_entry list \<Rightarrow> zone_map \<Rightarrow> zone_map outcome" where
  "walk_files X Load defaultTTL [] zones = Ret zones"
| "walk_files X Load defaultTTL (WalkError err # entries) zones = Err err"
| "walk_files X Load defaultTTL (WalkDirEntry path # entries) zones = walk_files X Load defaultTTL entries zones"
| "walk_files X Load defaultTTL (WalkFile path # entries) zones =
     obind (map_err (Wrapf ''error parsing zone file %s: %w'') (loadZoneFileWithRoot X Load path defaultTTL))
       (\<lambda>(zoneRoot, zoneRecords).
          walk_files X Load defaultTTL entries
            (if zoneRoot \<noteq> '''' \<and> length zoneRecords > 0
             then AList.update zoneRoot (zone_records zones zoneRoot @ zoneRecords) zones else zones))"

definition LoadZoneDirectory ::
    "extern \<Rightarrow> (string \<Rightarrow> zone_doc outcome) \<Rightarrow> walk_entry list \<Rightarrow> duration \<Rightarrow> zone_map outcome" where
  "LoadZoneDirectory X Load entries defaultTTL = walk_files X Load defaultTTL entries []"

section \<open>What a file says\<close>

text \<open>
  The entries of a parsed file: owner name, type and text of every value that is not
  skipped, in the order in which the \<open>range\<close> loops visit them.
\<close>

definition type_entries :: "string \<Rightarrow> (string \<times> raw_value) list \<Rightarrow> (string \<times> rr_type \<times> string) list" where
  "type_entries fqdn m = concat (map (\<lambda>(t, v). map (\<lambda>s. (fqdn, RRTypeFromString t, s)) (toStringValues v)) m)"

definition name_entries :: "extern \<Rightarrow> string \<Rightarrow> string \<times> raw_value \<Rightarrow> (string \<times> rr_type \<times> string) list" where
  "name_entries X root p = (case p of (name, raw) \<Rightarrow>
     if name = ''zone_root'' then [] else (case raw of
       VMap m \<Rightarrow> type_entries (CanonicalDNSName X (expandName name root)) m | _ \<Rightarrow> []))"

definition file_entries :: "extern \<Rightarrow> zone_doc \<Rightarrow> (string \<times> rr_type \<times> string) list" where
  "file_entries X k = concat (map (name_entries X (CanonicalDNSName X (zd_zone_root k))) (zd_Raw k))"

definition entry_ok :: "extern \<Rightarrow> string \<times> rr_type \<times> string \<Rightarrow> bool" where
  "entry_ok X e = (case e of (n, t, s) \<Rightarrow> CanonicalDNSName X n \<noteq> [] \<and> RRType_IsValid t \<and> is_ret (Encode X t s))"

definition entry_record :: "extern \<Rightarrow> duration \<Rightarrow> string \<times> rr_type \<times> string \<Rightarrow> resource_record" where
  "entry_record X ttl e = (case e of (n, t, s) \<Rightarrow>
     \<lparr>rr_Name = CanonicalDNSName X n, rr_Type = t, rr_Class = 1, rr_ttl = uint32_Seconds ttl,
      rr_expiresAt = None, rr_Data = returned (Encode X t s), rr_Text = s\<rparr>)"

lemma string_elems_nonempty: "s \<in> set (string_elems v) \<Longrightarrow> s \<noteq> []"
  by (induction v) (auto simp: Let_def split: raw_value.splits if_splits)

lemma toStringValues_nonempty: "s \<in> set (toStringValues v) \<Longrightarrow> s \<noteq> []"
  by (auto simp: toStringValues_def Let_def dest: string_elems_nonempty split: raw_value.splits if_splits)

lemma build_records_Ret:
  "\<forall>s \<in> set ss. s \<noteq> [] \<Longrightarrow>
   build_records X n t ttl ss = Ret rs \<longleftrightarrow>
     list_all (\<lambda>s. entry_ok X (n, t, s)) ss \<and> rs = map (\<lambda>s. entry_record X ttl (n, t, s)) ss"
proof (induction ss arbitrary: rs)
  case (Cons s ss)
  have c: "RRClass_IsValid 1" by (simp add: RRClass_IsValid_def)
  show ?case
    using Cons c
    by (cases "Encode X t s")
      (auto simp: obind_eq_Ret NewAuth_Ret entry_ok_def entry_record_def valid_rr_def)
qed auto

lemma type_entries_simps [simp]:
  "type_entries n [] = []"
  "type_entries n ((t, v) # m) = map (\<lambda>s. (n, RRTypeFromString t, s)) (toStringValues v) @ type_entries n m"
  by (simp_all add: type_entries_def)

lemma load_types_Ret:
  "load_types X n ttl m = Ret rs \<longleftrightarrow>
     list_all (entry_ok X) (type_entries n m) \<and> rs = map (entry_record X ttl) (type_entries n m)"
proof (induction m arbitrary: rs)
  case (Cons p m)
  obtain t v where p: "p = (t, v)" by (cases p)
  have ne: "\<forall>s \<in> set (toStringValues v). s \<noteq> []" using toStringValues_nonempty by blast
  show ?case
    by (auto simp: p Let_def obind_eq_Ret buildResourceRecord_def build_records_Ret [OF ne] Cons.IH
        list.pred_map comp_def)
qed auto

lemma load_names_Ret:
  "load_names X root ttl raw = Ret rs \<longleftrightarrow>
     list_all (entry_ok X) (concat (map (name_entries X root) raw))
     \<and> rs = map (entry_record X ttl) (concat (map (name_entries X root) raw))"
proof (induction raw arbitrary: rs)
  case (Cons p raw)
  obtain n v where p: "p = (n, v)" by (cases p)
  show ?case
  proof (cases "n = ''zone_root''")
    case True
    then show ?thesis by (simp add: p name_entries_def Cons.IH)
  next
    case False
    then show ?thesis
      by (cases v) (auto simp: p name_entries_def obind_eq_Ret load_types_Ret Cons.IH Let_def)
  qed
qed auto

definition is_zone_file :: "extern \<Rightarrow> string \<Rightarrow> bool" where
  "is_zone_file X path \<longleftrightarrow> ToLower (ext_lower X) (path_Ext path) \<in> set supported_exts"

lemma load_file_Ret:
  "loadZoneFileWithRoot X Load path ttl = Ret (root, rs) \<longleftrightarrow>
     (if \<not> is_zone_file X path then root = [] \<and> rs = []
      else \<exists>k. Load path = Ret k \<and> zd_zone_root k \<noteq> [] \<and> root = CanonicalDNSName X (zd_zone_root k)
        \<and> list_all (entry_ok X) (file_entries X k) \<and> rs = map (entry_record X ttl) (file_entries X k))"
  by (auto simp: loadZoneFileWithRoot_def is_zone_file_def Let_def obind_eq_Ret load_names_Ret file_entries_def
      split: if_splits)

text \<open>The records a walk reads, per file: the zone root and the records of each zone file.\<close>

definition file_zone ::
    "extern \<Rightarrow> (string \<Rightarrow> zone_doc outcome) \<Rightarrow> duration \<Rightarrow> walk_entry \<Rightarrow> (string \<times> resource_record list) list" where
  "file_zone X Load ttl e = (case e of
       WalkFile path \<Rightarrow> (case loadZoneFileWithRoot X Load path ttl of Ret p \<Rightarrow> [p] | _ \<Rightarrow> [])
     | _ \<Rightarrow> [])"

definition walk_ok :: "extern \<Rightarrow> (string \<Rightarrow> zone_doc outcome) \<Rightarrow> duration \<Rightarrow> walk_entry \<Rightarrow> bool" where
  "walk_ok X Load ttl e = (case e of
       WalkFile path \<Rightarrow> is_ret (loadZoneFileWithRoot X Load path ttl)
     | WalkDirEntry path \<Rightarrow> True
     | WalkError err \<Rightarrow> False)"

definition records_of :: "string \<Rightarrow> (string \<times> resource_record list) list \<Rightarrow> resource_record list" where
  "records_of z ps = concat (map snd (filter (\<lambda>p. fst p = z) ps))"

lemma records_of_simps [simp]:
  "records_of z [] = []" "records_of z (p # ps) = (if fst p = z then snd p @ records_of z ps else records_of z ps)"
  "records_of z (ps @ qs) = records_of z ps @ records_of z qs"
  by (simp_all add: records_of_def)

lemma zone_records_update:
  "zone_records (AList.update z rs zones) y = (if y = z then rs else zone_records zones y)"
  by (simp add: zone_records_def update_conv')

lemma walk_files_Ret:
  assumes "walk_files X Load ttl entries zones = Ret result" and "z \<noteq> []"
  shows "zone_records result z = zone_records zones z @ records_of z (concat (map (file_zone X Load ttl) entries))"
  using assms(1)
proof (induction entries arbitrary: zones)
  case (Cons e entries)
  show ?case
  proof (cases e)
    case (WalkFile path)
    with Cons.prems obtain r rs where p: "loadZoneFileWithRoot X Load path ttl = Ret (r, rs)"
        and rest: "walk_files X Load ttl entries
          (if r \<noteq> [] \<and> length rs > 0 then AList.update r (zone_records zones r @ rs) zones else zones) = Ret result"
      by (auto simp: obind_eq_Ret)
    from Cons.IH [OF rest] p show ?thesis
      using assms(2) by (auto simp: WalkFile file_zone_def zone_records_update split: if_splits)
  qed (use Cons in \<open>simp_all add: file_zone_def\<close>)
qed simp

lemma walk_files_is_ret: "is_ret (walk_files X Load ttl entries zones) \<longleftrightarrow> list_all (walk_ok X Load ttl) entries"
proof (induction X Load ttl entries zones rule: walk_files.induct)
  case (4 X Load ttl path entries zones)
  then show ?case
    by (cases "loadZoneFileWithRoot X Load path ttl") (auto simp: walk_ok_def)
qed (simp_all add: walk_ok_def)

lemma type_entries_text: "e \<in> set (type_entries n m) \<Longrightarrow> snd (snd e) \<noteq> []"
  using toStringValues_nonempty by (force simp: type_entries_def)

lemma name_entries_text: "e \<in> set (name_entries X root p) \<Longrightarrow> snd (snd e) \<noteq> []"
  by (cases p; cases "snd p") (auto simp: name_entries_def split: if_splits dest: type_entries_text)

lemma file_entries_text: "e \<in> set (file_entries X k) \<Longrightarrow> snd (snd e) \<noteq> []"
  by (auto simp: file_entries_def dest: name_entries_text)

lemma HasSuffix_dot: "HasSuffix s ''.'' \<longleftrightarrow> s \<noteq> [] \<and> last s = CHR ''.''"
  by (cases s rule: rev_cases) (auto simp: HasSuffix_def)

section \<open>Properties\<close>

text \<open>
  Go visits the keys of a map in no fixed order. Two listings of one parsed file differ in the
  order of the owner names and in that of the types of an owner; the order of a list value is
  the file's.
\<close>

inductive same_value :: "raw_value \<Rightarrow> raw_value \<Rightarrow> bool" where
  same_refl: "same_value v v"
| same_map: "mset m = mset m' \<Longrightarrow> same_value (VMap m) (VMap m')"

definition same_entry :: "string \<times> raw_value \<Rightarrow> string \<times> raw_value \<Rightarrow> bool" where
  "same_entry p p' \<longleftrightarrow> fst p = fst p' \<and> same_value (snd p) (snd p')"

definition relisted :: "zone_doc \<Rightarrow> zone_doc \<Rightarrow> bool" where
  "relisted k d \<longleftrightarrow> zd_zone_root k = zd_zone_root d
     \<and> (\<exists>raw. mset raw = mset (zd_Raw d) \<and> list_all2 same_entry (zd_Raw k) raw)"

lemma mset_concat_map: "mset (concat (map f xs)) = sum_mset (image_mset (\<lambda>x. mset (f x)) (mset xs))"
  by (induction xs) simp_all

lemma name_entries_same: "same_entry p p' \<Longrightarrow> mset (name_entries X root p) = mset (name_entries X root p')"
  by (cases p; cases p') (auto simp: same_entry_def name_entries_def type_entries_def mset_concat_map elim: same_value.cases)

lemma file_entries_relisted:
  assumes "relisted k d"
  shows "mset (file_entries X k) = mset (file_entries X d)"
proof -
  obtain raw where raw: "mset raw = mset (zd_Raw d)" "list_all2 same_entry (zd_Raw k) raw"
    and root: "zd_zone_root k = zd_zone_root d" using assms unfolding relisted_def by blast
  have "mset (concat (map (name_entries X root) ps)) = mset (concat (map (name_entries X root) ps'))"
    if "list_all2 same_entry ps ps'" for root ps ps'
    using that by induction (simp_all add: name_entries_same)
  from this [OF raw(2)] show ?thesis by (simp add: file_entries_def root) (simp add: mset_concat_map raw(1))
qed

text \<open>
  C32. A zone file that parses and names its root loads exactly when each of its values is
  of a known type and encodes, and then gives one record per value: the owner name expanded by
  the root, the value's text, its encoding as data, class IN, the TTL the loader was called
  with and no expiry. One bad value fails the whole file. The parsed file \<open>k\<close> lists the maps in
  the order of this load, \<open>d\<close> in any other: whether the file loads, and the records up to their
  order, depend on the file alone. Only strings and lists of strings are values; an entry such
  as \<open>default_ttl: 3600\<close>, and a value such as \<open>{value: ..., ttl: 300}\<close>, give no record and change no TTL.
\<close>

theorem zone_file_records:
  assumes "is_zone_file X path" and "Load path = Ret k" and "relisted k d" and "zd_zone_root d \<noteq> []"
  shows "loadZoneFileWithRoot X Load path ttl = Ret (root, rs) \<longleftrightarrow>
      root = CanonicalDNSName X (zd_zone_root d)
      \<and> list_all (entry_ok X) (file_entries X d)
      \<and> rs = map (entry_record X ttl) (file_entries X k)
      \<and> mset rs = mset (map (entry_record X ttl) (file_entries X d))"
proof -
  have m: "mset (file_entries X k) = mset (file_entries X d)" using assms(3) by (rule file_entries_relisted)
  then have "list_all (entry_ok X) (file_entries X k) = list_all (entry_ok X) (file_entries X d)"
    by (metis list_all_iff set_mset_mset)
  moreover have "zd_zone_root k = zd_zone_root d" using assms(3) by (simp add: relisted_def)
  ultimately show ?thesis using assms(1,2,4) m by (auto simp: load_file_Ret)
qed

text \<open>
  The TTLs of the README of \<open>repos/zone\<close>: an entry that is no map and a value that is one give
  no record, so the file of its section on custom TTLs loads without a record.
\<close>

definition readme_ttl_doc :: zone_doc where
  "readme_ttl_doc = \<lparr>zd_zone_root = ''example.com.'',
     zd_Raw = [(''zone_root'', VString ''example.com.''), (''default_ttl'', VOther),
       (''www'', VMap [(''A'', VMap [(''value'', VString ''192.168.1.1''), (''ttl'', VOther)])])]\<rparr>"

theorem custom_ttl_ignored:
  "name_entries X root (''default_ttl'', VOther) = [] \<and> type_entries n ((t, VMap m) # ts) = type_entries n ts
   \<and> loadZoneFileWithRoot sample_extern (\<lambda>_. Ret readme_ttl_doc) ''z.yaml'' (300 * Second) = Ret (''example.com'', [])"
proof -
  have "loadZoneFileWithRoot sample_extern (\<lambda>_. Ret readme_ttl_doc) ''z.yaml'' (300 * Second) = Ret (''example.com'', [])"
    by code_simp
  then show ?thesis by (simp add: name_entries_def toStringValues_def)
qed

text \<open>
  Every record a zone file gives is valid and authoritative: it never expires, and the
  TTL it is served with is always the default TTL in whole seconds.
\<close>

theorem zone_file_authoritative:
  assumes "loadZoneFileWithRoot X Load path ttl = Ret (root, rs)" and "r \<in> set rs"
  shows "valid_rr r \<and> IsAuthoritative r \<and> \<not> IsExpired r now \<and> RR_TTL r now = uint32_Seconds ttl
    \<and> Encode X (rr_Type r) (rr_Text r) = Ret (rr_Data r)"
proof -
  obtain k e where "e \<in> set (file_entries X k)" "entry_ok X e" "r = entry_record X ttl e"
      "snd (snd e) \<noteq> []"
  proof -
    obtain k where k: "list_all (entry_ok X) (file_entries X k)" "rs = map (entry_record X ttl) (file_entries X k)"
      using assms by (auto simp: load_file_Ret split: if_splits)
    then obtain e where e: "e \<in> set (file_entries X k)" "r = entry_record X ttl e" using assms(2) by auto
    moreover have "snd (snd e) \<noteq> []" using e(1) by (rule file_entries_text)
    ultimately show ?thesis using that k by (auto simp: list_all_iff)
  qed
  then show ?thesis
    by (cases e; cases "Encode X (fst (snd e)) (snd (snd e))")
      (auto simp: entry_ok_def entry_record_def valid_rr_def IsAuthoritative_def IsExpired_def RR_TTL_def RRClass_IsValid_def)
qed

lemma update_mem: "(y, v) \<in> set (AList.update k w al) \<Longrightarrow> (y, v) = (k, w) \<or> (y, v) \<in> set al"
  by (induction al) (auto split: if_splits)

lemma walk_files_valid:
  "walk_files X Load ttl entries zones = Ret result \<Longrightarrow> (\<forall>(z, rs) \<in> set zones. \<forall>rr \<in> set rs. valid_rr rr) \<Longrightarrow>
     \<forall>(z, rs) \<in> set result. \<forall>rr \<in> set rs. valid_rr rr"
proof (induction X Load ttl entries zones rule: walk_files.induct)
  case (4 X Load ttl path entries zones)
  then obtain z rs where p: "loadZoneFileWithRoot X Load path ttl = Ret (z, rs)"
      and rest: "walk_files X Load ttl entries
        (if z \<noteq> [] \<and> length rs > 0 then AList.update z (zone_records zones z @ rs) zones else zones) = Ret result"
    by (auto simp: obind_eq_Ret)
  have new: "valid_rr rr" if "rr \<in> set rs" for rr using zone_file_authoritative [OF p that] by blast
  have "valid_rr rr" if mem: "rr \<in> set (zone_records zones z)" for rr
  proof -
    obtain v where v: "map_of zones z = Some v" "rr \<in> set v"
      using mem by (cases "map_of zones z") (auto simp: zone_records_def)
    show ?thesis using 4(3) map_of_SomeD [OF v(1)] v(2) by fast
  qed
  with new have "\<forall>rr \<in> set (zone_records zones z @ rs). valid_rr rr" by auto
  then have "\<forall>(y, v) \<in> set (AList.update z (zone_records zones z @ rs) zones). \<forall>rr \<in> set v. valid_rr rr"
    using 4(3) update_mem [of _ _ z "zone_records zones z @ rs" zones] by fast
  then have "\<forall>(y, v) \<in> set (if z \<noteq> [] \<and> length rs > 0 then AList.update z (zone_records zones z @ rs) zones else zones).
      \<forall>rr \<in> set v. valid_rr rr"
    using 4(3) by simp
  with 4(1) [of z rs] rest show ?case by auto
qed auto

text \<open>
  C33. A directory loads exactly when the walk meets no error and every zone file in it
  loads, and then the records of a zone are those of all files with its root, in the order
  of the walk; files of other types are ignored.
\<close>

theorem zone_directory_records:
  "(is_ret (LoadZoneDirectory X Load entries ttl) \<longleftrightarrow> list_all (walk_ok X Load ttl) entries)
   \<and> (LoadZoneDirectory X Load entries ttl = Ret zones \<longrightarrow> z \<noteq> [] \<longrightarrow>
        zone_records zones z = records_of z (concat (map (file_zone X Load ttl) entries)))"
  using walk_files_is_ret walk_files_Ret [of X Load ttl entries "[]" zones z]
  by (simp add: LoadZoneDirectory_def zone_records_def)

text \<open>
  Owner names of a file lie in its zone: a relative label of printable characters
  becomes its lower-case form followed by the zone root, \<open>@\<close> becomes the root, and a label
  that ends in a dot stands for itself.
\<close>

theorem owner_names:
  fixes X :: extern
  assumes "plain label" and "plain root" and "root \<noteq> []"
  defines "origin \<equiv> CanonicalDNSName X root"
  assumes orig: "origin \<noteq> []"
  shows "CanonicalDNSName X (expandName ''@'' origin) = origin
    \<and> CanonicalDNSName X (expandName (label @ ''.'') origin) = CanonicalDNSName X label
    \<and> (label \<noteq> ''@'' \<longrightarrow> \<not> HasSuffix label ''.'' \<longrightarrow>
        CanonicalDNSName X (expandName label origin) = map ascii_lower label @ ''.'' @ origin)"
proof -
  have o: "plain origin" "\<not> HasSuffix origin ''.''" "map ascii_lower origin = origin"
    using assms by (simp_all add: origin_def Canonical_no_trailing_dot)
  have "CanonicalDNSName X (label @ ''.'' @ origin) = map ascii_lower label @ ''.'' @ origin"
  proof -
    have "\<not> HasSuffix (map ascii_lower label @ ''.'' @ origin) ''.''"
      using o(2) orig by (simp add: HasSuffix_dot)
    moreover have "plain (label @ ''.'' @ origin)" using o(1) assms(1) by (simp add: plain_char_def)
    moreover have "ascii_lower CHR ''.'' = CHR ''.''" by (simp add: ascii_lower_def)
    ultimately show ?thesis using o(3) by (simp add: Canonical_plain strip_dots_id)
  qed
  moreover have "label @ ''.'' \<noteq> ''@''" by (cases label) auto
  moreover have "HasSuffix (label @ ''.'') ''.''" by (simp add: HasSuffix_def)
  moreover have "CanonicalDNSName X origin = origin" using assms(2) by (simp add: origin_def)
  ultimately show ?thesis using assms(1) by (simp add: expandName_def Canonical_trailing_dot)
qed

text \<open>A small zone file, for the witnesses\<close>

definition sample_doc :: zone_doc where
  "sample_doc = \<lparr>zd_zone_root = ''A.b'', zd_Raw = [(''w'', VMap [(''A'', VList [VString ''1.2.3.4'', VOther])]),
     (''zone_root'', VString ''A.b'')]\<rparr>"

definition sample_Load :: "string \<Rightarrow> zone_doc outcome" where
  "sample_Load path = Ret sample_doc"

definition sample_zone_rr :: resource_record where
  "sample_zone_rr = \<lparr>rr_Name = ''w.a.b'', rr_Type = 1, rr_Class = 1, rr_ttl = 300, rr_expiresAt = None,
     rr_Data = [1, 2, 3, 4], rr_Text = ''1.2.3.4''\<rparr>"

lemma sample_file:
  "is_zone_file sample_extern ''z.yaml''"
  "list_all (entry_ok sample_extern) (file_entries sample_extern sample_doc)"
  "map (entry_record sample_extern (300 * Second)) (file_entries sample_extern sample_doc) = [sample_zone_rr]"
  "CanonicalDNSName sample_extern ''A.b'' = ''a.b''"
proof -
  show "is_zone_file sample_extern ''z.yaml''" "CanonicalDNSName sample_extern ''A.b'' = ''a.b''" by code_simp+
  have e: "file_entries sample_extern sample_doc = [(''w.a.b'', RRTypeA, ''1.2.3.4'')]" by code_simp
  have c: "Encode sample_extern RRTypeA ''1.2.3.4'' = Ret [1, 2, 3, 4]"
      "CanonicalDNSName sample_extern ''w.a.b'' = ''w.a.b''" by code_simp+
  then show "list_all (entry_ok sample_extern) (file_entries sample_extern sample_doc)"
    by (simp add: e entry_ok_def RRType_IsValid_def)
  show "map (entry_record sample_extern (300 * Second)) (file_entries sample_extern sample_doc) = [sample_zone_rr]"
    using c uint32_Seconds_whole [of 300] by (simp add: e entry_record_def sample_zone_rr_def)
qed

text \<open>A file with two owners, listed in both orders\<close>

definition two_doc :: "bool \<Rightarrow> zone_doc" where
  "two_doc first = (let v = (''v'', VMap [(''A'', VString ''1.2.3.4''), (''ttl'', VOther)]);
       w = (''w'', VMap [(''A'', VList [VString ''1.2.3.4'', VOther])])
     in \<lparr>zd_zone_root = ''A.b'', zd_Raw = (if first then [v, w] else [w, v])\<rparr>)"

lemma two_doc_relisted: "relisted (two_doc False) (two_doc True)"
proof -
  have refl: "same_entry p p" for p by (simp add: same_entry_def same_value.same_refl)
  show ?thesis
    by (auto simp: relisted_def two_doc_def add_mset_commute refl intro!: exI [of _ "zd_Raw (two_doc False)"])
qed

theorem zone_file_records_witness:
  "\<exists>rs. loadZoneFileWithRoot sample_extern (\<lambda>_. Ret (two_doc False)) ''z.yaml'' (300 * Second) = Ret (''a.b'', rs)
     \<and> mset rs = {#sample_zone_rr, sample_zone_rr\<lparr>rr_Name := ''v.a.b''\<rparr>#}"
proof -
  have root: "zd_zone_root (two_doc True) = ''A.b''" by (simp add: two_doc_def)
  have e: "file_entries sample_extern (two_doc True) = [(''v.a.b'', RRTypeA, ''1.2.3.4''), (''w.a.b'', RRTypeA, ''1.2.3.4'')]"
      "file_entries sample_extern (two_doc False) = [(''w.a.b'', RRTypeA, ''1.2.3.4''), (''v.a.b'', RRTypeA, ''1.2.3.4'')]"
    by code_simp+
  have c: "Encode sample_extern RRTypeA ''1.2.3.4'' = Ret [1, 2, 3, 4]"
      "CanonicalDNSName sample_extern ''w.a.b'' = ''w.a.b''" "CanonicalDNSName sample_extern ''v.a.b'' = ''v.a.b''"
    by code_simp+
  have "list_all (entry_ok sample_extern) (file_entries sample_extern (two_doc True))"
    using c by (simp add: e entry_ok_def RRType_IsValid_def)
  moreover have r: "entry_record sample_extern (300 * Second) (''w.a.b'', RRTypeA, ''1.2.3.4'') = sample_zone_rr"
      "entry_record sample_extern (300 * Second) (''v.a.b'', RRTypeA, ''1.2.3.4'') = sample_zone_rr\<lparr>rr_Name := ''v.a.b''\<rparr>"
    using c uint32_Seconds_whole [of 300] by (simp_all add: entry_record_def sample_zone_rr_def)
  moreover have "zd_zone_root (two_doc True) \<noteq> []" by (simp add: root)
  ultimately show ?thesis
    using zone_file_records [OF sample_file(1) refl two_doc_relisted, of "300 * Second" "''a.b''"
        "[sample_zone_rr, sample_zone_rr\<lparr>rr_Name := ''v.a.b''\<rparr>]"] sample_file(4)
    by (intro exI [of _ "[sample_zone_rr, sample_zone_rr\<lparr>rr_Name := ''v.a.b''\<rparr>]"]) (simp add: e root add_mset_commute)
qed

lemma sample_loads:
  "loadZoneFileWithRoot sample_extern sample_Load ''z.yaml'' (300 * Second) = Ret (''a.b'', [sample_zone_rr])"
  using sample_file by (simp add: load_file_Ret sample_Load_def) (simp add: sample_doc_def)

theorem zone_file_authoritative_witness:
  "valid_rr sample_zone_rr \<and> \<not> IsExpired sample_zone_rr 1000000000000"
  using zone_file_authoritative [OF sample_loads, of sample_zone_rr 1000000000000] by simp

theorem zone_directory_records_witness:
  "\<exists>zones. LoadZoneDirectory sample_extern sample_Load [WalkDirEntry ''d'', WalkFile ''z.yaml'', WalkFile ''z.yaml'']
      (300 * Second) = Ret zones \<and> zone_records zones ''a.b'' = [sample_zone_rr, sample_zone_rr]"
proof -
  let ?es = "[WalkDirEntry ''d'', WalkFile ''z.yaml'', WalkFile ''z.yaml'']"
  have "list_all (walk_ok sample_extern sample_Load (300 * Second)) ?es"
    by (simp add: walk_ok_def sample_loads)
  then have "is_ret (LoadZoneDirectory sample_extern sample_Load ?es (300 * Second))"
    using zone_directory_records by blast
  then obtain zones where z: "LoadZoneDirectory sample_extern sample_Load ?es (300 * Second) = Ret zones"
    by (auto simp: is_ret_def split: outcome.splits)
  have "records_of ''a.b'' (concat (map (file_zone sample_extern sample_Load (300 * Second)) ?es))
      = [sample_zone_rr, sample_zone_rr]"
    by (simp add: file_zone_def sample_loads)
  then show ?thesis using zone_directory_records [of sample_extern sample_Load ?es "300 * Second" zones "''a.b''"] z by simp
qed

theorem owner_names_witness:
  "CanonicalDNSName sample_extern (expandName ''W'' ''a.b'') = ''w.a.b''"
proof -
  have p: "plain ''W''" "plain ''A.b''" by (simp_all add: plain_char_def)
  have "CanonicalDNSName sample_extern ''A.b'' = ''a.b''" by (rule sample_file(4))
  moreover have "map ascii_lower ''W'' @ ''.'' @ ''a.b'' = ''w.a.b''" by code_simp
  moreover have "\<not> HasSuffix ''W'' ''.''" by (simp add: HasSuffix_dot)
  ultimately show ?thesis using owner_names [OF p, of sample_extern] by simp
qed

end
