(* ===== verification/Upstream.thy ===== *)
theory Upstream
  imports Codec Interfaces
begin

text \<open>
  \<open>internal/dns/gateways/upstream/resolver.go\<close>: forwarding a query to the upstream servers,
  one after the other or all at once. The network is code outside the repository: its state
  has type \<open>'n\<close>, a connection type \<open>'c\<close>, \<open>net.Dialer\<close> and the methods of \<open>net.Conn\<close> are
  arguments. The serial resolution is a function over that state, the parallel one a step
  relation between the calling goroutine and one worker for each server.
\<close>

section \<open>Network and context\<close>

text \<open>
  Of a context the code reads the deadline. \<open>nc_Done\<close> is the race of a \<open>select\<close> with a
  pending exchange: \<open>Some e\<close> when \<open>ctx.Done()\<close> is chosen, where \<open>e\<close> is \<open>ctx.Err()\<close>.
\<close>

record deadline_ctx =
  ctx_Deadline :: "time option"

type_synonym ('n, 'c) dial_func = "deadline_ctx \<Rightarrow> string \<Rightarrow> string \<Rightarrow> 'n \<Rightarrow> 'n \<times> 'c outcome"

record ('n, 'c) net_ops =
  nc_SetDeadline :: "'c \<Rightarrow> time \<Rightarrow> 'n \<Rightarrow> 'n \<times> error option"
  nc_Write :: "'c \<Rightarrow> bytes \<Rightarrow> 'n \<Rightarrow> 'n \<times> error option"
  nc_Read :: "'c \<Rightarrow> nat \<Rightarrow> 'n \<Rightarrow> 'n \<times> bytes outcome"
  nc_Close :: "'c \<Rightarrow> 'n \<Rightarrow> 'n"
  nc_Done :: "deadline_ctx \<Rightarrow> 'n \<Rightarrow> error option"

section \<open>The resolver\<close>

record ('n, 'c) us_options =
  so_Servers :: "string list"
  so_Timeout :: duration
  so_Parallel :: bool
  so_Codec :: "dns_codec option"
  so_Dial :: "('n, 'c) dial_func option"

record ('n, 'c) us_resolver =
  us_servers :: "string list"
  us_timeout :: duration
  us_codec :: dns_codec
  us_parallel :: bool
  us_dial :: "('n, 'c) dial_func"

text \<open>\<open>dialer\<close> is \<open>(&net.Dialer{}).DialContext\<close>.\<close>

definition upstream_NewResolver ::
    "('n, 'c) dial_func \<Rightarrow> ('n, 'c) us_options \<Rightarrow> ('n, 'c) us_resolver outcome" where
  "upstream_NewResolver dialer opts =
     (if length (so_Servers opts) = 0 then Err (Errorf ''no upstream DNS servers provided'')
      else
        let timeout = (if so_Timeout opts \<le> 0 then 5 * Second else so_Timeout opts)
        in (case so_Codec opts of
              None \<Rightarrow> Err (Errorf ''DNS codec is required'')
            | Some codec \<Rightarrow>
                (let dial = (case so_Dial opts of None \<Rightarrow> dialer | Some d \<Rightarrow> d)
                 in Ret \<lparr>us_servers = so_Servers opts, us_timeout = timeout, us_codec = codec,
                       us_parallel = so_Parallel opts, us_dial = dial\<rparr>)))"

text \<open>The context with a deadline, and whether it was made here; \<open>wall\<close> is the time of the call\<close>

definition ensureContextDeadline ::
    "('n, 'c) us_resolver \<Rightarrow> time \<Rightarrow> deadline_ctx \<Rightarrow> deadline_ctx \<times> bool" where
  "ensureContextDeadline r wall ctx =
     (case ctx_Deadline ctx of
        None \<Rightarrow> (ctx\<lparr>ctx_Deadline := Some (time_Add wall (us_timeout r))\<rparr>, True)
      | Some _ \<Rightarrow> (ctx, False))"

definition setTimeout :: "('n, 'c) us_resolver \<Rightarrow> duration \<Rightarrow> ('n, 'c) us_resolver" where
  "setTimeout r d = (if 0 < d then r\<lparr>us_timeout := d\<rparr> else r)"

section \<open>One server\<close>

text \<open>The goroutine that writes the query and reads and decodes one datagram\<close>

definition exchange ::
    "('n, 'c) net_ops \<Rightarrow> ('n, 'c) us_resolver \<Rightarrow> 'c \<Rightarrow> bytes \<Rightarrow> question \<Rightarrow> time \<Rightarrow> 'n \<Rightarrow>
     'n \<times> resource_record list outcome" where
  "exchange N r conn queryBytes query now n =
     (case nc_Write N conn queryBytes n of
        (n, Some e) \<Rightarrow> (n, Err (Wrapf ''write failed: %w'' e))
      | (n, None) \<Rightarrow>
          (case nc_Read N conn 512 n of
             (n, Err e) \<Rightarrow> (n, Err (Wrapf ''read failed: %w'' e))
           | (n, Panic p) \<Rightarrow> (n, Panic p)
           | (n, Ret data) \<Rightarrow>
               (n, obind (fatal (cd_DecodeResponse (us_codec r) data (q_ID query) now))
                     (\<lambda>response. Ret (resp_Answers response)))))"

text \<open>
  The connection is closed on every way out. An exchange that loses the race against the
  context is cut off by that; what it still does to the network is left to \<open>nc_Close\<close>.
\<close>

definition query_conn ::
    "('n, 'c) net_ops \<Rightarrow> ('n, 'c) us_resolver \<Rightarrow> deadline_ctx \<Rightarrow> 'c \<Rightarrow> question \<Rightarrow> time \<Rightarrow> 'n \<Rightarrow>
     'n \<times> resource_record list outcome" where
  "query_conn N r ctx conn query now n =
     (let (n, err) = (case ctx_Deadline ctx of
            Some deadline \<Rightarrow> nc_SetDeadline N conn deadline n
          | None \<Rightarrow> (n, None))
      in (case err of
            Some e \<Rightarrow> (n, Err (Wrapf ''failed to set connection deadline: %w'' e))
          | None \<Rightarrow>
              (case cd_EncodeQuery (us_codec r) query of
                 Err e \<Rightarrow> (n, Err (Wrapf ''encode failed: %w'' e))
               | Panic p \<Rightarrow> (n, Panic p)
               | Ret queryBytes \<Rightarrow>
                   (case nc_Done N ctx n of
                      Some e \<Rightarrow> (n, Err e)
                    | None \<Rightarrow> exchange N r conn queryBytes query now n))))"

definition queryServerWithContext ::
    "('n, 'c) net_ops \<Rightarrow> ('n, 'c) us_resolver \<Rightarrow> deadline_ctx \<Rightarrow> string \<Rightarrow> question \<Rightarrow> time \<Rightarrow> 'n \<Rightarrow>
     'n \<times> resource_record list outcome" where
  "queryServerWithContext N r ctx server query now n =
     (case us_dial r ctx ''udp'' server n of
        (n, Err e) \<Rightarrow> (n, Err (Wrapf ''failed to connect: %w'' e))
      | (n, Panic p) \<Rightarrow> (n, Panic p)
      | (n, Ret conn) \<Rightarrow>
          (let (n, res) = query_conn N r ctx conn query now n in (nc_Close N conn n, res)))"

section \<open>One server after the other\<close>

text \<open>\<open>lastErr\<close> is nil before the first server.\<close>

fun query_servers ::
    "('n, 'c) net_ops \<Rightarrow> ('n, 'c) us_resolver \<Rightarrow> deadline_ctx \<Rightarrow> question \<Rightarrow> time \<Rightarrow> string list \<Rightarrow>
     error option \<Rightarrow> 'n \<Rightarrow> 'n \<times> resource_record list outcome" where
  "query_servers N r ctx query now [] lastErr n =
     (n, Err (case lastErr of
        None \<Rightarrow> Errorf ''all %d upstream servers failed: %w''
      | Some e \<Rightarrow> Wrapf ''all %d upstream servers failed: %w'' e))"
| "query_servers N r ctx query now (server # servers) lastErr n =
     (case queryServerWithContext N r ctx server query now n of
        (n, Ret answers) \<Rightarrow> (n, Ret answers)
      | (n, Err e) \<Rightarrow> query_servers N r ctx query now servers (Some e) n
      | (n, Panic p) \<Rightarrow> (n, Panic p))"

definition resolveSerialWithContext ::
    "('n, 'c) net_ops \<Rightarrow> ('n, 'c) us_resolver \<Rightarrow> deadline_ctx \<Rightarrow> question \<Rightarrow> time \<Rightarrow> 'n \<Rightarrow>
     'n \<times> resource_record list outcome" where
  "resolveSerialWithContext N r ctx query now n =
     query_servers N r ctx query now (us_servers r) None n"

section \<open>All servers at once\<close>

text \<open>
  The state of \<open>resolveWithContext\<close>: the worker of each server, the response channel (which
  holds one response), the error channel, the errors taken from it (whose number is the loop
  counter), whether the caller's context is done and whether the derived context was
  cancelled, and where the caller is. A worker that panics ends the process.
\<close>

datatype worker = Running | Succeeded "resource_record list" | Failed error

datatype phase = Looping | WaitingGroup | Returned "resource_record list outcome" | Crashed panic

record fanout =
  fo_workers :: "worker list"
  fo_resp :: "resource_record list option"
  fo_errs :: "error list"
  fo_errors :: "error list"
  fo_done :: bool
  fo_cancelled :: bool
  fo_phase :: phase

definition fanout_init :: "string list \<Rightarrow> fanout" where
  "fanout_init servers =
     \<lparr>fo_workers = replicate (length servers) Running, fo_resp = None, fo_errs = [], fo_errors = [],
      fo_done = False, fo_cancelled = False, fo_phase = Looping\<rparr>"

text \<open>\<open>pctx.Done()\<close> is ready when the derived context or its parent is done.\<close>

definition pctx_done :: "fanout \<Rightarrow> bool" where
  "pctx_done s \<longleftrightarrow> fo_cancelled s \<or> fo_done s"

text \<open>What a query of one server can come back with, whatever the state of the network\<close>

inductive server_reply ::
    "('n, 'c) net_ops \<Rightarrow> ('n, 'c) us_resolver \<Rightarrow> deadline_ctx \<Rightarrow> question \<Rightarrow> time \<Rightarrow> string \<Rightarrow>
     resource_record list outcome \<Rightarrow> bool"
  for N r ctx query now where
  replied: "queryServerWithContext N r ctx srv query now n = (n', out) \<Longrightarrow> server_reply N r ctx query now srv out"

text \<open>
  The steps of the workers. The \<open>select\<close> of a failed worker takes any of its ready
  branches, and the default when there is none.
\<close>

inductive worker_step :: "(string \<Rightarrow> resource_record list outcome \<Rightarrow> bool) \<Rightarrow> string list \<Rightarrow> fanout \<Rightarrow> fanout \<Rightarrow> bool"
  for reply servers where
  send_response:
    "\<lbrakk>j < length servers; fo_workers s ! j = Running; reply (servers ! j) (Ret rs)\<rbrakk> \<Longrightarrow>
     worker_step reply servers s (s\<lparr>fo_workers := (fo_workers s)[j := Succeeded rs],
        fo_resp := (case fo_resp s of None \<Rightarrow> Some rs | Some first \<Rightarrow> Some first)\<rparr>)"
| send_error:
    "\<lbrakk>j < length servers; fo_workers s ! j = Running; reply (servers ! j) (Err e);
      length (fo_errs s) < length servers\<rbrakk> \<Longrightarrow>
     worker_step reply servers s (s\<lparr>fo_workers := (fo_workers s)[j := Failed e],
        fo_errs := fo_errs s @ [Wrapf ''server %s: %w'' e]\<rparr>)"
| drop_error:
    "\<lbrakk>j < length servers; fo_workers s ! j = Running; reply (servers ! j) (Err e);
      pctx_done s \<or> \<not> length (fo_errs s) < length servers\<rbrakk> \<Longrightarrow>
     worker_step reply servers s (s\<lparr>fo_workers := (fo_workers s)[j := Failed e]\<rparr>)"
| crash:
    "\<lbrakk>j < length servers; fo_workers s ! j = Running; reply (servers ! j) (Panic p)\<rbrakk> \<Longrightarrow>
     worker_step reply servers s (s\<lparr>fo_phase := Crashed p\<rparr>)"

text \<open>The steps of the caller: the \<open>select\<close> of its loop, the way out of the loop, and \<open>wg.Wait()\<close>\<close>

inductive caller_step :: "string list \<Rightarrow> fanout \<Rightarrow> fanout \<Rightarrow> bool" for servers where
  take_response:
    "\<lbrakk>fo_phase s = Looping; length (fo_errors s) < length servers; fo_resp s = Some rs\<rbrakk> \<Longrightarrow>
     caller_step servers s (s\<lparr>fo_resp := None, fo_cancelled := True, fo_phase := Returned (Ret rs)\<rparr>)"
| take_error:
    "\<lbrakk>fo_phase s = Looping; length (fo_errors s) < length servers; fo_errs s = e # es\<rbrakk> \<Longrightarrow>
     caller_step servers s (s\<lparr>fo_errs := es, fo_errors := fo_errors s @ [e]\<rparr>)"
| take_done:
    "\<lbrakk>fo_phase s = Looping; length (fo_errors s) < length servers; fo_done s\<rbrakk> \<Longrightarrow>
     caller_step servers s (s\<lparr>fo_cancelled := True, fo_phase := WaitingGroup\<rparr>)"
| exhausted_done:
    "\<lbrakk>fo_phase s = Looping; \<not> length (fo_errors s) < length servers; fo_done s\<rbrakk> \<Longrightarrow>
     caller_step servers s (s\<lparr>fo_cancelled := True, fo_phase := WaitingGroup\<rparr>)"
| exhausted:
    "\<lbrakk>fo_phase s = Looping; \<not> length (fo_errors s) < length servers; \<not> fo_done s\<rbrakk> \<Longrightarrow>
     caller_step servers s (s\<lparr>fo_cancelled := True,
        fo_phase := Returned (Err (Errorf ''all %d upstream servers failed: %v''))\<rparr>)"
| waited:
    "\<lbrakk>fo_phase s = WaitingGroup; Running \<notin> set (fo_workers s)\<rbrakk> \<Longrightarrow>
     caller_step servers s (s\<lparr>fo_phase := Returned (Err (Errorf ''query timeout after %v''))\<rparr>)"

text \<open>A step of the call: a worker's, the caller's, or the deadline of the context passing\<close>

inductive fanout_step :: "(string \<Rightarrow> resource_record list outcome \<Rightarrow> bool) \<Rightarrow> string list \<Rightarrow> fanout \<Rightarrow> fanout \<Rightarrow> bool"
  for reply servers where
  work: "\<lbrakk>\<nexists>p. fo_phase s = Crashed p; worker_step reply servers s t\<rbrakk> \<Longrightarrow> fanout_step reply servers s t"
| call: "caller_step servers s t \<Longrightarrow> fanout_step reply servers s t"
| expire: "\<lbrakk>\<nexists>p. fo_phase s = Crashed p; \<not> fo_done s\<rbrakk> \<Longrightarrow> fanout_step reply servers s (s\<lparr>fo_done := True\<rparr>)"

inductive fanout_reach :: "(string \<Rightarrow> resource_record list outcome \<Rightarrow> bool) \<Rightarrow> string list \<Rightarrow> fanout \<Rightarrow> bool"
  for reply servers where
  start: "fanout_reach reply servers (fanout_init servers)"
| further: "\<lbrakk>fanout_reach reply servers s; fanout_step reply servers s t\<rbrakk> \<Longrightarrow> fanout_reach reply servers t"

text \<open>What \<open>resolveWithContext\<close> can return\<close>

inductive resolveWithContext ::
    "('n, 'c) net_ops \<Rightarrow> ('n, 'c) us_resolver \<Rightarrow> deadline_ctx \<Rightarrow> question \<Rightarrow> time \<Rightarrow>
     resource_record list outcome \<Rightarrow> bool"
  for N r ctx query now where
  returns: "\<lbrakk>fanout_reach (server_reply N r ctx query now) (us_servers r) s; fo_phase s = Returned out\<rbrakk> \<Longrightarrow>
     resolveWithContext N r ctx query now out"
| dies: "\<lbrakk>fanout_reach (server_reply N r ctx query now) (us_servers r) s; fo_phase s = Crashed p\<rbrakk> \<Longrightarrow>
     resolveWithContext N r ctx query now (Panic p)"

section \<open>Resolve\<close>

text \<open>
  \<open>par\<close> is the outcome of \<open>resolveWithContext\<close> under the schedule of this call, and what
  the call left of the network; the theorems assume that it is one the relation allows.
\<close>

definition upstream_Resolve ::
    "(deadline_ctx \<Rightarrow> question \<Rightarrow> time \<Rightarrow> 'n \<Rightarrow> 'n \<times> resource_record list outcome) \<Rightarrow>
     ('n, 'c) net_ops \<Rightarrow> ('n, 'c) us_resolver \<Rightarrow> time \<Rightarrow> deadline_ctx \<Rightarrow> 'n upstream_client" where
  "upstream_Resolve par N r wall ctx n query now =
     (let (ctx, _) = ensureContextDeadline r wall ctx
      in if us_parallel r then par ctx query now n
         else resolveSerialWithContext N r ctx query now n)"

end
