(* ===== verification/UpstreamProps.thy ===== *)
theory UpstreamProps
  imports Upstream
begin

text \<open>
  What the upstream gateway promises: a made resolver has servers and a timeout, the serial
  resolution stops at the first server that answers, the parallel one returns the answer of
  some server and fails only when every server failed or the time is over, and every answer
  comes from a datagram that the codec accepted for the query.
\<close>

section \<open>Construction and deadlines\<close>

lemma NewResolver_Ret:
  "upstream_NewResolver dialer opts = Ret r \<longleftrightarrow>
     so_Servers opts \<noteq> [] \<and> (\<exists>codec. so_Codec opts = Some codec
       \<and> r = \<lparr>us_servers = so_Servers opts,
            us_timeout = (if so_Timeout opts \<le> 0 then 5 * Second else so_Timeout opts),
            us_codec = codec, us_parallel = so_Parallel opts,
            us_dial = (case so_Dial opts of None \<Rightarrow> dialer | Some d \<Rightarrow> d)\<rparr>)"
  by (auto simp: upstream_NewResolver_def Let_def split: option.splits)

lemma NewResolver_servers: "upstream_NewResolver dialer opts = Ret r \<Longrightarrow> us_servers r \<noteq> [] \<and> 0 < us_timeout r"
  by (auto simp: NewResolver_Ret Second_def)

lemma ensureContextDeadline_some: "\<exists>d. ctx_Deadline (fst (ensureContextDeadline r wall ctx)) = Some d"
  by (auto simp: ensureContextDeadline_def split: option.splits)

section \<open>One server\<close>

text \<open>An answer comes from a datagram, read into 512 bytes, that decodes under the query's ID.\<close>

definition heard ::
    "('n, 'c) net_ops \<Rightarrow> ('n, 'c) us_resolver \<Rightarrow> question \<Rightarrow> time \<Rightarrow> dns_response outcome option \<Rightarrow> bool" where
  "heard N r query now m \<longleftrightarrow> (\<exists>conn n n' data. nc_Read N conn 512 n = (n', Ret data)
     \<and> m = cd_DecodeResponse (us_codec r) data (q_ID query) now)"

definition network_quiet :: "('n, 'c) net_ops \<Rightarrow> ('n, 'c) us_resolver \<Rightarrow> bool" where
  "network_quiet N r \<longleftrightarrow> (\<forall>ctx net srv n. \<not> panics (snd (us_dial r ctx net srv n)))
     \<and> (\<forall>conn k n. \<not> panics (snd (nc_Read N conn k n))) \<and> (\<forall>q. \<not> panics (cd_EncodeQuery (us_codec r) q))"

text \<open>
  The calls a query makes to the network, each from one state of it to the next, and the
  datagrams a query that begins in the state \<open>n\<close> can read.
\<close>

inductive net_call :: "('n, 'c) net_ops \<Rightarrow> ('n, 'c) us_resolver \<Rightarrow> 'n \<Rightarrow> 'n \<Rightarrow> bool" for N r where
  dials: "us_dial r ctx ''udp'' srv n = (m, res) \<Longrightarrow> net_call N r n m"
| deadlines: "nc_SetDeadline N conn d n = (m, err) \<Longrightarrow> net_call N r n m"
| writes: "nc_Write N conn b n = (m, err) \<Longrightarrow> net_call N r n m"
| reads: "nc_Read N conn 512 n = (m, data) \<Longrightarrow> net_call N r n m"
| closes: "net_call N r n (nc_Close N conn n)"

abbreviation net_calls :: "('n, 'c) net_ops \<Rightarrow> ('n, 'c) us_resolver \<Rightarrow> 'n \<Rightarrow> 'n \<Rightarrow> bool" where
  "net_calls N r \<equiv> (net_call N r)\<^sup>*\<^sup>*"

definition heard_from ::
    "('n, 'c) net_ops \<Rightarrow> ('n, 'c) us_resolver \<Rightarrow> 'n \<Rightarrow> question \<Rightarrow> time \<Rightarrow> dns_response outcome option \<Rightarrow> bool" where
  "heard_from N r n query now m \<longleftrightarrow> (\<exists>conn n1 n2 data. net_calls N r n n1
     \<and> nc_Read N conn 512 n1 = (n2, Ret data) \<and> m = cd_DecodeResponse (us_codec r) data (q_ID query) now)"

lemma heard_from_heard: "heard_from N r n query now m \<Longrightarrow> heard N r query now m"
  unfolding heard_from_def heard_def by blast

lemma heard_later:
  assumes "net_calls N r n n1" and "heard_from N r n1 query now m"
  shows "heard_from N r n query now m"
proof -
  obtain conn n2 n3 data where "net_calls N r n1 n2" "nc_Read N conn 512 n2 = (n3, Ret data)"
      "m = cd_DecodeResponse (us_codec r) data (q_ID query) now"
    using assms(2) unfolding heard_from_def by blast
  moreover from this(1) have "net_calls N r n n2" by (rule rtranclp_trans [OF assms(1)])
  ultimately show ?thesis unfolding heard_from_def by blast
qed

lemma exchange_Ret:
  assumes "exchange N r conn b query now n = (n', Ret rs)"
  shows "\<exists>resp. heard N r query now (Some (Ret resp)) \<and> rs = resp_Answers resp"
proof -
  obtain m m' data resp where "nc_Read N conn 512 m = (m', Ret data)"
      "cd_DecodeResponse (us_codec r) data (q_ID query) now = Some (Ret resp)" "rs = resp_Answers resp"
    using assms by (auto simp: exchange_def obind_eq_Ret split: prod.splits option.splits outcome.splits)
  then show ?thesis unfolding heard_def by metis
qed

lemma exchange_calls: "exchange N r conn b query now n = (n', out) \<Longrightarrow> net_calls N r n n'"
  by (auto simp: exchange_def split: prod.splits option.splits outcome.splits
      dest!: net_call.writes [of N _ _ _ _ _ r] net_call.reads [of N _ _ _ _ r])

lemma exchange_Panic:
  assumes "exchange N r conn b query now n = (n', Panic p)" and "network_quiet N r"
  shows "\<exists>m. heard_from N r n query now m \<and> fatal m = Panic p"
proof -
  have quiet: "nc_Read N conn 512 m \<noteq> (m', Panic p)" for m m'
    using assms(2) unfolding network_quiet_def by (metis panics_simps(3) snd_conv)
  obtain m m' data where w: "nc_Write N conn b n = (m, None)" and d: "nc_Read N conn 512 m = (m', Ret data)"
      "obind (fatal (cd_DecodeResponse (us_codec r) data (q_ID query) now)) (\<lambda>resp. Ret (resp_Answers resp)) = Panic p"
    using assms(1) quiet
    by (auto simp: exchange_def split: prod.splits option.splits outcome.splits)
  moreover from d(2) have "fatal (cd_DecodeResponse (us_codec r) data (q_ID query) now) = Panic p"
    by (cases "fatal (cd_DecodeResponse (us_codec r) data (q_ID query) now)") auto
  moreover have "net_calls N r n m" using net_call.writes [OF w] by blast
  ultimately show ?thesis unfolding heard_from_def by metis
qed

lemma query_conn_Ret:
  "query_conn N r ctx conn query now n = (n', Ret rs) \<Longrightarrow>
     \<exists>resp. heard N r query now (Some (Ret resp)) \<and> rs = resp_Answers resp"
  by (auto simp: query_conn_def Let_def split: prod.splits option.splits outcome.splits dest!: exchange_Ret)

lemma set_deadline_calls:
  assumes "(case ctx_Deadline ctx of Some d \<Rightarrow> nc_SetDeadline N conn d n | None \<Rightarrow> (n, None)) = (m, err)"
  shows "net_calls N r n m"
proof (cases "ctx_Deadline ctx")
  case (Some d)
  with assms have "nc_SetDeadline N conn d n = (m, err)" by simp
  then show ?thesis using net_call.deadlines by (metis r_into_rtranclp)
qed (use assms in simp)

lemma query_conn_calls:
  assumes "query_conn N r ctx conn query now n = (n', out)"
  shows "net_calls N r n n'"
proof -
  obtain m err where d: "(case ctx_Deadline ctx of Some d \<Rightarrow> nc_SetDeadline N conn d n | None \<Rightarrow> (n, None)) = (m, err)"
    by (metis surj_pair)
  have "n' = m \<or> (\<exists>b. exchange N r conn b query now m = (n', out))"
    using assms d by (auto simp: query_conn_def split: option.splits outcome.splits)
  then show ?thesis using set_deadline_calls [OF d, of r] exchange_calls by (metis rtranclp_trans)
qed

lemma query_conn_Panic:
  assumes "query_conn N r ctx conn query now n = (n', Panic p)" and q: "network_quiet N r"
  shows "\<exists>m. heard_from N r n query now m \<and> fatal m = Panic p"
proof -
  obtain m err where d: "(case ctx_Deadline ctx of Some d \<Rightarrow> nc_SetDeadline N conn d n | None \<Rightarrow> (n, None)) = (m, err)"
    by (metis surj_pair)
  have "cd_EncodeQuery (us_codec r) query \<noteq> Panic p"
    using q unfolding network_quiet_def by (metis panics_simps(3))
  then obtain b where "exchange N r conn b query now m = (n', Panic p)"
    using assms(1) d by (auto simp: query_conn_def split: option.splits outcome.splits)
  from exchange_Panic [OF this q] show ?thesis using heard_later [OF set_deadline_calls [OF d]] by blast
qed

lemma server_Ret:
  "queryServerWithContext N r ctx srv query now n = (n', Ret rs) \<Longrightarrow>
     \<exists>resp. heard N r query now (Some (Ret resp)) \<and> rs = resp_Answers resp"
  by (auto simp: queryServerWithContext_def split: prod.splits outcome.splits dest!: query_conn_Ret)

lemma server_calls:
  assumes "queryServerWithContext N r ctx srv query now n = (n', out)"
  shows "net_calls N r n n'"
proof -
  obtain m res where d: "us_dial r ctx ''udp'' srv n = (m, res)" by (metis surj_pair)
  note n_m = r_into_rtranclp [where r = "net_call N r", OF net_call.dials [OF d]]
  show ?thesis
  proof (cases res)
    case (Ret conn)
    obtain k o1 where q: "query_conn N r ctx conn query now m = (k, o1)" by (metis surj_pair)
    have "n' = nc_Close N conn k" using assms d Ret q by (simp add: queryServerWithContext_def)
    then show ?thesis using n_m query_conn_calls [OF q] net_call.closes
      by (metis rtranclp.rtrancl_into_rtrancl rtranclp_trans)
  qed (use assms d n_m in \<open>simp_all add: queryServerWithContext_def\<close>)
qed

lemma server_Panic:
  assumes "queryServerWithContext N r ctx srv query now n = (n', Panic p)" and q: "network_quiet N r"
  shows "\<exists>m. heard_from N r n query now m \<and> fatal m = Panic p"
proof -
  have "us_dial r ctx ''udp'' srv n \<noteq> (m, Panic p)" for m
    using q unfolding network_quiet_def by (metis panics_simps(3) snd_conv)
  then obtain conn m m' where d: "us_dial r ctx ''udp'' srv n = (m, Ret conn)"
      "query_conn N r ctx conn query now m = (m', Panic p)"
    using assms(1) by (auto simp: queryServerWithContext_def split: prod.splits outcome.splits)
  from query_conn_Panic [OF d(2) q] show ?thesis
    using heard_later [OF r_into_rtranclp [where r = "net_call N r", OF net_call.dials [OF d(1)]]] by blast
qed

section \<open>One server after the other\<close>

text \<open>Servers that all fail, from one state of the network to the next, and the last error\<close>

inductive all_fail ::
    "('n, 'c) net_ops \<Rightarrow> ('n, 'c) us_resolver \<Rightarrow> deadline_ctx \<Rightarrow> question \<Rightarrow> time \<Rightarrow> string list \<Rightarrow>
     'n \<Rightarrow> 'n \<Rightarrow> error option \<Rightarrow> error option \<Rightarrow> bool"
  for N r ctx query now where
  none: "all_fail N r ctx query now [] n n e e"
| more: "\<lbrakk>queryServerWithContext N r ctx srv query now n = (n1, Err e1);
     all_fail N r ctx query now servers n1 n2 (Some e1) e2\<rbrakk> \<Longrightarrow>
     all_fail N r ctx query now (srv # servers) n n2 e e2"

inductive_simps all_fail_Nil [simp]: "all_fail N r ctx query now [] n n' e e'"
inductive_simps all_fail_Cons: "all_fail N r ctx query now (srv # servers) n n' e e'"

lemma all_fail_last: "all_fail N r ctx query now servers n n' e e' \<Longrightarrow> servers \<noteq> [] \<or> e \<noteq> None \<Longrightarrow> e' \<noteq> None"
  by (induction rule: all_fail.induct) auto

definition serial_failure :: "error option \<Rightarrow> resource_record list outcome" where
  "serial_failure e = Err (case e of
        None \<Rightarrow> Errorf ''all %d upstream servers failed: %w''
      | Some e \<Rightarrow> Wrapf ''all %d upstream servers failed: %w'' e)"

lemma query_servers_fail:
  "all_fail N r ctx query now servers n n' e e' \<Longrightarrow>
     query_servers N r ctx query now servers e n = (n', serial_failure e')"
  by (induction rule: all_fail.induct) (auto simp: serial_failure_def)

lemma query_servers_stop:
  assumes "all_fail N r ctx query now pre n n1 e e'"
    and "queryServerWithContext N r ctx srv query now n1 = (n', out)" and "\<forall>e. out \<noteq> Err e"
  shows "query_servers N r ctx query now (pre @ srv # post) e n = (n', out)"
  using assms by (induction rule: all_fail.induct) (auto split: outcome.splits)

text \<open>The first server that does not fail, after those before it failed\<close>

definition stops_at ::
    "('n, 'c) net_ops \<Rightarrow> ('n, 'c) us_resolver \<Rightarrow> deadline_ctx \<Rightarrow> question \<Rightarrow> time \<Rightarrow> string list \<Rightarrow>
     'n \<Rightarrow> error option \<Rightarrow> 'n \<Rightarrow> resource_record list outcome \<Rightarrow> bool" where
  "stops_at N r ctx query now servers n e n' out \<longleftrightarrow>
     (\<exists>pre srv post n1 e1. servers = pre @ srv # post \<and> all_fail N r ctx query now pre n n1 e e1
      \<and> queryServerWithContext N r ctx srv query now n1 = (n', out) \<and> (\<forall>e. out \<noteq> Err e))"

lemma stops_here:
  assumes "queryServerWithContext N r ctx srv query now n = (n', out)" and "\<forall>e. out \<noteq> Err e"
  shows "stops_at N r ctx query now (srv # servers) n e n' out"
  unfolding stops_at_def
proof (rule exI [of _ "[]"], rule exI [of _ srv], rule exI [of _ servers])
  show "\<exists>n1 e1. srv # servers = [] @ srv # servers \<and> all_fail N r ctx query now [] n n1 e e1
      \<and> queryServerWithContext N r ctx srv query now n1 = (n', out) \<and> (\<forall>e. out \<noteq> Err e)"
    using assms by auto
qed

lemma stops_later:
  assumes "queryServerWithContext N r ctx srv query now n = (n1, Err e1)"
    and "stops_at N r ctx query now servers n1 (Some e1) n' out"
  shows "stops_at N r ctx query now (srv # servers) n e n' out"
proof -
  obtain pre srv' post n2 e2 where s: "servers = pre @ srv' # post"
      "all_fail N r ctx query now pre n1 n2 (Some e1) e2"
      "queryServerWithContext N r ctx srv' query now n2 = (n', out)" "\<forall>e. out \<noteq> Err e"
    using assms(2) unfolding stops_at_def by blast
  have "srv # servers = (srv # pre) @ srv' # post" using s(1) by simp
  with all_fail.more [OF assms(1) s(2)] s(3,4) show ?thesis unfolding stops_at_def by blast
qed

lemma query_servers_cases:
  "(\<exists>n' out. stops_at N r ctx query now servers n e n' out) \<or> (\<exists>n' e1. all_fail N r ctx query now servers n n' e e1)"
proof (induction servers arbitrary: n e)
  case (Cons srv servers)
  obtain n1 out where q: "queryServerWithContext N r ctx srv query now n = (n1, out)" by fastforce
  show ?case
  proof (cases "\<exists>e1. out = Err e1")
    case True
    then obtain e1 where e1: "queryServerWithContext N r ctx srv query now n = (n1, Err e1)" using q by blast
    from Cons.IH [of n1 "Some e1"] show ?thesis
      by (elim disjE exE) (blast intro: stops_later [OF e1] all_fail.more [OF e1])+
  next
    case False
    then have "\<forall>e. out \<noteq> Err e" by simp
    from stops_here [OF q this] show ?thesis by blast
  qed
next
  case Nil
  show ?case by simp
qed

lemma stops_at_result:
  assumes "stops_at N r ctx query now servers n e n' out"
  shows "query_servers N r ctx query now servers e n = (n', out)"
proof -
  obtain pre srv post n1 e1 where s: "servers = pre @ srv # post" "all_fail N r ctx query now pre n n1 e e1"
      "queryServerWithContext N r ctx srv query now n1 = (n', out)" "\<forall>e. out \<noteq> Err e"
    using assms unfolding stops_at_def by blast
  from query_servers_stop [OF s(2-4), of post] s(1) show ?thesis by simp
qed

lemma query_servers_stops:
  assumes "query_servers N r ctx query now servers e n = (n', out)" and "\<forall>e. out \<noteq> Err e"
  shows "stops_at N r ctx query now servers n e n' out"
proof -
  have "\<nexists>n2 e1. all_fail N r ctx query now servers n n2 e e1"
    using assms query_servers_fail by (fastforce simp: serial_failure_def)
  then obtain n2 o2 where s: "stops_at N r ctx query now servers n e n2 o2"
    using query_servers_cases [of N r ctx query now servers n e] by blast
  with stops_at_result [OF s] assms(1) show ?thesis by simp
qed

lemma query_servers_reply:
  assumes "query_servers N r ctx query now servers e n = (n', out)" and "\<forall>e. out \<noteq> Err e"
  shows "\<exists>srv \<in> set servers. server_reply N r ctx query now srv out"
  using query_servers_stops [OF assms] unfolding stops_at_def by (auto intro: replied)

lemma all_fail_calls: "all_fail N r ctx query now servers n n' e e' \<Longrightarrow> net_calls N r n n'"
  by (induction rule: all_fail.induct) (auto dest: server_calls intro: rtranclp_trans)

lemma serial_Panic:
  assumes "resolveSerialWithContext N r ctx query now n = (n', Panic p)" and "network_quiet N r"
  shows "\<exists>m. heard_from N r n query now m \<and> fatal m = Panic p"
proof -
  obtain pre srv n1 e where f: "all_fail N r ctx query now pre n n1 None e"
      "queryServerWithContext N r ctx srv query now n1 = (n', Panic p)"
    using query_servers_stops [OF assms(1) [unfolded resolveSerialWithContext_def]] unfolding stops_at_def by blast
  from server_Panic [OF f(2) assms(2)] show ?thesis using heard_later [OF all_fail_calls [OF f(1)]] by blast
qed

text \<open>
  C29. The serial resolution of a resolver that \<open>NewResolver\<close> made: it returns what the
  first server returns that does not fail, after the servers before it were asked in order
  and failed, and asks no server after it; when all fail the error wraps the last one's.
\<close>

theorem serial_order:
  assumes "upstream_NewResolver dialer opts = Ret r"
  shows "resolveSerialWithContext N r ctx query now n = (n', out) \<longleftrightarrow>
    (\<exists>pre srv post n1 e. so_Servers opts = pre @ srv # post \<and> all_fail N r ctx query now pre n n1 None e
       \<and> queryServerWithContext N r ctx srv query now n1 = (n', out) \<and> (\<forall>e. out \<noteq> Err e))
    \<or> (\<exists>e. all_fail N r ctx query now (so_Servers opts) n n' None (Some e)
       \<and> out = Err (Wrapf ''all %d upstream servers failed: %w'' e))" (is "_ \<longleftrightarrow> ?stop n' out \<or> ?fail n' out")
proof -
  have servers: "us_servers r = so_Servers opts" "so_Servers opts \<noteq> []"
    using assms by (auto simp: NewResolver_Ret)
  have stops: "?stop m o1 = stops_at N r ctx query now (so_Servers opts) n None m o1" for m o1
    unfolding stops_at_def by blast
  have stop: "resolveSerialWithContext N r ctx query now n = (m, o1)" if "?stop m o1" for m o1
    using that unfolding stops resolveSerialWithContext_def servers(1) by (rule stops_at_result)
  have fail: "resolveSerialWithContext N r ctx query now n = (m, o1)" if "?fail m o1" for m o1
    using that by (auto simp: resolveSerialWithContext_def servers(1) serial_failure_def dest: query_servers_fail)
  have "\<exists>m o1. ?stop m o1 \<or> ?fail m o1"
    unfolding stops using query_servers_cases [of N r ctx query now "so_Servers opts" n None] servers(2)
    by (metis all_fail_last option.exhaust)
  then obtain m o1 where total: "?stop m o1 \<or> ?fail m o1" by blast
  then have eq: "resolveSerialWithContext N r ctx query now n = (m, o1)" using stop fail by blast
  show ?thesis
  proof
    assume "resolveSerialWithContext N r ctx query now n = (n', out)"
    then have "m = n'" "o1 = out" using eq by simp_all
    with total show "?stop n' out \<or> ?fail n' out" by simp
  next
    assume "?stop n' out \<or> ?fail n' out"
    then show "resolveSerialWithContext N r ctx query now n = (n', out)" using stop fail by blast
  qed
qed

section \<open>A scripted network\<close>

text \<open>
  Each server that is up has one datagram as its answer; every other server refuses the
  connection.
\<close>

type_synonym script = "(string \<times> bytes) list"

definition script_dial :: "(script, string) dial_func" where
  "script_dial ctx net srv n = (n, if map_of n srv = None then Err (Errorf ''refused'') else Ret srv)"

definition script_SetDeadline :: "string \<Rightarrow> time \<Rightarrow> script \<Rightarrow> script \<times> error option" where
  "script_SetDeadline conn d n = (n, None)"

definition script_Write :: "string \<Rightarrow> bytes \<Rightarrow> script \<Rightarrow> script \<times> error option" where
  "script_Write conn b n = (n, None)"

definition script_Read :: "string \<Rightarrow> nat \<Rightarrow> script \<Rightarrow> script \<times> bytes outcome" where
  "script_Read conn k n = (n, case map_of n conn of None \<Rightarrow> Err (Errorf ''closed'') | Some b \<Rightarrow> Ret (take k b))"

definition script_Close :: "string \<Rightarrow> script \<Rightarrow> script" where
  "script_Close conn n = n"

definition script_Done :: "deadline_ctx \<Rightarrow> script \<Rightarrow> error option" where
  "script_Done ctx n = None"

definition script_net :: "(script, string) net_ops" where
  "script_net = \<lparr>nc_SetDeadline = script_SetDeadline, nc_Write = script_Write, nc_Read = script_Read,
     nc_Close = script_Close, nc_Done = script_Done\<rparr>"

definition sample_opts :: "bool \<Rightarrow> (script, string) us_options" where
  "sample_opts par = \<lparr>so_Servers = [''a'', ''b''], so_Timeout = 0, so_Parallel = par,
     so_Codec = Some (NewUDPCodec sample_extern), so_Dial = None\<rparr>"

definition sample_upstream :: "bool \<Rightarrow> (script, string) us_resolver" where
  "sample_upstream par = \<lparr>us_servers = [''a'', ''b''], us_timeout = 5 * Second,
     us_codec = NewUDPCodec sample_extern, us_parallel = par, us_dial = script_dial\<rparr>"

lemma sample_made: "upstream_NewResolver script_dial (sample_opts par) = Ret (sample_upstream par)"
  by (simp add: NewResolver_Ret sample_opts_def sample_upstream_def)

definition sample_script :: script where
  "sample_script = [(''b'', [0, 7, 0x81, 0x80, 0, 1, 0, 1, 0, 0, 0, 0,
      1, 0x61, 0, 0, 1, 0, 1, 0xC0, 12, 0, 1, 0, 1, 0, 0, 0, 9, 0, 4, 192, 0, 2, 1])]"

definition sample_asked :: question where
  "sample_asked = \<lparr>q_ID = 7, q_Name = ''a'', q_Type = RRTypeA, q_Class = RRClassIN\<rparr>"

definition sample_reply :: resource_record where
  "sample_reply = sample_a\<lparr>rr_ttl := 9, rr_expiresAt := Some 9000000000\<rparr>"

definition no_deadline :: deadline_ctx where
  "no_deadline = \<lparr>ctx_Deadline = None\<rparr>"

lemma sample_serial:
  "resolveSerialWithContext script_net (sample_upstream par) no_deadline sample_asked 0 sample_script
     = (sample_script, Ret [sample_reply])"
  by code_simp

theorem serial_order_witness:
  "\<exists>pre srv post n1 e. so_Servers (sample_opts False) = pre @ srv # post
     \<and> all_fail script_net (sample_upstream False) no_deadline sample_asked 0 pre sample_script n1 None e
     \<and> queryServerWithContext script_net (sample_upstream False) no_deadline srv sample_asked 0 n1
         = (sample_script, Ret [sample_reply])"
  using serial_order [OF sample_made [of False], of script_net no_deadline sample_asked 0 sample_script
      sample_script "Ret [sample_reply]"] sample_serial [of False] by auto

end
