(* ===== verification/Fanout.thy ===== *)
theory Fanout
  imports UpstreamProps
begin

text \<open>
  The parallel resolution: the invariant of the calling goroutine and its workers, what the
  call returns, that it never blocks once the workers have ended, and a bound on the number
  of its steps.
\<close>

section \<open>The invariant\<close>

fun is_failed :: "worker \<Rightarrow> bool" where
  "is_failed (Failed e) = True"
| "is_failed w = False"

definition failures :: "worker list \<Rightarrow> nat" where
  "failures ws = length (filter is_failed ws)"

definition reported :: "(string \<Rightarrow> resource_record list outcome \<Rightarrow> bool) \<Rightarrow> string \<Rightarrow> worker \<Rightarrow> bool" where
  "reported reply srv w = (case w of Running \<Rightarrow> True | Succeeded rs \<Rightarrow> reply srv (Ret rs) | Failed e \<Rightarrow> reply srv (Err e))"

lemma reported_simps [simp]:
  "reported reply srv Running" "reported reply srv (Succeeded rs) = reply srv (Ret rs)"
  "reported reply srv (Failed e) = reply srv (Err e)"
  by (simp_all add: reported_def)

lemma failures_update:
  "j < length ws \<Longrightarrow> ws ! j = Running \<Longrightarrow>
     failures (ws[j := Failed e]) = Suc (failures ws) \<and> failures (ws[j := Succeeded rs]) = failures ws"
proof (induction ws arbitrary: j)
  case (Cons w ws)
  then show ?case by (cases j) (auto simp: failures_def)
qed simp

lemma failures_le: "failures ws \<le> length ws"
  by (simp add: failures_def)

lemma failures_all: "failures ws = length ws \<Longrightarrow> w \<in> set ws \<Longrightarrow> is_failed w"
  unfolding failures_def by (metis length_filter_less less_irrefl)

lemma failures_running: "Running \<in> set ws \<Longrightarrow> failures ws < length ws"
  unfolding failures_def by (metis is_failed.simps(2) length_filter_less)

definition timed_out :: "resource_record list outcome" where
  "timed_out = Err (Errorf ''query timeout after %v'')"

definition all_failed :: "resource_record list outcome" where
  "all_failed = Err (Errorf ''all %d upstream servers failed: %v'')"

definition phase_ok :: "(string \<Rightarrow> resource_record list outcome \<Rightarrow> bool) \<Rightarrow> string list \<Rightarrow> fanout \<Rightarrow> bool" where
  "phase_ok reply servers s = (case fo_phase s of
       Looping \<Rightarrow> \<not> fo_cancelled s \<and> ((\<exists>rs. Succeeded rs \<in> set (fo_workers s)) \<longrightarrow> fo_resp s \<noteq> None)
         \<and> (\<not> fo_done s \<longrightarrow> length (fo_errors s) + length (fo_errs s) = failures (fo_workers s))
     | WaitingGroup \<Rightarrow> fo_done s
     | Returned out \<Rightarrow>
         (\<exists>rs. out = Ret rs \<and> Succeeded rs \<in> set (fo_workers s))
         \<or> (out = timed_out \<and> fo_done s \<and> Running \<notin> set (fo_workers s))
         \<or> (out = all_failed \<and> (\<forall>w \<in> set (fo_workers s). is_failed w))
     | Crashed p \<Rightarrow> \<exists>srv \<in> set servers. reply srv (Panic p))"

definition fanout_inv :: "(string \<Rightarrow> resource_record list outcome \<Rightarrow> bool) \<Rightarrow> string list \<Rightarrow> fanout \<Rightarrow> bool" where
  "fanout_inv reply servers s \<longleftrightarrow>
     list_all2 (reported reply) servers (fo_workers s)
     \<and> (\<forall>rs. fo_resp s = Some rs \<longrightarrow> Succeeded rs \<in> set (fo_workers s))
     \<and> length (fo_errors s) + length (fo_errs s) \<le> failures (fo_workers s)
     \<and> phase_ok reply servers s"

lemma fanout_inv_init: "fanout_inv reply servers (fanout_init servers)"
  by (auto simp: fanout_inv_def fanout_init_def phase_ok_def failures_def list_all2_conv_all_nth)

lemma inv_length: "fanout_inv reply servers s \<Longrightarrow> length (fo_workers s) = length servers"
  by (auto simp: fanout_inv_def dest: list_all2_lengthD)

lemma reported_update:
  "list_all2 (reported reply) servers ws \<Longrightarrow> j < length servers \<Longrightarrow> reported reply (servers ! j) w \<Longrightarrow>
     list_all2 (reported reply) servers (ws[j := w])"
  by (auto simp: list_all2_conv_all_nth nth_list_update)

lemma set_update_keep:
  "j < length ws \<Longrightarrow> ws ! j = Running \<Longrightarrow> w \<in> set ws \<Longrightarrow> w \<noteq> Running \<Longrightarrow> w \<in> set (ws[j := v])"
  by (metis in_set_conv_nth length_list_update nth_list_update_neq)

lemma set_update_new: "w \<in> set (ws[j := v]) \<Longrightarrow> w \<in> set ws \<or> w = v"
  by (metis insert_iff set_update_subset_insert subsetD)

lemma worker_end_phase:
  assumes inv: "fanout_inv reply servers s" and j: "j < length (fo_workers s)" "fo_workers s ! j = Running"
    and w: "w \<noteq> Running" "(\<exists>rs. w = Succeeded rs) \<or> fo_resp s \<noteq> None \<longrightarrow> fo_resp t \<noteq> None"
    and t: "fo_workers t = (fo_workers s)[j := w]" "fo_phase t = fo_phase s" "fo_done t = fo_done s"
      "fo_cancelled t = fo_cancelled s"
    and count: "fo_phase s = Looping \<Longrightarrow> \<not> fo_done s \<Longrightarrow>
      length (fo_errors t) + length (fo_errs t) = failures ((fo_workers s)[j := w])"
  shows "phase_ok reply servers t"
proof -
  have run: "Running \<in> set (fo_workers s)" using j by (metis nth_mem)
  note keep = set_update_keep [OF j]
  show ?thesis
  proof (cases "fo_phase s")
    case Looping
    then show ?thesis using inv w t count by (auto simp: fanout_inv_def phase_ok_def dest!: set_update_new)
  next
    case WaitingGroup
    then show ?thesis using inv t by (auto simp: fanout_inv_def phase_ok_def)
  next
    case (Returned out)
    with inv run obtain rs where "out = Ret rs" "Succeeded rs \<in> set (fo_workers s)"
      by (auto simp: fanout_inv_def phase_ok_def)
    with Returned keep t show ?thesis by (auto simp: phase_ok_def)
  next
    case (Crashed p)
    then show ?thesis using inv t by (auto simp: fanout_inv_def phase_ok_def)
  qed
qed

lemma worker_step_inv:
  assumes "worker_step reply servers s t" and "fanout_inv reply servers s"
  shows "fanout_inv reply servers t"
  using assms
proof (induction rule: worker_step.induct)
  case (send_response j s rs)
  have j: "j < length (fo_workers s)" using send_response.hyps(1) inv_length [OF send_response.prems] by simp
  note run = j send_response.hyps(2)
  note ph = worker_end_phase [OF send_response.prems run, where w = "Succeeded rs"]
  have new: "Succeeded rs \<in> set ((fo_workers s)[j := Succeeded rs])" using j by (rule set_update_memI)
  have "phase_ok reply servers (s\<lparr>fo_workers := (fo_workers s)[j := Succeeded rs],
        fo_resp := (case fo_resp s of None \<Rightarrow> Some rs | Some first \<Rightarrow> Some first)\<rparr>)"
    using send_response.prems failures_update [OF run]
    by (intro ph) (auto simp: fanout_inv_def phase_ok_def split: option.splits)
  then show ?case
    using send_response new set_update_keep [OF run] failures_update [OF run]
      reported_update [of reply servers "fo_workers s" j "Succeeded rs"]
    by (auto simp: fanout_inv_def split: option.splits)
next
  case (send_error j s e)
  have j: "j < length (fo_workers s)" using send_error.hyps(1) inv_length [OF send_error.prems] by simp
  note run = j send_error.hyps(2)
  have "phase_ok reply servers (s\<lparr>fo_workers := (fo_workers s)[j := Failed e],
        fo_errs := fo_errs s @ [Wrapf ''server %s: %w'' e]\<rparr>)"
    using send_error.prems failures_update [OF run]
    by (intro worker_end_phase [OF send_error.prems run, where w = "Failed e"])
      (auto simp: fanout_inv_def phase_ok_def)
  then show ?case
    using send_error set_update_keep [OF run] failures_update [OF run]
      reported_update [of reply servers "fo_workers s" j "Failed e"]
    by (auto simp: fanout_inv_def)
next
  case (drop_error j s e)
  have j: "j < length (fo_workers s)" using drop_error.hyps(1) inv_length [OF drop_error.prems] by simp
  note run = j drop_error.hyps(2)
  from run have "Running \<in> set (fo_workers s)" by (metis nth_mem)
  then have room: "length (fo_errs s) < length servers"
    using failures_running [of "fo_workers s"] inv_length [OF drop_error.prems] drop_error.prems
    by (auto simp: fanout_inv_def)
  have "phase_ok reply servers (s\<lparr>fo_workers := (fo_workers s)[j := Failed e]\<rparr>)"
    using drop_error.prems room drop_error.hyps(4)
    by (intro worker_end_phase [OF drop_error.prems run, where w = "Failed e"])
      (auto simp: fanout_inv_def phase_ok_def pctx_done_def)
  then show ?case
    using drop_error set_update_keep [OF run] failures_update [OF run]
      reported_update [of reply servers "fo_workers s" j "Failed e"]
    by (auto simp: fanout_inv_def)
next
  case (crash j s p)
  then show ?case by (auto simp: fanout_inv_def phase_ok_def intro!: bexI [of _ "servers ! j"])
qed

lemma caller_step_inv:
  assumes "caller_step servers s t" and "fanout_inv reply servers s"
  shows "fanout_inv reply servers t"
  using assms
proof (induction rule: caller_step.induct)
  case (exhausted s)
  have "failures (fo_workers s) = length (fo_workers s)"
    using exhausted failures_le [of "fo_workers s"] inv_length [OF exhausted.prems]
    by (auto simp: fanout_inv_def)
  then have "\<forall>w \<in> set (fo_workers s). is_failed w" by (blast dest: failures_all)
  then show ?case using exhausted by (auto simp: fanout_inv_def phase_ok_def all_failed_def)
qed (auto simp: fanout_inv_def phase_ok_def timed_out_def split: phase.splits)

lemma fanout_step_inv:
  assumes "fanout_step reply servers s t" and "fanout_inv reply servers s"
  shows "fanout_inv reply servers t"
  using assms
proof (induction rule: fanout_step.induct)
  case (work s t)
  then show ?case using worker_step_inv by blast
next
  case (call s t)
  then show ?case using caller_step_inv by blast
next
  case (expire s)
  then show ?case by (auto simp: fanout_inv_def phase_ok_def split: phase.splits)
qed

lemma fanout_reach_inv: "fanout_reach reply servers s \<Longrightarrow> fanout_inv reply servers s"
  by (induction rule: fanout_reach.induct) (auto intro: fanout_inv_init fanout_step_inv)

section \<open>What the call returns\<close>

lemma inv_worker:
  assumes "fanout_inv reply servers s" and "w \<in> set (fo_workers s)"
  shows "\<exists>srv \<in> set servers. reported reply srv w"
  using assms unfolding fanout_inv_def by (metis in_set_conv_nth list_all2_conv_all_nth)

lemma inv_server:
  assumes "fanout_inv reply servers s" and "srv \<in> set servers"
  shows "\<exists>w \<in> set (fo_workers s). reported reply srv w"
  using assms unfolding fanout_inv_def by (metis in_set_conv_nth list_all2_conv_all_nth)

lemma fanout_returned:
  assumes "fanout_reach reply servers s" and "fo_phase s = Returned out"
  shows "(\<exists>rs. out = Ret rs \<and> (\<exists>srv \<in> set servers. reply srv (Ret rs)))
    \<or> (out = timed_out \<and> fo_done s)
    \<or> (out = all_failed \<and> (\<forall>srv \<in> set servers. \<exists>e. reply srv (Err e)))"
proof -
  note inv = fanout_reach_inv [OF assms(1)]
  then have "(\<exists>rs. out = Ret rs \<and> Succeeded rs \<in> set (fo_workers s)) \<or> (out = timed_out \<and> fo_done s)
    \<or> (out = all_failed \<and> (\<forall>w \<in> set (fo_workers s). is_failed w))"
    using assms(2) by (auto simp: fanout_inv_def phase_ok_def)
  moreover have "\<exists>srv \<in> set servers. reply srv (Ret rs)" if "Succeeded rs \<in> set (fo_workers s)" for rs
    using inv_worker [OF inv that] by simp
  moreover have "\<exists>e. reply srv (Err e)" if f: "\<forall>w \<in> set (fo_workers s). is_failed w" and srv: "srv \<in> set servers" for srv
  proof -
    from inv_server [OF inv srv] obtain w where w: "w \<in> set (fo_workers s)" "reported reply srv w" by blast
    with f show ?thesis by (cases w) auto
  qed
  ultimately show ?thesis by blast
qed

lemma fanout_crashed:
  "fanout_reach reply servers s \<Longrightarrow> fo_phase s = Crashed p \<Longrightarrow> \<exists>srv \<in> set servers. reply srv (Panic p)"
  by (drule fanout_reach_inv) (auto simp: fanout_inv_def phase_ok_def)

section \<open>Progress and termination\<close>

lemma caller_progress:
  assumes inv: "fanout_inv reply servers s" and run: "Running \<notin> set (fo_workers s)"
    and ph: "fo_phase s = Looping \<or> fo_phase s = WaitingGroup"
  shows "\<exists>t. caller_step servers s t"
proof (cases "fo_phase s = Looping \<and> length (fo_errors s) < length servers \<and> \<not> fo_done s \<and> fo_resp s = None")
  case True
  then have "\<nexists>rs. Succeeded rs \<in> set (fo_workers s)" using inv by (auto simp: fanout_inv_def phase_ok_def)
  with run have all: "\<forall>w \<in> set (fo_workers s). is_failed w" by (metis is_failed.simps(1) worker.exhaust)
  then have "failures (fo_workers s) = length servers"
    using inv_length [OF inv] by (simp add: failures_def filter_True)
  then have "fo_errs s \<noteq> []" using True inv by (auto simp: fanout_inv_def phase_ok_def)
  then show ?thesis using True by (metis caller_step.take_error list.exhaust)
next
  case False
  then consider "fo_phase s = WaitingGroup" | "fo_phase s = Looping" "\<not> length (fo_errors s) < length servers"
    | "fo_phase s = Looping" "length (fo_errors s) < length servers" "fo_done s"
    | rs where "fo_phase s = Looping" "length (fo_errors s) < length servers" "fo_resp s = Some rs"
    using ph by auto
  then show ?thesis using run by cases (blast intro: caller_step.intros)+
qed

definition running :: "worker list \<Rightarrow> nat" where
  "running ws = length (filter (\<lambda>w. w = Running) ws)"

definition fanout_size :: "fanout \<Rightarrow> nat" where
  "fanout_size s = 2 * running (fo_workers s) + length (fo_errs s) + (if fo_done s then 0 else 1)
     + (case fo_phase s of Looping \<Rightarrow> 3 | WaitingGroup \<Rightarrow> 2 | Returned _ \<Rightarrow> 1 | Crashed _ \<Rightarrow> 0)"

lemma running_update:
  "j < length ws \<Longrightarrow> ws ! j = Running \<Longrightarrow> w \<noteq> Running \<Longrightarrow> Suc (running (ws[j := w])) = running ws"
proof (induction ws arbitrary: j)
  case (Cons v ws)
  then show ?case by (cases j) (auto simp: running_def)
qed simp

lemma worker_step_size:
  assumes "worker_step reply servers s t" and "length (fo_workers s) = length servers" and "\<nexists>p. fo_phase s = Crashed p"
  shows "fanout_size t < fanout_size s"
  using assms
proof (induction rule: worker_step.induct)
  case (send_response j s rs)
  then show ?case using running_update [of j "fo_workers s" "Succeeded rs"] by (auto simp: fanout_size_def)
next
  case (send_error j s e)
  then show ?case using running_update [of j "fo_workers s" "Failed e"] by (auto simp: fanout_size_def)
next
  case (drop_error j s e)
  then show ?case using running_update [of j "fo_workers s" "Failed e"] by (auto simp: fanout_size_def)
next
  case (crash j s p)
  then show ?case by (auto simp: fanout_size_def split: phase.splits)
qed

lemma caller_step_size: "caller_step servers s t \<Longrightarrow> fanout_size t < fanout_size s"
  by (induction rule: caller_step.induct) (auto simp: fanout_size_def)

lemma fanout_step_size:
  "fanout_step reply servers s t \<Longrightarrow> fanout_inv reply servers s \<Longrightarrow> fanout_size t < fanout_size s"
proof (induction rule: fanout_step.induct)
  case (work s t)
  then show ?case using worker_step_size inv_length by blast
next
  case (call s t)
  then show ?case by (simp add: caller_step_size)
qed (auto simp: fanout_size_def)

lemma fanout_run:
  "(fanout_step reply servers ^^ k) (fanout_init servers) s \<Longrightarrow>
     fanout_reach reply servers s \<and> fanout_size s + k \<le> 2 * length servers + 4"
proof (induction k arbitrary: s)
  case 0
  then show ?case by (auto simp: fanout_init_def fanout_size_def running_def intro: fanout_reach.start [unfolded fanout_init_def])
next
  case (Suc k)
  then obtain u where u: "(fanout_step reply servers ^^ k) (fanout_init servers) u" "fanout_step reply servers u s"
    by auto
  from Suc.IH [OF u(1)] have r: "fanout_reach reply servers u" and b: "fanout_size u + k \<le> 2 * length servers + 4" by auto
  from fanout_step_size [OF u(2) fanout_reach_inv [OF r]] b show ?case
    using fanout_reach.further [OF r u(2)] by auto
qed

text \<open>A worker that runs can end: every query of a server comes back with something.\<close>

lemma worker_progress:
  assumes inv: "fanout_inv reply servers s" and run: "Running \<in> set (fo_workers s)" and total: "\<And>srv. \<exists>out. reply srv out"
  shows "\<exists>t. worker_step reply servers s t"
proof -
  obtain j where j: "j < length servers" "fo_workers s ! j = Running"
    using run inv_length [OF inv] by (metis in_set_conv_nth)
  obtain out where out: "reply (servers ! j) out" using total by blast
  show ?thesis
  proof (cases out)
    case (Err e)
    with out have "reply (servers ! j) (Err e)" by simp
    then show ?thesis
      using j worker_step.send_error [of j servers s reply e] worker_step.drop_error [of j servers s reply e] by blast
  qed (use out j worker_step.send_response worker_step.crash in blast)+
qed

lemma server_reply_total: "\<exists>out. server_reply N r ctx query now srv out"
  by (metis replied surj_pair)

text \<open>
  C15. What the parallel resolution returns: the answer of one of the servers, a timeout
  error when the deadline of the context has passed, or the error that all servers failed,
  and then each of them did fail.
\<close>

theorem parallel_outcome:
  assumes "fanout_reach (server_reply N r ctx query now) (us_servers r) s" and "fo_phase s = Returned out"
  shows "(\<exists>rs. out = Ret rs \<and> (\<exists>srv \<in> set (us_servers r). server_reply N r ctx query now srv (Ret rs)))
    \<or> (out = Err (Errorf ''query timeout after %v'') \<and> fo_done s)
    \<or> (out = Err (Errorf ''all %d upstream servers failed: %v'')
        \<and> (\<forall>srv \<in> set (us_servers r). \<exists>e. server_reply N r ctx query now srv (Err e)))"
  using fanout_returned [OF assms] by (simp add: timed_out_def all_failed_def)

text \<open>
  C16. The parallel resolution ends: with \<open>n\<close> servers it takes at most \<open>2 n + 4\<close> steps
  whatever the schedule, and it never blocks: a worker or the caller can go on, without the
  deadline having to pass, until the call has returned or a worker has ended the process.
\<close>

theorem parallel_returns:
  assumes "(fanout_step (server_reply N r ctx query now) (us_servers r) ^^ k) (fanout_init (us_servers r)) s"
  shows "k \<le> 2 * length (us_servers r) + 4
    \<and> ((\<exists>t. worker_step (server_reply N r ctx query now) (us_servers r) s t) \<or> (\<exists>t. caller_step (us_servers r) s t)
       \<or> (\<exists>out. fo_phase s = Returned out \<and> resolveWithContext N r ctx query now out)
       \<or> (\<exists>p. fo_phase s = Crashed p \<and> resolveWithContext N r ctx query now (Panic p)))"
proof -
  from fanout_run [OF assms] have reach: "fanout_reach (server_reply N r ctx query now) (us_servers r) s"
    and bound: "k \<le> 2 * length (us_servers r) + 4" by auto
  note inv = fanout_reach_inv [OF reach]
  show ?thesis
  proof (cases "fo_phase s")
    case (Returned out)
    with resolveWithContext.returns [OF reach this] bound show ?thesis by blast
  next
    case (Crashed p)
    with resolveWithContext.dies [OF reach this] bound show ?thesis by blast
  qed (use bound caller_progress [OF inv] worker_progress [OF inv _ server_reply_total] in blast)+
qed

section \<open>Resolve\<close>

definition par_ok ::
    "('n, 'c) net_ops \<Rightarrow> ('n, 'c) us_resolver \<Rightarrow> question \<Rightarrow> time \<Rightarrow>
     (deadline_ctx \<Rightarrow> question \<Rightarrow> time \<Rightarrow> 'n \<Rightarrow> 'n \<times> resource_record list outcome) \<Rightarrow> bool" where
  "par_ok N r query now par \<longleftrightarrow>
     (us_parallel r \<longrightarrow> (\<forall>ctx n. resolveWithContext N r ctx query now (snd (par ctx query now n))))"

lemma resolveWithContext_reply:
  assumes "resolveWithContext N r ctx query now out" and "\<forall>e. out \<noteq> Err e"
  shows "\<exists>srv. server_reply N r ctx query now srv out"
  using assms(1)
proof cases
  case (returns s)
  from fanout_returned [OF this] assms(2) show ?thesis by (auto simp: timed_out_def all_failed_def)
next
  case (dies s p)
  from fanout_crashed [OF dies(2,3)] dies(1) show ?thesis by blast
qed

lemma Resolve_reply:
  assumes "upstream_Resolve par N r wall ctx n query now = (n', out)" and "\<forall>e. out \<noteq> Err e"
    and "par_ok N r query now par"
  shows "\<exists>ctx srv. server_reply N r ctx query now srv out"
proof (cases "us_parallel r")
  case True
  define c where "c = fst (ensureContextDeadline r wall ctx)"
  have "par c query now n = (n', out)"
    using assms(1) True by (auto simp: upstream_Resolve_def c_def split: prod.splits)
  moreover have "resolveWithContext N r c query now (snd (par c query now n))"
    using assms(3) True unfolding par_ok_def by blast
  ultimately show ?thesis using resolveWithContext_reply assms(2) by (metis snd_conv)
next
  case False
  define c where "c = fst (ensureContextDeadline r wall ctx)"
  have "query_servers N r c query now (us_servers r) None n = (n', out)"
    using assms(1) False
    by (auto simp: upstream_Resolve_def c_def resolveSerialWithContext_def split: prod.splits)
  from query_servers_reply [OF this assms(2)] show ?thesis by blast
qed

lemma Resolve_arrived:
  assumes "us_codec r = NewUDPCodec X" and "par_ok N r query now par"
    and "upstream_Resolve par N r wall ctx n query now = (n', Ret rs)"
  shows "\<exists>resp. heard N r query now (Some (Ret resp)) \<and> rs = resp_Answers resp
    \<and> resp_ID resp = q_ID query \<and> (\<forall>rr \<in> set rs. arrived X now rr)"
proof -
  obtain c srv where "server_reply N r c query now srv (Ret rs)"
    using Resolve_reply [OF assms(3) _ assms(2)] by auto
  then obtain m m' where "queryServerWithContext N r c srv query now m = (m', Ret rs)"
    by (auto elim: server_reply.cases)
  from server_Ret [OF this] obtain resp where h: "heard N r query now (Some (Ret resp))" "rs = resp_Answers resp"
    by blast
  then obtain data where "cd_DecodeResponse (NewUDPCodec X) data (q_ID query) now = Some (Ret resp)"
    using assms(1) unfolding heard_def by metis
  from udp.response_id [OF this] h show ?thesis by blast
qed

text \<open>
  C27. Every answer of \<open>Resolve\<close>, serial or parallel, is the answer section of one
  datagram that the codec accepted under the ID of the query, and each of its records is
  valid, has a canonical name, and lives for its TTL from the time of the call.
\<close>

theorem resolve_answers:
  assumes "us_codec r = NewUDPCodec X" and "par_ok N r query now par"
    and "upstream_Resolve par N r wall ctx n query now = (n', Ret rs)"
  shows "\<exists>resp. heard N r query now (Some (Ret resp)) \<and> rs = resp_Answers resp
    \<and> resp_ID resp = q_ID query \<and> (\<forall>rr \<in> set rs. arrived X now rr)"
  using assms by (rule Resolve_arrived)

text \<open>
  C28. \<open>Resolve\<close> brings the process down only when the decoder does: over a network whose
  calls do not panic, a panic is that of the decoder on a datagram that was read, and a
  stack overflow one on which the decoder does not return.
\<close>

theorem resolve_panics:
  assumes "us_codec r = NewUDPCodec X" and "par_ok N r query now par"
    and dial: "\<forall>ctx net srv n. \<not> panics (snd (us_dial r ctx net srv n))"
    and read: "\<forall>conn k n. \<not> panics (snd (nc_Read N conn k n))"
    and "upstream_Resolve par N r wall ctx n query now = (n', Panic p)"
  shows "\<exists>conn n1 n2 data. nc_Read N conn 512 n1 = (n2, Ret data)
    \<and> (DecodeResponse X data (q_ID query) now = Some (Panic p)
       \<or> (DecodeResponse X data (q_ID query) now = None \<and> p = StackOverflow))"
proof -
  have quiet: "network_quiet N r"
    using dial read udp.query_error [of X] unfolding network_quiet_def assms(1) by blast
  obtain c srv where "server_reply N r c query now srv (Panic p)"
    using Resolve_reply [OF assms(5) _ assms(2)] by auto
  then obtain m m' where "queryServerWithContext N r c srv query now m = (m', Panic p)"
    by (auto elim: server_reply.cases)
  from server_Panic [OF this quiet] obtain d where h: "heard N r query now d" "fatal d = Panic p"
    by (blast dest: heard_from_heard)
  then have "d = Some (Panic p) \<or> (d = None \<and> p = StackOverflow)" by (cases d) auto
  with h(1) show ?thesis unfolding heard_def assms(1) NewUDPCodec_simps by metis
qed

section \<open>Concrete runs\<close>

text \<open>The second server answers and the caller takes the answer.\<close>

definition sample_sent :: fanout where
  "sample_sent = \<lparr>fo_workers = [Running, Succeeded [sample_reply]], fo_resp = Some [sample_reply], fo_errs = [],
     fo_errors = [], fo_done = False, fo_cancelled = False, fo_phase = Looping\<rparr>"

definition sample_taken :: fanout where
  "sample_taken = sample_sent\<lparr>fo_resp := None, fo_cancelled := True, fo_phase := Returned (Ret [sample_reply])\<rparr>"

abbreviation sample_replies :: "string \<Rightarrow> resource_record list outcome \<Rightarrow> bool" where
  "sample_replies \<equiv> server_reply script_net (sample_upstream True) no_deadline sample_asked 0"

lemma sample_replied: "sample_replies ''b'' (Ret [sample_reply])"
proof -
  have "queryServerWithContext script_net (sample_upstream True) no_deadline ''b'' sample_asked 0 sample_script
      = (sample_script, Ret [sample_reply])" by code_simp
  then show ?thesis by (rule replied)
qed

lemma sample_servers [simp]: "us_servers (sample_upstream par) = [''a'', ''b'']"
  by (simp add: sample_upstream_def)

lemma sample_sent_step:
  "fanout_step sample_replies [''a'', ''b''] (fanout_init [''a'', ''b'']) sample_sent"
proof -
  have "worker_step sample_replies [''a'', ''b''] (fanout_init [''a'', ''b''])
      ((fanout_init [''a'', ''b''])\<lparr>fo_workers := (fo_workers (fanout_init [''a'', ''b'']))[1 := Succeeded [sample_reply]],
        fo_resp := (case fo_resp (fanout_init [''a'', ''b'']) of None \<Rightarrow> Some [sample_reply] | Some first \<Rightarrow> Some first)\<rparr>)"
    by (rule send_response) (auto simp: fanout_init_def sample_replied)
  then show ?thesis by (intro fanout_step.work) (auto simp: fanout_init_def sample_sent_def)
qed

lemma sample_taken_step: "fanout_step sample_replies [''a'', ''b''] sample_sent sample_taken"
  unfolding sample_taken_def by (intro fanout_step.call take_response) (simp_all add: sample_sent_def)

lemma sample_reach: "fanout_reach sample_replies [''a'', ''b''] sample_taken"
  by (rule further [OF further [OF start sample_sent_step] sample_taken_step])

lemma sample_taken_phase: "fo_phase sample_taken = Returned (Ret [sample_reply])"
  by (simp add: sample_taken_def)

theorem parallel_outcome_witness:
  "\<exists>srv \<in> {''a'', ''b''}. sample_replies srv (Ret [sample_reply])"
  using parallel_outcome [of script_net "sample_upstream True" no_deadline sample_asked 0 sample_taken "Ret [sample_reply]"]
    sample_reach sample_taken_phase by simp

theorem parallel_returns_witness:
  "resolveWithContext script_net (sample_upstream True) no_deadline sample_asked 0 (Ret [sample_reply])
     \<and> 2 \<le> 2 * length (us_servers (sample_upstream True)) + (4 :: nat)"
proof -
  have "(fanout_step sample_replies [''a'', ''b''] ^^ 2) (fanout_init [''a'', ''b'']) sample_taken"
    using sample_sent_step sample_taken_step by (auto simp: numeral_2_eq_2)
  with parallel_returns [where N = script_net and r = "sample_upstream True" and ctx = no_deadline
      and query = sample_asked and now = 0 and k = 2 and s = sample_taken]
  have "2 \<le> 2 * length (us_servers (sample_upstream True)) + (4 :: nat)" by simp
  with resolveWithContext.returns [OF sample_reach [folded sample_servers [of True]] sample_taken_phase]
  show ?thesis by blast
qed

theorem resolve_answers_witness:
  "upstream_Resolve (\<lambda>_ _ _ n. (n, timed_out)) script_net (sample_upstream False) 0 no_deadline sample_script sample_asked 0
     = (sample_script, Ret [sample_reply]) \<and> arrived sample_extern 0 sample_reply"
proof -
  let ?par = "\<lambda>_ _ _ n. (n, timed_out)"
  have e: "upstream_Resolve ?par script_net (sample_upstream False) 0 no_deadline sample_script sample_asked 0
     = (sample_script, Ret [sample_reply])"
    by code_simp
  have c: "us_codec (sample_upstream False) = NewUDPCodec sample_extern" by (simp add: sample_upstream_def)
  have p: "par_ok script_net (sample_upstream False) sample_asked 0 ?par" by (simp add: par_ok_def sample_upstream_def)
  from resolve_answers [OF c p e] e show ?thesis by auto
qed

text \<open>An upstream server whose answer has a CAA record with the tag length 254\<close>

definition sample_attack :: script where
  "sample_attack = [(''b'', [0, 7, 0x81, 0x80, 0, 0, 0, 1, 0, 0, 0, 0,
      1, 0x61, 0, 1, 1, 0, 1, 0, 0, 0, 9, 0, 2, 0, 254])]"

theorem resolve_panics_witness:
  "snd (upstream_Resolve (\<lambda>_ _ _ n. (n, timed_out)) script_net (sample_upstream False) 0 no_deadline sample_attack sample_asked 0)
     = Panic SliceBoundsOutOfRange
   \<and> (\<exists>conn n1 n2 data. nc_Read script_net conn 512 n1 = (n2, Ret data)
        \<and> DecodeResponse sample_extern data 7 0 = Some (Panic SliceBoundsOutOfRange))"
proof -
  let ?par = "\<lambda>_ _ _ n. (n, timed_out)"
  have e: "upstream_Resolve ?par script_net (sample_upstream False) 0 no_deadline sample_attack sample_asked 0
     = (sample_attack, Panic SliceBoundsOutOfRange)"
    by code_simp
  have c: "us_codec (sample_upstream False) = NewUDPCodec sample_extern" by (simp add: sample_upstream_def)
  have p: "par_ok script_net (sample_upstream False) sample_asked 0 ?par" by (simp add: par_ok_def sample_upstream_def)
  have d: "\<forall>ctx net srv n. \<not> panics (snd (us_dial (sample_upstream False) ctx net srv n))"
    by (simp add: sample_upstream_def script_dial_def)
  have r: "\<forall>conn k n. \<not> panics (snd (nc_Read script_net conn k n))"
    by (simp add: script_net_def script_Read_def split: option.splits)
  from resolve_panics [OF c p d r e] e show ?thesis by (auto simp: sample_asked_def)
qed

end
