(* ===== verification/Config.thy ===== *)
theory Config
  imports Utils GoNet
begin

text \<open>
  \<open>internal/dns/config/config.go\<close>: the configuration, from the defaults and the environment.
  The library that merges the sources (koanf) and the one that validates the result
  (validator) are code outside the repository: the fields of a record, with what their
  documentation says about the struct tags and about loading a struct as the locale
  \<open>config_library\<close>.
\<close>

section \<open>The configuration\<close>

text \<open>\<open>Servers\<close> is a slice, which may be nil.\<close>

record app_config =
  cfg_CacheSize :: "64 word"
  cfg_DisableCache :: bool
  cfg_Env :: string
  cfg_LogLevel :: string
  cfg_Port :: int
  cfg_ZoneDir :: string
  cfg_Servers :: "string list option"
  cfg_MaxRecursion :: int

definition DEFAULT_APP_CONFIG :: app_config where
  "DEFAULT_APP_CONFIG =
     \<lparr>cfg_CacheSize = 1000, cfg_DisableCache = False, cfg_Env = ''prod'', cfg_LogLevel = ''info'',
      cfg_Port = 53, cfg_ZoneDir = ''/etc/rr-dns/zones/'',
      cfg_Servers = Some [''1.1.1.1:53'', ''1.0.0.1:53''], cfg_MaxRecursion = 8\<rparr>"

text \<open>The \<open>validate\<close> tags of the fields; \<open>ip_port\<close> is the registered validation.\<close>

definition tags_ok :: "(string \<Rightarrow> bool) \<Rightarrow> app_config \<Rightarrow> bool" where
  "tags_ok ip_port cfg \<longleftrightarrow>
     cfg_CacheSize cfg \<noteq> 0 \<and> 1 \<le> cfg_CacheSize cfg
     \<and> cfg_Env cfg \<noteq> '''' \<and> cfg_Env cfg \<in> set [''dev'', ''prod'']
     \<and> cfg_LogLevel cfg \<noteq> '''' \<and> cfg_LogLevel cfg \<in> set [''debug'', ''info'', ''warn'', ''error'']
     \<and> cfg_Port cfg \<noteq> 0 \<and> 1 \<le> cfg_Port cfg \<and> cfg_Port cfg < 65535
     \<and> cfg_ZoneDir cfg \<noteq> ''''
     \<and> (case cfg_Servers cfg of None \<Rightarrow> False | Some servers \<Rightarrow> list_all ip_port servers)
     \<and> cfg_MaxRecursion cfg \<noteq> 0 \<and> 1 \<le> cfg_MaxRecursion cfg"

definition validIPPort :: "string \<Rightarrow> bool" where
  "validIPPort addr =
     (case SplitHostPort addr of
        None \<Rightarrow> False
      | Some (ip, port) \<Rightarrow>
          if ip = '''' \<or> port = '''' then False
          else if ParseIP ip = None then False
          else (case ParseUint port 16 of
                  None \<Rightarrow> False
                | Some portNum \<Rightarrow> 0 < portNum \<and> portNum < 65536))"

section \<open>Loading\<close>

text \<open>The transformation of one environment variable: a value with a space or a comma is a list.\<close>

datatype env_value = EnvString string | EnvParts "string list"

definition env_transform :: "extern \<Rightarrow> string \<Rightarrow> string \<Rightarrow> string \<times> env_value" where
  "env_transform X key val =
     (let key = ToLower (ext_lower X) (TrimPrefix key ''DNS_'');
          val = TrimSpace val
      in if val = '''' then (key, EnvString val)
         else if CHR '' '' \<in> set val \<or> CHR '','' \<in> set val then
           (key, EnvParts (FieldsFunc (\<lambda>r. r = CHR '' '' \<or> r = CHR '','') [] val))
         else (key, EnvString val))"

record ('k, 'v) config_lib =
  cl_New :: 'k
  cl_LoadStruct :: "app_config \<Rightarrow> 'k \<Rightarrow> 'k outcome"
  cl_LoadEnv :: "string \<Rightarrow> (string \<Rightarrow> string \<Rightarrow> string \<times> env_value) \<Rightarrow> 'k \<Rightarrow> 'k outcome"
  cl_Unmarshal :: "'k \<Rightarrow> app_config outcome"
  cl_Validator :: 'v
  cl_Register :: "string \<Rightarrow> (string \<Rightarrow> bool) \<Rightarrow> 'v \<Rightarrow> 'v outcome"
  cl_Struct :: "'v \<Rightarrow> app_config \<Rightarrow> error option"

definition envLoader :: "extern \<Rightarrow> ('k, 'v) config_lib \<Rightarrow> 'k \<Rightarrow> 'k outcome" where
  "envLoader X L k = cl_LoadEnv L ''DNS_'' (env_transform X) k"

definition defaultLoader :: "('k, 'v) config_lib \<Rightarrow> 'k \<Rightarrow> 'k outcome" where
  "defaultLoader L k = cl_LoadStruct L DEFAULT_APP_CONFIG k"

definition registerValidation :: "('k, 'v) config_lib \<Rightarrow> 'v \<Rightarrow> 'v outcome" where
  "registerValidation L v = cl_Register L ''ip_port'' validIPPort v"

definition config_Load :: "extern \<Rightarrow> ('k, 'v) config_lib \<Rightarrow> app_config outcome" where
  "config_Load X L =
     obind (map_err (Wrapf ''error loading default config: %w'') (defaultLoader L (cl_New L)))
       (\<lambda>k. obind (map_err (Wrapf ''error loading env: %w'') (envLoader X L k))
       (\<lambda>k. obind (map_err (Wrapf ''error unmarshalling config: %w'') (cl_Unmarshal L k))
       (\<lambda>cfg. obind (map_err (Wrapf ''error registering validation: %w'') (registerValidation L (cl_Validator L)))
       (\<lambda>v. case cl_Struct L v cfg of
             Some e \<Rightarrow> Err (Wrapf ''validation failed: %w'' e)
           | None \<Rightarrow> Ret cfg))))"

section \<open>The libraries' contract\<close>

text \<open>
  The validator accepts a struct exactly when its tags hold, with the registered function
  for the tag \<open>ip_port\<close>; what is loaded from a struct is unmarshalled as that struct.
\<close>

locale config_library =
  fixes L :: "('k, 'v) config_lib"
  assumes validates: "cl_Register L ''ip_port'' f (cl_Validator L) = Ret v \<Longrightarrow>
      cl_Struct L v cfg = None \<longleftrightarrow> tags_ok f cfg"
    and registers: "is_ret (cl_Register L ''ip_port'' f (cl_Validator L))"
    and unmarshals: "cl_LoadStruct L c (cl_New L) = Ret k \<Longrightarrow> cl_Unmarshal L k = Ret c"
    and calm: "\<not> panics (cl_LoadStruct L c k)" "\<not> panics (cl_LoadEnv L pre tf k)" "\<not> panics (cl_Unmarshal L k)"
begin

lemma Load_tags:
  assumes "config_Load X L = Ret cfg"
  shows "tags_ok validIPPort cfg"
  using assms validates [of validIPPort]
  by (auto simp: config_Load_def registerValidation_def obind_eq_Ret split: option.splits)

lemma Load_calm: "\<not> panics (config_Load X L)"
  using calm registers [of validIPPort]
  by (auto simp: config_Load_def panics_obind defaultLoader_def envLoader_def registerValidation_def is_ret_def
      split: outcome.splits option.splits)

lemma Load_default:
  assumes "cl_LoadStruct L DEFAULT_APP_CONFIG (cl_New L) = Ret k" and "envLoader X L k = Ret k"
    and "tags_ok validIPPort DEFAULT_APP_CONFIG"
  shows "config_Load X L = Ret DEFAULT_APP_CONFIG"
proof -
  obtain v where v: "cl_Register L ''ip_port'' validIPPort (cl_Validator L) = Ret v"
    using registers [of validIPPort] by (cases "cl_Register L ''ip_port'' validIPPort (cl_Validator L)") auto
  then have "cl_Struct L v DEFAULT_APP_CONFIG = None" using validates [OF v] assms(3) by simp
  with v show ?thesis
    using assms(1,2) unmarshals [OF assms(1)]
    by (simp add: config_Load_def defaultLoader_def registerValidation_def)
qed

end

section \<open>Addresses of servers\<close>

lemma last_colon_snoc:
  assumes "filter (\<lambda>i. s ! i = CHR '':'') [0..<length s] = ks @ [k]"
  shows "last_colon s = Some k"
  unfolding last_colon_def assms by (cases ks) simp_all

lemma last_colon_append:
  assumes "CHR '':'' \<notin> set q"
  shows "last_colon (h @ CHR '':'' # q) = Some (length h)"
proof -
  let ?s = "h @ CHR '':'' # q"
  have "[0..<length ?s] = [0..<length h] @ length h # [Suc (length h)..<length ?s]"
  proof -
    have "[0..<length h + Suc (length q)] = [0..<length h] @ [length h..<length h + Suc (length q)]"
      by (rule upt_add_eq_append) simp
    moreover have "[length h..<length h + Suc (length q)] = length h # [Suc (length h)..<length h + Suc (length q)]"
      by (rule upt_conv_Cons) simp
    ultimately show ?thesis by simp
  qed
  moreover have "filter (\<lambda>i. ?s ! i = CHR '':'') [Suc (length h)..<length ?s] = []"
  proof (rule filter_False, rule ballI)
    fix i
    assume "i \<in> set [Suc (length h)..<length ?s]"
    then have i: "Suc (length h) \<le> i" "i < length ?s" unfolding set_upt atLeastLessThan_iff by blast+
    then have "?s ! i = q ! (i - Suc (length h))" by (simp add: nth_append nth_Cons')
    moreover have "i - Suc (length h) < length q" using i by simp
    ultimately show "\<not> ?s ! i = CHR '':''" using assms by (metis nth_mem)
  qed
  ultimately have "filter (\<lambda>i. ?s ! i = CHR '':'') [0..<length ?s]
      = filter (\<lambda>i. ?s ! i = CHR '':'') [0..<length h] @ [length h]"
    by simp
  then show ?thesis by (rule last_colon_snoc)
qed

lemma SplitHostPort_plain:
  assumes "CHR '':'' \<notin> set h" "CHR ''['' \<notin> set h" "CHR '']'' \<notin> set h" "h \<noteq> []"
    and "CHR '':'' \<notin> set p" "CHR ''['' \<notin> set p" "CHR '']'' \<notin> set p"
  shows "SplitHostPort (h @ '':'' @ p) = Some (h, p)"
  using assms last_colon_append [of p h] by (cases h) (auto simp: SplitHostPort_def Let_def)

lemma show_ipv4_chars:
  assumes "c \<in> set (show_ipv4 b)"
  shows "is_digit c \<or> c = CHR ''.''"
proof -
  have "\<forall>c \<in> set (Join (map (\<lambda>x. show_nat (unat x)) b) ''.''). is_digit c \<or> c = CHR ''.''" for b :: bytes
  proof (induction b)
    case (Cons x b)
    have "\<forall>c \<in> set (show_nat (unat x)). is_digit c" using show_nat_digits by (simp add: list_all_iff)
    then show ?case using Cons by (cases b) (auto simp: Join_Cons)
  qed simp
  then show ?thesis using assms unfolding show_ipv4_def by blast
qed

lemma default_tags: "tags_ok validIPPort DEFAULT_APP_CONFIG"
  by code_simp

text \<open>
  The check of an upstream address: it accepts exactly the strings that split into a
  host and a port such that the host is an IP address and the port a number from 1 to
  65535, and it accepts every dotted quad with such a port.
\<close>

theorem valid_ip_port:
  "(validIPPort addr \<longleftrightarrow> (\<exists>ip port n. SplitHostPort addr = Some (ip, port) \<and> ParseIP ip \<noteq> None
      \<and> ParseUint port 16 = Some n \<and> 1 \<le> n \<and> n \<le> 65535))
   \<and> (length b = 4 \<and> 1 \<le> n \<and> n \<le> 65535 \<longrightarrow> validIPPort (show_ipv4 b @ '':'' @ show_nat n))"
proof -
  have ne: "SplitHostPort addr = Some (ip, port) \<Longrightarrow> ParseIP ip \<noteq> None \<Longrightarrow> ParseUint port 16 = Some n \<Longrightarrow>
      ip \<noteq> '''' \<and> port \<noteq> ''''" for addr ip port n
    by (auto simp: ParseIP_def ParseUint_def split: if_splits)
  have iff: "validIPPort addr \<longleftrightarrow> (\<exists>ip port n. SplitHostPort addr = Some (ip, port) \<and> ParseIP ip \<noteq> None
      \<and> ParseUint port 16 = Some n \<and> 1 \<le> n \<and> n \<le> 65535)" for addr
  proof -
    have le: "ParseUint port 16 = Some n \<Longrightarrow> n \<le> 65535" for port n
      using ParseUint_bound [of port 16 n] by simp
    show ?thesis
      using ne [of addr] by (auto simp: validIPPort_def Suc_le_eq dest: le split: option.splits prod.splits)
  qed
  have quad: "validIPPort (show_ipv4 b @ '':'' @ show_nat n)" if "length b = 4" "1 \<le> n" "n \<le> 65535"
  proof -
    have ip: "ParseIP (show_ipv4 b) = Some (v4_in_v6_prefix @ b)" by (rule ParseIP_show_ipv4) (rule that)
    then have "show_ipv4 b \<noteq> []" by (auto simp: ParseIP_def)
    moreover have "c \<notin> set (show_ipv4 b)" if "\<not> is_digit c" "c \<noteq> CHR ''.''" for c
      using show_ipv4_chars that by blast
    moreover have "\<not> is_digit CHR '':''" "\<not> is_digit CHR ''[''" "\<not> is_digit CHR '']''" by (simp_all add: is_digit_def)
    ultimately have "SplitHostPort (show_ipv4 b @ '':'' @ show_nat n) = Some (show_ipv4 b, show_nat n)"
      by (intro SplitHostPort_plain) (simp_all add: show_nat_no_char)
    moreover have "ParseUint (show_nat n) 16 = Some n" by (rule ParseUint_show_nat) (use that in simp)
    ultimately show ?thesis using ip that unfolding iff by auto
  qed
  show ?thesis using iff quad by blast
qed

theorem valid_ip_port_witness:
  "validIPPort (show_ipv4 [192, 0, 2, 1] @ '':'' @ show_nat 53)"
  using valid_ip_port [of "''''" "[192, 0, 2, 1]" 53] by simp

section \<open>A library in memory\<close>

text \<open>
  A store that holds the fields it was given, an environment of two variables (the zone
  directory and the servers), and a validator that evaluates the tags.
\<close>

record mem_env =
  me_zones :: string
  me_servers :: string

definition mem_LoadStruct :: "app_config \<Rightarrow> app_config option \<Rightarrow> app_config option outcome" where
  "mem_LoadStruct c k = Ret (Some c)"

definition mem_servers :: "env_value \<Rightarrow> app_config \<Rightarrow> app_config" where
  "mem_servers v c = (case v of
       EnvParts ss \<Rightarrow> c\<lparr>cfg_Servers := Some ss\<rparr>
     | EnvString s \<Rightarrow> if s = '''' then c else c\<lparr>cfg_Servers := Some [s]\<rparr>)"

definition mem_zones :: "env_value \<Rightarrow> app_config \<Rightarrow> app_config" where
  "mem_zones v c = (case v of EnvString s \<Rightarrow> if s = '''' then c else c\<lparr>cfg_ZoneDir := s\<rparr> | _ \<Rightarrow> c)"

definition mem_LoadEnv ::
    "mem_env \<Rightarrow> string \<Rightarrow> (string \<Rightarrow> string \<Rightarrow> string \<times> env_value) \<Rightarrow> app_config option \<Rightarrow> app_config option outcome" where
  "mem_LoadEnv E pre f k = Ret (map_option (\<lambda>c.
     mem_servers (snd (f ''DNS_SERVERS'' (me_servers E))) (mem_zones (snd (f ''DNS_ZONE_DIR'' (me_zones E))) c)) k)"

definition mem_Unmarshal :: "app_config option \<Rightarrow> app_config outcome" where
  "mem_Unmarshal k = (case k of None \<Rightarrow> Err (Errorf ''empty'') | Some c \<Rightarrow> Ret c)"

definition mem_Register :: "string \<Rightarrow> (string \<Rightarrow> bool) \<Rightarrow> (string \<Rightarrow> bool) option \<Rightarrow> (string \<Rightarrow> bool) option outcome" where
  "mem_Register tag f v = Ret (Some f)"

definition mem_Struct :: "(string \<Rightarrow> bool) option \<Rightarrow> app_config \<Rightarrow> error option" where
  "mem_Struct v c = (case v of
       Some f \<Rightarrow> if tags_ok f c then None else Some (Errorf ''invalid field'')
     | None \<Rightarrow> Some (Errorf ''undefined validation''))"

definition mem_config :: "mem_env \<Rightarrow> (app_config option, (string \<Rightarrow> bool) option) config_lib" where
  "mem_config E = \<lparr>cl_New = None, cl_LoadStruct = mem_LoadStruct, cl_LoadEnv = mem_LoadEnv E,
     cl_Unmarshal = mem_Unmarshal, cl_Validator = None, cl_Register = mem_Register, cl_Struct = mem_Struct\<rparr>"

interpretation mem_lib: config_library "mem_config E" for E
  by unfold_locales (auto simp: mem_config_def mem_Register_def mem_Struct_def mem_LoadStruct_def mem_Unmarshal_def
      mem_LoadEnv_def split: if_splits option.splits)

section \<open>Properties\<close>

text \<open>
  C36. A configuration that loads is in range: a cache of at least one entry, a known
  environment and log level, a port from 1 to 65534, a zone directory, a recursion limit of
  at least 1, and servers each of which is an IP address with a port. The defaults load when
  the environment adds nothing.
\<close>

theorem load_config:
  assumes "config_library L"
  shows "(\<forall>cfg. config_Load X L = Ret cfg \<longrightarrow>
      1 \<le> cfg_CacheSize cfg \<and> cfg_Env cfg \<in> {''dev'', ''prod''}
      \<and> cfg_LogLevel cfg \<in> {''debug'', ''info'', ''warn'', ''error''}
      \<and> 1 \<le> cfg_Port cfg \<and> cfg_Port cfg \<le> 65534 \<and> cfg_ZoneDir cfg \<noteq> '''' \<and> 1 \<le> cfg_MaxRecursion cfg
      \<and> (\<exists>servers. cfg_Servers cfg = Some servers \<and> (\<forall>s \<in> set servers. validIPPort s)))
    \<and> (\<forall>k. defaultLoader L (cl_New L) = Ret k \<and> envLoader X L k = Ret k \<longrightarrow> config_Load X L = Ret DEFAULT_APP_CONFIG)"
proof (intro conjI allI impI)
  fix cfg
  assume "config_Load X L = Ret cfg"
  then have t: "tags_ok validIPPort cfg" by (rule config_library.Load_tags [OF assms])
  from t show "1 \<le> cfg_CacheSize cfg" "cfg_Env cfg \<in> {''dev'', ''prod''}"
    "cfg_LogLevel cfg \<in> {''debug'', ''info'', ''warn'', ''error''}" "1 \<le> cfg_Port cfg" "cfg_Port cfg \<le> 65534"
    "cfg_ZoneDir cfg \<noteq> ''''" "1 \<le> cfg_MaxRecursion cfg"
    unfolding tags_ok_def by simp_all
  from t show "\<exists>servers. cfg_Servers cfg = Some servers \<and> (\<forall>s \<in> set servers. validIPPort s)"
    by (auto simp: tags_ok_def list_all_iff split: option.splits)
next
  fix k
  assume "defaultLoader L (cl_New L) = Ret k \<and> envLoader X L k = Ret k"
  then show "config_Load X L = Ret DEFAULT_APP_CONFIG"
    using config_library.Load_default [OF assms _ _ default_tags, of k X] by (simp add: defaultLoader_def)
qed

theorem load_config_witness:
  "\<exists>cfg. config_Load sample_extern (mem_config \<lparr>me_zones = '' zones '', me_servers = ''192.0.2.1:53, 192.0.2.2:53''\<rparr>) = Ret cfg
     \<and> cfg_Servers cfg = Some [''192.0.2.1:53'', ''192.0.2.2:53''] \<and> cfg_ZoneDir cfg = ''zones''
     \<and> 1 \<le> cfg_MaxRecursion cfg \<and> (\<forall>s \<in> {''192.0.2.1:53'', ''192.0.2.2:53''}. validIPPort s)"
proof -
  let ?E = "\<lparr>me_zones = '' zones '', me_servers = ''192.0.2.1:53, 192.0.2.2:53''\<rparr>"
  let ?cfg = "DEFAULT_APP_CONFIG\<lparr>cfg_Servers := Some [''192.0.2.1:53'', ''192.0.2.2:53''], cfg_ZoneDir := ''zones''\<rparr>"
  have e: "config_Load sample_extern (mem_config ?E) = Ret ?cfg" by code_simp
  from load_config [OF mem_lib.config_library_axioms, of sample_extern ?E] e show ?thesis by auto
qed

end
