(* ===== verification/Logging.thy ===== *)
theory Logging
  imports Utils
begin

text \<open>
  \<open>internal/dns/common/log/log.go\<close>: the global logger and the facade over zap. zap is code
  outside the repository: the fields of a record, with what its documentation says about
  levels, building a logger and writing as the locale \<open>zap_library\<close>. \<open>'v\<close> is the type of
  the values of the fields, \<open>'w\<close> the output written so far. The rest of the development
  leaves the calls that log out, for no part of the program reads the output.
\<close>

section \<open>The logger interface\<close>

text \<open>How a call that logs ends: it returns, panics (as \<open>Panic\<close> does), or exits with a status.\<close>

datatype log_end = Logged | LogPanics | Exits nat

type_synonym ('v, 'w) log_method = "(string \<times> 'v) list \<Rightarrow> string \<Rightarrow> 'w \<Rightarrow> 'w \<times> log_end"

record ('v, 'w) logger =
  lg_Info :: "('v, 'w) log_method"
  lg_Error :: "('v, 'w) log_method"
  lg_Debug :: "('v, 'w) log_method"
  lg_Warn :: "('v, 'w) log_method"
  lg_Panic :: "('v, 'w) log_method"
  lg_Fatal :: "('v, 'w) log_method"

section \<open>zap\<close>

text \<open>What the code sets of a \<open>zap.Config\<close>, and the preset it started from\<close>

record 'l zap_config =
  zc_Development :: bool
  zc_Level :: 'l
  zc_EncodeLevel :: string
  zc_TimeKey :: string
  zc_MessageKey :: string
  zc_LevelKey :: string

datatype severity = SevDebug | SevInfo | SevWarn | SevError | SevPanic | SevFatal

record ('l, 'z, 'f, 'v, 'w) zap_lib =
  zl_InfoLevel :: 'l
  zl_ParseLevel :: "string \<Rightarrow> 'l outcome"
  zl_DevelopmentConfig :: "'l zap_config"
  zl_ProductionConfig :: "'l zap_config"
  zl_Build :: "'l zap_config \<Rightarrow> 'z outcome"
  zl_Any :: "string \<Rightarrow> 'v \<Rightarrow> 'f"
  zl_With :: "'z \<Rightarrow> 'f list \<Rightarrow> 'z"
  zl_Write :: "severity \<Rightarrow> 'z \<Rightarrow> string \<Rightarrow> 'w \<Rightarrow> 'w \<times> log_end"

text \<open>A map of fields is the list of its entries in the order of the \<open>range\<close>.\<close>

definition zapFields :: "('l, 'z, 'f, 'v, 'w) zap_lib \<Rightarrow> (string \<times> 'v) list \<Rightarrow> 'f list" where
  "zapFields Z m = map (\<lambda>(k, v). zl_Any Z k v) m"

text \<open>The methods of \<open>zapLogger\<close>, whose \<open>base\<close> is nil when \<open>Build\<close> failed\<close>

definition zap_write :: "('l, 'z, 'f, 'v, 'w) zap_lib \<Rightarrow> severity \<Rightarrow> 'z option \<Rightarrow> ('v, 'w) log_method" where
  "zap_write Z sev base fs msg w =
     (case base of
        None \<Rightarrow> (w, LogPanics)
      | Some z \<Rightarrow> zl_Write Z sev (zl_With Z z (zapFields Z fs)) msg w)"

definition zapLogger :: "('l, 'z, 'f, 'v, 'w) zap_lib \<Rightarrow> 'z option \<Rightarrow> ('v, 'w) logger" where
  "zapLogger Z base =
     \<lparr>lg_Info = zap_write Z SevInfo base, lg_Error = zap_write Z SevError base,
      lg_Debug = zap_write Z SevDebug base, lg_Warn = zap_write Z SevWarn base,
      lg_Panic = zap_write Z SevPanic base, lg_Fatal = zap_write Z SevFatal base\<rparr>"

definition zap_settings :: "('l, 'z, 'f, 'v, 'w) zap_lib \<Rightarrow> bool \<Rightarrow> 'l \<Rightarrow> 'l zap_config" where
  "zap_settings Z dev level =
     (let config = (if dev then (zl_DevelopmentConfig Z)\<lparr>zc_EncodeLevel := ''CapitalColorLevelEncoder''\<rparr>
            else zl_ProductionConfig Z)
      in config\<lparr>zc_Level := level, zc_TimeKey := ''time'', zc_MessageKey := ''msg'', zc_LevelKey := ''level''\<rparr>)"

definition newZapLogger :: "('l, 'z, 'f, 'v, 'w) zap_lib \<Rightarrow> bool \<Rightarrow> 'l \<Rightarrow> ('v, 'w) logger" where
  "newZapLogger Z dev level =
     zapLogger Z (case zl_Build Z (zap_settings Z dev level) of Ret z \<Rightarrow> Some z | _ \<Rightarrow> None)"

section \<open>The no-op logger\<close>

definition noop_log :: "('v, 'w) log_method" where
  "noop_log fs msg w = (w, Logged)"

definition NewNoopLogger :: "('v, 'w) logger" where
  "NewNoopLogger = \<lparr>lg_Info = noop_log, lg_Error = noop_log, lg_Debug = noop_log, lg_Warn = noop_log,
     lg_Panic = noop_log, lg_Fatal = noop_log\<rparr>"

section \<open>The global logger\<close>

text \<open>The variable \<open>global\<close> is the state of the package.\<close>

definition global_init :: "('l, 'z, 'f, 'v, 'w) zap_lib \<Rightarrow> ('v, 'w) logger" where
  "global_init Z = newZapLogger Z False (zl_InfoLevel Z)"

definition SetLogger :: "('v, 'w) logger \<Rightarrow> ('v, 'w) logger \<Rightarrow> ('v, 'w) logger" where
  "SetLogger g l = l"

definition GetLogger :: "('v, 'w) logger \<Rightarrow> ('v, 'w) logger" where
  "GetLogger g = g"

definition Configure ::
    "extern \<Rightarrow> ('l, 'z, 'f, 'v, 'w) zap_lib \<Rightarrow> ('v, 'w) logger \<Rightarrow> string \<Rightarrow> string \<Rightarrow> ('v, 'w) logger \<times> unit outcome" where
  "Configure X Z g env level =
     (let isDev = (env \<noteq> ''prod'')
      in (case zl_ParseLevel Z (ToLower (ext_lower X) level) of
            Err e \<Rightarrow> (g, Err (Wrapf ''invalid log level: %w'' e))
          | Panic p \<Rightarrow> (g, Panic p)
          | Ret lvl \<Rightarrow> (newZapLogger Z isDev lvl, Ret ())))"

definition log_Info :: "('v, 'w) logger \<Rightarrow> ('v, 'w) log_method" where
  "log_Info g fs msg w = lg_Info g fs msg w"

definition log_Error :: "('v, 'w) logger \<Rightarrow> ('v, 'w) log_method" where
  "log_Error g fs msg w = lg_Error g fs msg w"

definition log_Debug :: "('v, 'w) logger \<Rightarrow> ('v, 'w) log_method" where
  "log_Debug g fs msg w = lg_Debug g fs msg w"

definition log_Warn :: "('v, 'w) logger \<Rightarrow> ('v, 'w) log_method" where
  "log_Warn g fs msg w = lg_Warn g fs msg w"

definition log_Panic :: "('v, 'w) logger \<Rightarrow> ('v, 'w) log_method" where
  "log_Panic g fs msg w = lg_Panic g fs msg w"

definition log_Fatal :: "('v, 'w) logger \<Rightarrow> ('v, 'w) log_method" where
  "log_Fatal g fs msg w = lg_Fatal g fs msg w"

text \<open>A logger that returns from every call but \<open>Panic\<close> and \<open>Fatal\<close>\<close>

definition sound_logger :: "('v, 'w) logger \<Rightarrow> bool" where
  "sound_logger g \<longleftrightarrow> (\<forall>fs msg w.
     snd (log_Debug g fs msg w) = Logged \<and> snd (log_Info g fs msg w) = Logged
     \<and> snd (log_Warn g fs msg w) = Logged \<and> snd (log_Error g fs msg w) = Logged
     \<and> snd (log_Panic g fs msg w) = LogPanics \<and> snd (log_Fatal g fs msg w) = Exits 1)"

section \<open>zap's contract\<close>

text \<open>
  The names of the levels of the configuration are levels of zap; a logger can be built from
  the presets with the keys the code sets; a write returns except that \<open>Panic\<close> panics and
  \<open>Fatal\<close> exits with status 1.
\<close>

locale zap_library =
  fixes Z :: "('l, 'z, 'f, 'v, 'w) zap_lib"
  assumes levels: "s \<in> {''debug'', ''info'', ''warn'', ''error''} \<Longrightarrow> is_ret (zl_ParseLevel Z s)"
    and parses: "\<not> panics (zl_ParseLevel Z s)"
    and builds: "is_ret (zl_Build Z (zap_settings Z dev lvl))"
    and writes: "snd (zl_Write Z sev z msg w) =
      (if sev = SevPanic then LogPanics else if sev = SevFatal then Exits 1 else Logged)"
begin

lemma new_sound: "sound_logger (newZapLogger Z dev lvl)"
proof -
  obtain z where z: "zl_Build Z (zap_settings Z dev lvl) = Ret z"
    using builds [of dev lvl] by (cases "zl_Build Z (zap_settings Z dev lvl)") auto
  show ?thesis
    by (simp add: sound_logger_def newZapLogger_def z zapLogger_def zap_write_def writes log_Debug_def log_Info_def
        log_Warn_def log_Error_def log_Panic_def log_Fatal_def)
qed

lemma level_lower: "s \<in> {''debug'', ''info'', ''warn'', ''error''} \<Longrightarrow> ToLower f s = s"
  by (elim insertE emptyE) (simp_all add: ToLower_def is_ascii_def ascii_lower_def)

lemma Configure_level:
  assumes "level \<in> {''debug'', ''info'', ''warn'', ''error''}"
  obtains lvl where "Configure X Z g env level = (newZapLogger Z (env \<noteq> ''prod'') lvl, Ret ())"
    and "zl_ParseLevel Z level = Ret lvl"
proof -
  obtain lvl where l: "zl_ParseLevel Z level = Ret lvl"
    using levels [OF assms] by (cases "zl_ParseLevel Z level") auto
  then have "Configure X Z g env level = (newZapLogger Z (env \<noteq> ''prod'') lvl, Ret ())"
    by (simp add: Configure_def level_lower [OF assms])
  then show ?thesis using l by (rule that)
qed

lemma Configure_keeps:
  "sound_logger g \<Longrightarrow> sound_logger (fst (Configure X Z g env level)) \<and> \<not> panics (snd (Configure X Z g env level))"
  using parses [of "ToLower (ext_lower X) level"]
  by (cases "zl_ParseLevel Z (ToLower (ext_lower X) level)") (auto simp: Configure_def new_sound)

end

section \<open>A zap in memory\<close>

text \<open>
  A level is the least severity written, severities are ordered; a logger is its level and its fields, and the output
  the list of the messages written at that level or above.
\<close>

fun severity_rank :: "severity \<Rightarrow> nat" where
  "severity_rank SevDebug = 0"
| "severity_rank SevInfo = 1"
| "severity_rank SevWarn = 2"
| "severity_rank SevError = 3"
| "severity_rank SevPanic = 4"
| "severity_rank SevFatal = 5"

instantiation severity :: linorder
begin

definition less_eq_severity :: "severity \<Rightarrow> severity \<Rightarrow> bool" where
  "less_eq_severity s t \<longleftrightarrow> severity_rank s \<le> severity_rank t"

definition less_severity :: "severity \<Rightarrow> severity \<Rightarrow> bool" where
  "less_severity s t \<longleftrightarrow> severity_rank s < severity_rank t"

instance
proof
  fix s t :: severity
  assume "s \<le> t" and "t \<le> s"
  then have "severity_rank s = severity_rank t" by (simp add: less_eq_severity_def)
  then show "s = t" by (cases s; cases t) simp_all
qed (auto simp: less_eq_severity_def less_severity_def)

end

definition mem_ParseLevel :: "string \<Rightarrow> severity outcome" where
  "mem_ParseLevel s =
     (case map_of [(''debug'', SevDebug), (''info'', SevInfo), (''warn'', SevWarn), (''error'', SevError),
         (''panic'', SevPanic), (''fatal'', SevFatal)] s of
        Some n \<Rightarrow> Ret n
      | None \<Rightarrow> Err (Errorf ''unrecognized level: %q''))"

type_synonym mem_logger = "severity \<times> (string \<times> string) list"

definition mem_log :: "severity \<Rightarrow> mem_logger \<Rightarrow> string \<Rightarrow> string list \<Rightarrow> string list \<times> log_end" where
  "mem_log sev z msg w =
     (if fst z \<le> sev then w @ [msg] else w,
      if sev = SevPanic then LogPanics else if sev = SevFatal then Exits 1 else Logged)"

definition mem_preset :: "bool \<Rightarrow> severity zap_config" where
  "mem_preset dev = \<lparr>zc_Development = dev, zc_Level = (if dev then SevDebug else SevInfo), zc_EncodeLevel = ''LowercaseLevelEncoder'',
     zc_TimeKey = ''ts'', zc_MessageKey = ''M'', zc_LevelKey = ''L''\<rparr>"

definition mem_zap :: "(severity, mem_logger, string \<times> string, string, string list) zap_lib" where
  "mem_zap = \<lparr>zl_InfoLevel = SevInfo, zl_ParseLevel = mem_ParseLevel, zl_DevelopmentConfig = mem_preset True,
     zl_ProductionConfig = mem_preset False, zl_Build = (\<lambda>c. Ret (zc_Level c, [])), zl_Any = Pair,
     zl_With = (\<lambda>z fs. (fst z, snd z @ fs)), zl_Write = mem_log\<rparr>"

interpretation mem_zap: zap_library mem_zap
  by unfold_locales
    (auto simp: mem_zap_def mem_ParseLevel_def mem_log_def split: option.splits if_splits)

text \<open>
  Configuring the logger: for a level the configuration accepts it succeeds whatever the
  logger was, and the new global logger returns from every call but \<open>Panic\<close> and \<open>Fatal\<close>, which
  panic and exit with status 1; for a level zap does not know it fails and the logger stays.
\<close>

theorem logger_configured:
  assumes "zap_library Z"
  shows "(level \<in> {''debug'', ''info'', ''warn'', ''error''} \<longrightarrow>
      (\<exists>g'. Configure X Z g env level = (g', Ret ()) \<and> sound_logger g'))
    \<and> (\<not> is_ret (zl_ParseLevel Z (ToLower (ext_lower X) level)) \<longrightarrow>
        fst (Configure X Z g env level) = g \<and> \<not> is_ret (snd (Configure X Z g env level)))
    \<and> sound_logger (global_init Z)"
proof (intro conjI impI)
  assume "level \<in> {''debug'', ''info'', ''warn'', ''error''}"
  then show "\<exists>g'. Configure X Z g env level = (g', Ret ()) \<and> sound_logger g'"
    using zap_library.Configure_level [OF assms, of level X g env] zap_library.new_sound [OF assms] by metis
next
  assume "\<not> is_ret (zl_ParseLevel Z (ToLower (ext_lower X) level))"
  then show "fst (Configure X Z g env level) = g" "\<not> is_ret (snd (Configure X Z g env level))"
    by (cases "zl_ParseLevel Z (ToLower (ext_lower X) level)"; simp add: Configure_def)+
next
  show "sound_logger (global_init Z)"
    unfolding global_init_def by (rule zap_library.new_sound [OF assms])
qed

theorem logger_configured_witness:
  "\<exists>g. Configure sample_extern mem_zap (global_init mem_zap) ''dev'' ''warn'' = (g, Ret ()) \<and> sound_logger g
     \<and> log_Info g [] ''up'' [] = ([], Logged) \<and> log_Error g [(''k'', ''v'')] ''down'' [] = ([''down''], Logged)"
proof -
  let ?c = "Configure sample_extern mem_zap (global_init mem_zap) ''dev'' ''warn''"
  have "log_Info (fst ?c) [] ''up'' [] = ([], Logged)" "log_Error (fst ?c) [(''k'', ''v'')] ''down'' [] = ([''down''], Logged)"
    by code_simp+
  with logger_configured [OF mem_zap.zap_library_axioms, of "''warn''" sample_extern "global_init mem_zap" "''dev''"]
  show ?thesis by auto
qed

end
