(* ===== verification/App.thy ===== *)
theory App
  imports ResolverProps ZoneFile Fanout TransportProps Config Logging
begin

text \<open>
  \<open>cmd/rr-dnsd/main.go\<close> and the two smallest parts it wires, \<open>internal/dns/repos/blocklist\<close>
  and \<open>internal/dns/common/clock\<close>: the components of the server built from a configuration,
  and its run. The file system (the walk of the zone directory and the parser of its files),
  the network, the LRU cache, zap and the clock readings are arguments, as they are in the
  components.
\<close>

section \<open>Block list and clock\<close>

definition Noop_IsBlocked :: block_list where
  "Noop_IsBlocked q = False"

text \<open>\<open>RealClock\<close> has no state: \<open>reading\<close> is what \<open>time.Now()\<close> returns.\<close>

definition RealClock_Now :: "time \<Rightarrow> time" where
  "RealClock_Now reading = reading"

record mockClock =
  mc_CurrentTime :: time

definition MockClock_Now :: "mockClock \<Rightarrow> time" where
  "MockClock_Now c = mc_CurrentTime c"

definition MockClock_Advance :: "mockClock \<Rightarrow> duration \<Rightarrow> mockClock" where
  "MockClock_Advance c d = c\<lparr>mc_CurrentTime := time_Add (mc_CurrentTime c) d\<rparr>"

section \<open>Repositories\<close>

record 'c repositories =
  rp_blocklist :: block_list
  rp_upstreamCache :: "'c dnsCache option"
  rp_zoneCache :: zoneCache

definition max_int :: nat where
  "max_int = 2 ^ 63 - 1"

text \<open>The loop over the zones of the directory, a map, in the order of the \<open>range\<close>\<close>

definition put_zones :: "extern \<Rightarrow> zoneCache \<Rightarrow> zone_map \<Rightarrow> zoneCache" where
  "put_zones X zoneCache zones = foldl (\<lambda>zc (zoneRoot, records). PutZone X zc zoneRoot records) zoneCache zones"

definition buildRepositories ::
    "extern \<Rightarrow> 'c lru \<Rightarrow> (string \<Rightarrow> zone_doc outcome) \<Rightarrow> (string \<Rightarrow> walk_entry list) \<Rightarrow> app_config \<Rightarrow>
     'c repositories outcome" where
  "buildRepositories X L Load walk cfg =
     obind
       (if cfg_DisableCache cfg then Ret None
        else
          let cacheSize = cfg_CacheSize cfg
          in if max_int < unat cacheSize then Err (Errorf ''cache size too large: %d (max %d)'')
             else obind (map_err (Wrapf ''failed to create upstream cache: %w'') (dnscache_New L (uint cacheSize)))
               (\<lambda>c. Ret (Some c)))
       (\<lambda>upstreamCache.
          obind (map_err (Wrapf ''failed to load zone directory: %w'')
              (LoadZoneDirectory X Load (walk (cfg_ZoneDir cfg)) (300 * Second)))
            (\<lambda>zones. Ret \<lparr>rp_blocklist = Noop_IsBlocked, rp_upstreamCache = upstreamCache,
                rp_zoneCache = put_zones X zonecache_New zones\<rparr>))"

section \<open>Gateways\<close>

definition defaultUpstreamTimeout :: duration where
  "defaultUpstreamTimeout = 5 * Second"

record ('n, 'k) gateways =
  gw_upstream :: "('n, 'k) us_resolver"

definition buildGateways ::
    "('n, 'k) dial_func \<Rightarrow> app_config \<Rightarrow> dns_codec \<Rightarrow> ('n, 'k) gateways outcome" where
  "buildGateways dialer cfg codec =
     obind (map_err (Wrapf ''failed to create upstream client: %w'')
         (upstream_NewResolver dialer
            \<lparr>so_Servers = (case cfg_Servers cfg of None \<Rightarrow> [] | Some servers \<Rightarrow> servers),
             so_Timeout = defaultUpstreamTimeout, so_Parallel = False, so_Codec = Some codec, so_Dial = None\<rparr>))
       (\<lambda>upstreamClient. Ret \<lparr>gw_upstream = upstreamClient\<rparr>)"

section \<open>The application\<close>

text \<open>
  What the upstream client of the application uses beyond its own fields: the network, the
  schedule of a parallel resolution, the context of the run (which has no deadline) and the
  time of a call.
\<close>

record ('n, 'k) client_env =
  ce_net :: "('n, 'k) net_ops"
  ce_par :: "deadline_ctx \<Rightarrow> question \<Rightarrow> time \<Rightarrow> 'n \<Rightarrow> 'n \<times> resource_record list outcome"
  ce_wall :: "'n \<Rightarrow> time"

definition run_ctx :: deadline_ctx where
  "run_ctx = \<lparr>ctx_Deadline = None\<rparr>"

definition app_client :: "('n, 'k) client_env \<Rightarrow> ('n, 'k) us_resolver \<Rightarrow> 'n upstream_client" where
  "app_client E u n query now = upstream_Resolve (ce_par E) (ce_net E) u (ce_wall E n) run_ctx n query now"

record ('n, 'c, 's) application =
  ap_config :: app_config
  ap_transport :: "'s udp_transport"
  ap_resolver :: "('n, 'c dnsCache) resolver"
  ap_cache :: "'c dnsCache option"

definition show_int :: "int \<Rightarrow> string" where
  "show_int i = (if i < 0 then CHR ''-'' # show_nat (nat (- i)) else show_nat (nat i))"

definition buildApplication ::
    "extern \<Rightarrow> 'c lru \<Rightarrow> (string \<Rightarrow> zone_doc outcome) \<Rightarrow> (string \<Rightarrow> walk_entry list) \<Rightarrow>
     ('n, 'k) dial_func \<Rightarrow> ('n, 'k) client_env \<Rightarrow> app_config \<Rightarrow> ('n, 'c, 's) application outcome" where
  "buildApplication X L Load walk dialer E cfg =
     (let codec = NewUDPCodec X
      in obind (map_err (Wrapf ''failed to build repositories: %w'') (buildRepositories X L Load walk cfg))
           (\<lambda>repos. obind (map_err (Wrapf ''failed to build gateways: %w'') (buildGateways dialer cfg codec))
           (\<lambda>gateways.
              let resolverService = NewResolver (Some (rp_blocklist repos))
                    (Some (app_client E (gw_upstream gateways)))
                    (map_option (\<lambda>_. dnscache_ops X L) (rp_upstreamCache repos))
                    (Some (FindRecords X (rp_zoneCache repos))) (cfg_MaxRecursion cfg) None;
                  addr = '':'' @ show_int (cfg_Port cfg);
                  udpTransport = NewUDPTransport addr codec
              in Ret \<lparr>ap_config = cfg, ap_transport = udpTransport, ap_resolver = resolverService,
                      ap_cache = rp_upstreamCache repos\<rparr>)))"

text \<open>
  The resolver as the service behind the transport: its state is that of the upstream
  network and of the cache, and \<open>rds\<close> gives the clock readings of a query.
\<close>

definition app_responder ::
    "extern \<Rightarrow> ('n, 'c dnsCache) resolver \<Rightarrow> (question \<Rightarrow> readings) \<Rightarrow> ('n \<times> 'c dnsCache) dns_responder" where
  "app_responder X r rds s query =
     (case fatal (HandleQuery X r (rds query) s query) of
        Ret (s, resp) \<Rightarrow> (s, Ret resp)
      | Err e \<Rightarrow> (s, Err e)
      | Panic p \<Rightarrow> (s, Panic p))"

text \<open>
  The service of a whole run: its state also counts the queries it has handled, and \<open>rds k\<close>
  gives the clock readings of the \<open>k\<close>-th one.
\<close>

definition app_service ::
    "extern \<Rightarrow> ('n, 'c dnsCache) resolver \<Rightarrow> (nat \<Rightarrow> readings) \<Rightarrow> (('n \<times> 'c dnsCache) \<times> nat) dns_responder" where
  "app_service X r rds st query =
     (let (s, k) = st; (s, out) = app_responder X r (\<lambda>_. rds k) s query in ((s, Suc k), out))"

section \<open>The run\<close>

text \<open>
  \<open>Run\<close> blocks until the context is cancelled; \<open>meanwhile\<close> is what the goroutines did to
  the network until then, and \<open>late\<close> whether the last \<open>select\<close> takes the timeout.
\<close>

definition app_Run ::
    "('n, 'a, 's) udp_sockets \<Rightarrow> ('n \<Rightarrow> 'n) \<Rightarrow> bool \<Rightarrow> 's udp_transport \<Rightarrow> 'n \<Rightarrow> 's udp_transport \<times> 'n \<times> unit outcome" where
  "app_Run S meanwhile late t n =
     (case udp_Start S t n of
        (t, n, Err e) \<Rightarrow> (t, n, Err (Wrapf ''failed to start UDP transport: %w'' e))
      | (t, n, Panic p) \<Rightarrow> (t, n, Panic p)
      | (t, n, Ret _) \<Rightarrow>
          (case udp_Stop S t (meanwhile n) of
             (t, n, Panic p) \<Rightarrow> (t, n, Panic p)
           | (t, n, _) \<Rightarrow> (t, n, if late then Err (Errorf ''shutdown timeout'') else Ret ())))"

text \<open>
  \<open>main\<close>: the exit status of the process, where \<open>g\<close> is the global logger before the call.
  \<open>log.Fatal\<close> exits with status 1; the other calls of the logger are left out.
\<close>

definition main ::
    "extern \<Rightarrow> ('cf, 'v) config_lib \<Rightarrow> ('l, 'z, 'f, 'x, 'w) zap_lib \<Rightarrow> ('x, 'w) logger \<Rightarrow>
     'c lru \<Rightarrow> (string \<Rightarrow> zone_doc outcome) \<Rightarrow> (string \<Rightarrow> walk_entry list) \<Rightarrow>
     ('n, 'k) dial_func \<Rightarrow> ('n, 'k) client_env \<Rightarrow>
     ('m, 'a, 's) udp_sockets \<Rightarrow> ('m \<Rightarrow> 'm) \<Rightarrow> bool \<Rightarrow> 'm \<Rightarrow> nat outcome" where
  "main X lib Z g L Load walk dialer E S meanwhile late m =
     (case config_Load X lib of
        Err e \<Rightarrow> Ret 1
      | Panic p \<Rightarrow> Panic p
      | Ret cfg \<Rightarrow>
          (case Configure X Z g (cfg_Env cfg) (cfg_LogLevel cfg) of
             (_, Err e) \<Rightarrow> Ret 1
           | (_, Panic p) \<Rightarrow> Panic p
           | (_, Ret _) \<Rightarrow>
               (case buildApplication X L Load walk dialer E cfg of
                  Err e \<Rightarrow> Ret 1
                | Panic p \<Rightarrow> Panic p
                | Ret app \<Rightarrow>
                    (case app_Run S meanwhile late (ap_transport app) m of
                       (_, _, Err e) \<Rightarrow> Ret 1
                     | (_, _, Panic p) \<Rightarrow> Panic p
                     | (_, _, Ret _) \<Rightarrow> Ret 0))))"

section \<open>Facts about the built application\<close>

lemma put_zones_run:
  "put_zones X zonecache_New zones = zone_run X (map (\<lambda>(z, rs). OpPut z rs) zones)"
proof -
  have "put_zones X zc zones = foldl (zone_step X) zc (map (\<lambda>(z, rs). OpPut z rs) zones)" for zc
    by (induction zones arbitrary: zc) (auto simp: put_zones_def)
  then show ?thesis by (simp add: zone_run_def)
qed

lemma buildRepositories_Ret:
  "buildRepositories X L Load walk cfg = Ret repos \<longleftrightarrow>
     (\<exists>cache zones. (if cfg_DisableCache cfg then cache = None
          else unat (cfg_CacheSize cfg) \<le> max_int
            \<and> (\<exists>c. dnscache_New L (uint (cfg_CacheSize cfg)) = Ret c \<and> cache = Some c))
        \<and> LoadZoneDirectory X Load (walk (cfg_ZoneDir cfg)) (300 * Second) = Ret zones
        \<and> repos = \<lparr>rp_blocklist = Noop_IsBlocked, rp_upstreamCache = cache,
              rp_zoneCache = put_zones X zonecache_New zones\<rparr>)"
  by (auto simp: buildRepositories_def obind_eq_Ret Let_def)

lemma buildGateways_Ret:
  "buildGateways dialer cfg codec = Ret g \<longleftrightarrow>
     (\<exists>server servers. cfg_Servers cfg = Some (server # servers)
        \<and> g = \<lparr>gw_upstream = \<lparr>us_servers = server # servers, us_timeout = defaultUpstreamTimeout, us_codec = codec,
              us_parallel = False, us_dial = dialer\<rparr>\<rparr>)"
proof -
  have t: "0 < defaultUpstreamTimeout" by (simp add: defaultUpstreamTimeout_def Second_def)
  show ?thesis
  proof (cases "cfg_Servers cfg")
    case None
    then show ?thesis by (simp add: buildGateways_def obind_eq_Ret NewResolver_Ret)
  next
    case (Some servers)
    then show ?thesis using t
      by (cases servers) (auto simp: buildGateways_def obind_eq_Ret NewResolver_Ret)
  qed
qed

lemma buildApplication_Ret:
  assumes "buildApplication X L Load walk dialer E cfg = Ret app"
  obtains zones u where "LoadZoneDirectory X Load (walk (cfg_ZoneDir cfg)) (300 * Second) = Ret zones"
    and "us_codec u = NewUDPCodec X" and "us_dial u = dialer" and "\<not> us_parallel u"
    and "ap_resolver app = NewResolver (Some Noop_IsBlocked) (Some (app_client E u))
        (if cfg_DisableCache cfg then None else Some (dnscache_ops X L))
        (Some (FindRecords X (put_zones X zonecache_New zones))) (cfg_MaxRecursion cfg) None"
    and "ap_transport app = NewUDPTransport ('':'' @ show_int (cfg_Port cfg)) (NewUDPCodec X)"
    and "ap_cache app = None \<longleftrightarrow> cfg_DisableCache cfg"
proof -
  obtain repos g where r: "buildRepositories X L Load walk cfg = Ret repos"
    and g: "buildGateways dialer cfg (NewUDPCodec X) = Ret g"
    and app: "app = \<lparr>ap_config = cfg,
      ap_transport = NewUDPTransport ('':'' @ show_int (cfg_Port cfg)) (NewUDPCodec X),
      ap_resolver = NewResolver (Some (rp_blocklist repos)) (Some (app_client E (gw_upstream g)))
        (map_option (\<lambda>_. dnscache_ops X L) (rp_upstreamCache repos))
        (Some (FindRecords X (rp_zoneCache repos))) (cfg_MaxRecursion cfg) None,
      ap_cache = rp_upstreamCache repos\<rparr>"
    using assms by (auto simp: buildApplication_def Let_def obind_eq_Ret)
  from r [unfolded buildRepositories_Ret] obtain cache zones
    where c: "if cfg_DisableCache cfg then cache = None else \<exists>c. cache = Some c"
      and z: "LoadZoneDirectory X Load (walk (cfg_ZoneDir cfg)) (300 * Second) = Ret zones"
      and repos: "repos = \<lparr>rp_blocklist = Noop_IsBlocked, rp_upstreamCache = cache,
              rp_zoneCache = put_zones X zonecache_New zones\<rparr>"
    by (metis (full_types))
  from g [unfolded buildGateways_Ret] have u: "us_codec (gw_upstream g) = NewUDPCodec X"
    "us_dial (gw_upstream g) = dialer" "\<not> us_parallel (gw_upstream g)"
    by auto
  show ?thesis
    by (rule that [OF z u]) (use app c repos in \<open>auto split: if_splits\<close>)
qed

lemma buildApplication_cache:
  assumes "buildApplication X L Load walk dialer E cfg = Ret app" and "ap_cache app = Some c"
  shows "dnscache_New L (uint (cfg_CacheSize cfg)) = Ret c \<and> \<not> cfg_DisableCache cfg"
proof -
  obtain repos where "buildRepositories X L Load walk cfg = Ret repos" "ap_cache app = rp_upstreamCache repos"
    using assms(1) by (auto simp: buildApplication_def Let_def obind_eq_Ret)
  then show ?thesis using assms(2) by (auto simp: buildRepositories_Ret split: if_splits)
qed

text \<open>What the zone cache of an application holds is valid.\<close>

lemma app_zone_valid:
  assumes "LoadZoneDirectory X Load entries ttl = Ret zones"
    and "FindRecords X (put_zones X zonecache_New zones) q = (rs, found)" and "rr \<in> set rs"
  shows "valid_rr rr"
proof -
  obtain root records where "OpPut root records \<in> set (map (\<lambda>(z, rs). OpPut z rs) zones)" "rr \<in> set records"
    using FindRecords_put [OF assms(2) [unfolded put_zones_run] assms(3)] by blast
  moreover have "\<forall>(z, rs) \<in> set zones. \<forall>rr \<in> set rs. valid_rr rr"
    using walk_files_valid [of X Load ttl entries "[]" zones] assms(1) by (simp add: LoadZoneDirectory_def)
  ultimately show ?thesis by auto
qed

section \<open>What a query can die of\<close>

lemma HandleQuery_panic:
  assumes "r_aliasResolver r = None" and "fatal (HandleQuery X r rd (u, c) q) = Panic p"
  shows "\<not> zone_has r q \<and> (\<exists>v. resolveUpstream r u q (rd_now rd) = (v, Panic p))"
proof (cases "zone_has r q")
  case True
  then have "\<exists>resp. HandleQuery X r rd (u, c) q = Some (Ret ((u, c), resp))"
    using assms(1) by (auto simp: zone_has_def HandleQuery_def resolveFromZone_def)
  then show ?thesis using assms(2) by auto
next
  case False
  then show ?thesis
    using assms(2) unfolding HandleQuery_no_zone [OF False]
    by (auto simp: Let_def split: if_splits prod.splits outcome.splits)
qed

text \<open>The resolver of the upstream client inside an application\<close>

definition app_upstream :: "('n, 'k) dial_func \<Rightarrow> app_config \<Rightarrow> dns_codec \<Rightarrow> ('n, 'k) us_resolver" where
  "app_upstream dialer cfg codec =
     \<lparr>us_servers = (case cfg_Servers cfg of None \<Rightarrow> [] | Some servers \<Rightarrow> servers),
      us_timeout = defaultUpstreamTimeout, us_codec = codec, us_parallel = False, us_dial = dialer\<rparr>"

lemma buildApplication_client:
  assumes "buildApplication X L Load walk dialer E cfg = Ret app"
  shows "r_upstream (ap_resolver app) = Some (app_client E (app_upstream dialer cfg (NewUDPCodec X)))
    \<and> r_aliasResolver (ap_resolver app) = None"
proof -
  obtain g where g: "buildGateways dialer cfg (NewUDPCodec X) = Ret g"
    and r: "r_upstream (ap_resolver app) = Some (app_client E (gw_upstream g))" "r_aliasResolver (ap_resolver app) = None"
    using assms by (auto simp: buildApplication_def Let_def obind_eq_Ret NewResolver_def)
  from g [unfolded buildGateways_Ret] have "gw_upstream g = app_upstream dialer cfg (NewUDPCodec X)"
    by (auto simp: app_upstream_def)
  with r show ?thesis by simp
qed

text \<open>
  What the upstream client can read in the course of a query from the network state \<open>n\<close>
  that ends the process: a datagram on which the decoder, under the ID of that query, panics
  or does not return.
\<close>

definition fatal_reply ::
    "extern \<Rightarrow> ('n, 'k) net_ops \<Rightarrow> ('n, 'k) us_resolver \<Rightarrow> 'n \<Rightarrow> question \<Rightarrow> time \<Rightarrow> panic \<Rightarrow> bool" where
  "fatal_reply X N u n q now p \<longleftrightarrow>
     (\<exists>conn n1 n2 data. net_calls N u n n1 \<and> nc_Read N conn 512 n1 = (n2, Ret data)
        \<and> ((p = SliceBoundsOutOfRange \<and> DecodeResponse X data (q_ID q) now = Some (Panic p))
           \<or> (p = StackOverflow \<and> DecodeResponse X data (q_ID q) now = None)))"

lemma app_query_dies:
  assumes "buildApplication X L Load walk dialer E cfg = Ret app"
    and "\<forall>ctx net srv n. \<not> panics (snd (dialer ctx net srv n))"
    and "\<forall>conn k n. \<not> panics (snd (nc_Read (ce_net E) conn k n))"
    and "app_responder X (ap_resolver app) rds (n, c) q = (st', Panic p)"
  shows "\<not> zone_has (ap_resolver app) q
    \<and> fatal_reply X (ce_net E) (app_upstream dialer cfg (NewUDPCodec X)) n q (rd_now (rds q)) p"
proof -
  let ?u = "app_upstream dialer cfg (NewUDPCodec X)"
  have u: "us_codec ?u = NewUDPCodec X" "us_dial ?u = dialer" "\<not> us_parallel ?u" by (simp_all add: app_upstream_def)
  note client = buildApplication_client [OF assms(1)]
  have quiet: "network_quiet (ce_net E) ?u"
    using assms(2,3) udp.query_error [of X] unfolding network_quiet_def u(1,2) by blast
  have "fatal (HandleQuery X (ap_resolver app) (rds q) (n, c) q) = Panic p"
    using assms(4) by (auto simp: app_responder_def split: outcome.splits prod.splits)
  from HandleQuery_panic [OF conjunct2 [OF client] this] obtain v
    where zone: "\<not> zone_has (ap_resolver app) q" and v: "resolveUpstream (ap_resolver app) n q (rd_now (rds q)) = (v, Panic p)"
    by blast
  then have "upstream_Resolve (ce_par E) (ce_net E) ?u (ce_wall E n) run_ctx n q (rd_now (rds q)) = (v, Panic p)"
    using client by (simp add: resolveUpstream_def app_client_def)
  then obtain ctx where "resolveSerialWithContext (ce_net E) ?u ctx q (rd_now (rds q)) n = (v, Panic p)"
    using u(3) by (auto simp: upstream_Resolve_def split: prod.splits)
  from serial_Panic [OF this quiet] obtain d
    where d: "heard_from (ce_net E) ?u n q (rd_now (rds q)) d" "fatal d = Panic p" by blast
  then have "d = Some (Panic p) \<or> (d = None \<and> p = StackOverflow)" by (cases d) auto
  with d(1) have "fatal_reply X (ce_net E) ?u n q (rd_now (rds q)) p"
    unfolding heard_from_def fatal_reply_def u(1) NewUDPCodec_simps by (metis DecodeResponse_panic)
  with zone show ?thesis by blast
qed

section \<open>Building does not panic\<close>

lemma build_records_calm: "\<not> panics (build_records X n t ttl vs)"
  by (induction X n t ttl vs rule: build_records.induct)
    (auto simp: panics_obind encode_never_panics NewAuthoritativeResourceRecord_def RR_Validate_def Let_def split: if_splits)

lemma load_names_calm: "\<not> panics (load_names X root ttl m)"
proof -
  have "\<not> panics (load_types X n ttl ts)" for n ts
    by (induction X n ttl ts rule: load_types.induct)
      (auto simp: panics_obind Let_def buildResourceRecord_def build_records_calm)
  then show ?thesis
    by (induction X root ttl m rule: load_names.induct) (auto simp: panics_obind Let_def split: raw_value.splits)
qed

lemma buildRepositories_calm:
  assumes "\<forall>path. \<not> panics (Load path)" and "\<forall>n. \<not> panics (lru_New L n)"
  shows "\<not> panics (buildRepositories X L Load walk cfg)"
proof -
  have "\<not> panics (loadZoneFileWithRoot X Load path ttl)" for path ttl
    using assms(1) by (auto simp: loadZoneFileWithRoot_def panics_obind load_names_calm Let_def)
  then have "\<not> panics (walk_files X Load ttl es zones)" for ttl es zones
    by (induction X Load ttl es zones rule: walk_files.induct) (auto simp: panics_obind)
  then show ?thesis
    using assms(2) by (auto simp: buildRepositories_def panics_obind LoadZoneDirectory_def Let_def dnscache_New_def)
qed

lemma buildApplication_calm:
  assumes "\<forall>path. \<not> panics (Load path)" and "\<forall>n. \<not> panics (lru_New L n)"
  shows "\<not> panics (buildApplication X L Load walk dialer E cfg)"
proof -
  have "\<not> panics (buildGateways dialer cfg codec)" for codec
    by (auto simp: buildGateways_def upstream_NewResolver_def panics_obind Let_def split: option.splits)
  then show ?thesis
    using buildRepositories_calm [OF assms] by (auto simp: buildApplication_def panics_obind Let_def)
qed

section \<open>A concrete application\<close>

text \<open>A server with one zone file, a cache of two entries and the scripted upstream network\<close>

definition sample_cfg :: app_config where
  "sample_cfg = DEFAULT_APP_CONFIG\<lparr>cfg_CacheSize := 2, cfg_ZoneDir := ''d'', cfg_Servers := Some [''a'', ''b'']\<rparr>"

definition sample_walk :: "string \<Rightarrow> walk_entry list" where
  "sample_walk dir = [WalkDirEntry dir, WalkFile ''z.yaml'']"

definition sample_par :: "deadline_ctx \<Rightarrow> question \<Rightarrow> time \<Rightarrow> script \<Rightarrow> script \<times> resource_record list outcome" where
  "sample_par ctx q now n = (n, timed_out)"

definition sample_wall :: "script \<Rightarrow> time" where
  "sample_wall n = 0"

definition sample_env :: "(script, string) client_env" where
  "sample_env = \<lparr>ce_net = script_net, ce_par = sample_par, ce_wall = sample_wall\<rparr>"

lemma sample_zones:
  "LoadZoneDirectory sample_extern sample_Load (sample_walk (cfg_ZoneDir sample_cfg)) (300 * Second)
     = Ret [(''a.b'', [sample_zone_rr])]"
  by (simp add: LoadZoneDirectory_def sample_walk_def sample_loads zone_records_def)

lemma sample_app:
  obtains app :: "(script, ref_lru, string) application"
  where "buildApplication sample_extern ref_lru sample_Load sample_walk script_dial sample_env sample_cfg = Ret app"
proof -
  have "unat (2 :: 64 word) = 2" by simp
  then have r: "\<exists>repos. buildRepositories sample_extern ref_lru sample_Load sample_walk sample_cfg = Ret repos"
    using sample_zones
    by (auto simp: buildRepositories_def obind_eq_Ret sample_cfg_def DEFAULT_APP_CONFIG_def max_int_def Let_def
        dnscache_New_def ref_lru_def ref_New_def)
  have g: "\<exists>g :: (script, string) gateways. buildGateways script_dial sample_cfg (NewUDPCodec sample_extern) = Ret g"
    unfolding buildGateways_Ret by (auto simp: sample_cfg_def)
  from r g obtain app :: "(script, ref_lru, string) application"
    where "buildApplication sample_extern ref_lru sample_Load sample_walk script_dial sample_env sample_cfg = Ret app"
    by (auto simp: buildApplication_def Let_def)
  then show ?thesis by (rule that)
qed

definition sample_rds :: "question \<Rightarrow> readings" where
  "sample_rds q = sample_readings"

definition zero_clk :: "nat \<Rightarrow> time" where
  "zero_clk i = 0"

end
