(* ===== verification/PacketsProps.thy ===== *)
theory PacketsProps
  imports Packets App "HOL-Library.Multiset"
begin

text \<open>
  What the goroutines promise under every interleaving: the responses they write are those of
  the resolver and come from the sources it may use, each goroutine ends by itself, and one
  that is not interrupted is the single step of \<open>Transport\<close>. What they do not promise: an
  answer that is stored while another goroutine is inside \<open>Get\<close> can be lost.
\<close>

section \<open>One goroutine, uninterrupted\<close>

text \<open>The cache a goroutine leaves, the datagram it writes and its panic, after \<open>n\<close> steps\<close>

fun finish ::
    "extern \<Rightarrow> 'c lru \<Rightarrow> dns_codec \<Rightarrow> ('u, 'c dnsCache) resolver \<Rightarrow> bytes \<Rightarrow> 'u \<Rightarrow> readings \<Rightarrow> (nat \<Rightarrow> time) \<Rightarrow>
     nat \<Rightarrow> task_phase \<Rightarrow> 'c dnsCache \<Rightarrow> 'c dnsCache \<times> bytes option \<times> panic option" where
  "finish X L C r data u rd clk 0 ph c = (c, None, None)"
| "finish X L C r data u rd clk (Suc n) ph c =
     (case task_next X L C r data u rd clk ph c of
        (Silent, ph', d) \<Rightarrow> finish X L C r data u rd clk n ph' d
      | (Writes b, ph', d) \<Rightarrow> (d, Some b, None)
      | (Panics p, ph', d) \<Rightarrow> (d, None, Some p))"

lemma finish_Finished [simp]: "finish X L C r data u rd clk n Finished c = (c, None, None)"
  by (induction n) simp_all

lemma run_crashed: "pk_crashed s \<noteq> None \<Longrightarrow> packets_run X L C r s acts = s"
proof (induction acts arbitrary: s)
  case (Cons act acts)
  then show ?case by (cases act) auto
qed simp

lemma loud_finished:
  "task_next X L C r data u rd clk ph c = (ev, ph', d) \<Longrightarrow> ev \<noteq> Silent \<Longrightarrow> ph' = Finished"
  by (cases ph) (auto split: outcome.splits prod.splits if_splits option.splits)

lemma run_finished:
  assumes "pk_crashed s = None" and "i < length (pk_tasks s)" and "pk_tasks s ! i = (data, client, Finished)"
  shows "packets_run X L C r s (replicate n (Steps i u rd clk)) = s"
proof (induction n)
  case (Suc n)
  have "(pk_tasks s)[i := (data, client, Finished)] = pk_tasks s" using assms(3) by (metis list_update_id)
  then have "task_step X L C r i u rd clk s = s" using assms by (simp add: task_step_def)
  then show ?case using Suc assms by simp
qed simp

lemma run_alone:
  assumes "pk_crashed s = None" and "i < length (pk_tasks s)" and "pk_tasks s ! i = (data, client, ph)"
    and "steps_left ph \<le> n" and "finish X L C r data u rd clk n ph (pk_cache s) = (d, out, crash)"
  shows "pk_cache (packets_run X L C r s (replicate n (Steps i u rd clk))) = d
    \<and> pk_tasks (packets_run X L C r s (replicate n (Steps i u rd clk))) = (pk_tasks s)[i := (data, client, Finished)]
    \<and> pk_sent (packets_run X L C r s (replicate n (Steps i u rd clk))) = pk_sent s @ map (\<lambda>b. (b, client)) (case out of None \<Rightarrow> [] | Some b \<Rightarrow> [b])
    \<and> pk_crashed (packets_run X L C r s (replicate n (Steps i u rd clk))) = crash"
  using assms
proof (induction n arbitrary: s ph)
  case 0
  then have "ph = Finished" by (cases ph) auto
  with 0 show ?case using list_update_id [of "pk_tasks s" i] by auto
next
  case (Suc n)
  obtain ev ph' c where t: "task_next X L C r data u rd clk ph (pk_cache s) = (ev, ph', c)" by (metis prod_cases3)
  define s' where "s' = task_step X L C r i u rd clk s"
  have run: "packets_run X L C r s (replicate (Suc n) (Steps i u rd clk)) = packets_run X L C r s' (replicate n (Steps i u rd clk))"
    using Suc.prems by (simp add: s'_def)
  have s': "pk_cache s' = c" "pk_tasks s' = (pk_tasks s)[i := (data, client, ph')]"
    "pk_sent s' = (case ev of Writes b \<Rightarrow> pk_sent s @ [(b, client)] | _ \<Rightarrow> pk_sent s)"
    "pk_crashed s' = (case ev of Panics p \<Rightarrow> Some p | _ \<Rightarrow> None)"
    using Suc.prems t by (simp_all add: s'_def task_step_def)
  have left: "steps_left ph' \<le> n" using task_next_progress [OF t] Suc.prems(4) by simp
  show ?case
  proof (cases ev)
    case Silent
    then show ?thesis
      using Suc.IH [of s' ph'] Suc.prems t s' left unfolding run by simp
  next
    case (Writes b)
    then have "ph' = Finished" using loud_finished [OF t] by simp
    then have "packets_run X L C r s' (replicate n (Steps i u rd clk)) = s'"
      using run_finished [of s' i data client] s' Writes Suc.prems(2) by simp
    then show ?thesis using Suc.prems t s' Writes \<open>ph' = Finished\<close> unfolding run by auto
  next
    case (Panics p)
    then have "ph' = Finished" using loud_finished [OF t] by simp
    moreover have "packets_run X L C r s' (replicate n (Steps i u rd clk)) = s'"
      using s' Panics by (intro run_crashed) simp
    ultimately show ?thesis using Suc.prems t s' Panics unfolding run by auto
  qed
qed

lemma zone_miss_state: "resolveFromZone r rd u query = Some (Ret (v, records, False, err)) \<Longrightarrow> v = u"
  by (auto simp: resolveFromZone_def dbind_eq_Ret split: option.splits prod.splits if_splits)

text \<open>The cache of a resolver is either absent or the one over the LRU cache \<open>L\<close>.\<close>

definition cached_by :: "extern \<Rightarrow> 'c lru \<Rightarrow> ('u, 'c dnsCache) resolver \<Rightarrow> bool" where
  "cached_by X L r \<longleftrightarrow> r_upstreamCache r = None \<or> r_upstreamCache r = Some (dnscache_ops X L)"

abbreviation wire :: "dns_codec \<Rightarrow> (nat \<Rightarrow> time) \<Rightarrow> dns_response \<Rightarrow> bytes option" where
  "wire C clk resp \<equiv> (case cd_EncodeResponse C clk resp of Ret b \<Rightarrow> Some b | _ \<Rightarrow> None)"

lemma finish_Responding [simp]:
  "finish X L C r data u rd clk (Suc n) (Responding resp) c
     = (c, wire C clk resp, crashed_by (cd_EncodeResponse C clk resp))"
  by (simp split: outcome.splits)

lemma finish_step:
  "task_next X L C r data u rd clk ph c = (Silent, ph', d) \<Longrightarrow>
     finish X L C r data u rd clk (Suc n) ph c = finish X L C r data u rd clk n ph' d"
  "task_next X L C r data u rd clk ph c = (Panics p, ph', d) \<Longrightarrow>
     finish X L C r data u rd clk (Suc n) ph c = (d, None, Some p)"
  by simp_all

lemma finish_Forwarding:
  "finish X L C r data u rd clk (Suc (Suc (Suc n))) (Forwarding q) c =
     (case snd (resolveUpstream r u q (rd_now rd)) of
        Err e \<Rightarrow> (c, wire C clk (buildResponse q SERVFAIL []), crashed_by (cd_EncodeResponse C clk (buildResponse q SERVFAIL [])))
      | Panic p \<Rightarrow> (c, None, Some p)
      | Ret rs \<Rightarrow> (fst (cacheUpstreamResponse r c rs), wire C clk (buildResponse q NOERROR rs),
          crashed_by (cd_EncodeResponse C clk (buildResponse q NOERROR rs))))"
  by (simp split: outcome.splits)

declare finish.simps(2) [simp del]

lemma finish_Looking:
  assumes "cached_by X L r"
  shows "finish X L C r data u rd clk (Suc (Suc (Suc (Suc (Suc n))))) (Looking q) c =
     (let (d, rs, found) = checkUpstreamCache X r rd c q
      in if found then (d, wire C clk (buildResponse q NOERROR rs), crashed_by (cd_EncodeResponse C clk (buildResponse q NOERROR rs)))
         else finish X L C r data u rd clk (Suc (Suc (Suc n))) (Forwarding q) d)"
proof (cases "r_upstreamCache r")
  case None
  then show ?thesis by (simp add: checkUpstreamCache_def finish_step finish_Forwarding)
next
  case (Some C')
  then have C': "C' = dnscache_ops X L" using assms by (simp add: cached_by_def)
  obtain d o1 where f: "cache_fetch L c (Question_CacheKey X q) = (d, o1)" by fastforce
  show ?thesis
  proof (cases o1)
    case None
    then show ?thesis using f by (simp add: checkUpstreamCache_def Some C' dnscache_Get_parts finish_step finish_Forwarding)
  next
    case records: (Some records)
    obtain e valid found where g: "cache_settle L d (rd_cache rd) (Question_CacheKey X q) records = (e, valid, found)"
      by (metis prod_cases3)
    show ?thesis
    proof (cases found)
      case True
      then show ?thesis
        using f g records by (simp add: checkUpstreamCache_def Some C' dnscache_Get_parts finish_step finish_Forwarding)
    next
      case False
      then show ?thesis
        using f g records
        by (simp add: checkUpstreamCache_def Some C' dnscache_Get_parts finish_step finish_Forwarding)
    qed
  qed
qed

lemma finish_Decoded:
  assumes "cached_by X L r" and "finish X L C r data u rd clk 6 (Decoded q) c = (d, out, crash)"
  shows "case fatal (HandleQuery X r rd (u, c) q) of
      Ret ((v, e), resp) \<Rightarrow> d = e \<and> out = wire C clk resp \<and> crash = crashed_by (cd_EncodeResponse C clk resp)
    | Err e \<Rightarrow> d = c \<and> out = None \<and> crash = None
    | Panic p \<Rightarrow> out = None \<and> crash = Some p"
proof (cases "fatal (resolveFromZone r rd u q)")
  case (Ret t)
  have n: "(6 :: nat) = Suc 5" "(5 :: nat) = Suc (Suc (Suc (Suc (Suc 0))))" by simp_all
  obtain v rs found err where t: "t = (v, rs, found, err)" by (cases t)
  with Ret have z: "resolveFromZone r rd u q = Some (Ret (v, rs, found, err))" by simp
  consider "found" | "\<not> found" "checkBlocklist r q" | "\<not> found" "\<not> checkBlocklist r q" by blast
  then show ?thesis
  proof cases
    case 1
    then have "finish X L C r data u rd clk 6 (Decoded q) c
        = finish X L C r data u rd clk 5 (Responding (zone_response q rs err)) c"
      unfolding n(1) using z by (intro finish_step) simp
    then show ?thesis
      using assms(2) 1 z by (auto simp: n(2) HandleQuery_def zone_response_def split: option.splits)
  next
    case 2
    then have "finish X L C r data u rd clk 6 (Decoded q) c
        = finish X L C r data u rd clk 5 (Responding (buildResponse q NXDOMAIN [])) c"
      unfolding n(1) using z by (intro finish_step) simp
    then show ?thesis using assms(2) 2 z by (simp add: n(2) HandleQuery_def)
  next
    case 3
    then have v: "v = u" using zone_miss_state z by metis
    obtain c' recs hit where g: "checkUpstreamCache X r rd c q = (c', recs, hit)" by (metis prod_cases3)
    have "finish X L C r data u rd clk 6 (Decoded q) c = finish X L C r data u rd clk 5 (Looking q) c"
      unfolding n(1) using 3 z by (intro finish_step) simp
    then have fin: "(d, out, crash) = (if hit then (c', wire C clk (buildResponse q NOERROR recs),
          crashed_by (cd_EncodeResponse C clk (buildResponse q NOERROR recs)))
        else finish X L C r data u rd clk (Suc (Suc (Suc 0))) (Forwarding q) c')"
      using assms(2) by (simp add: n(2) finish_Looking [OF assms(1)] g)
    obtain w out' where up: "resolveUpstream r u q (rd_now rd) = (w, out')" by fastforce
    show ?thesis
      using fin 3 z g up unfolding finish_Forwarding
      by (auto simp: HandleQuery_def v split: if_splits outcome.splits prod.splits)
  qed
next
  case (Err e)
  then have z: "resolveFromZone r rd u q = Some (Err e)" by (cases "resolveFromZone r rd u q") auto
  then have "finish X L C r data u rd clk (Suc 5) (Decoded q) c = finish X L C r data u rd clk 5 Finished c"
    by (intro finish_step) simp
  then show ?thesis using assms(2) z by (simp add: HandleQuery_def)
next
  case (Panic p)
  then have "fatal (HandleQuery X r rd (u, c) q) = Panic p"
    by (cases "resolveFromZone r rd u q") (auto simp: HandleQuery_def)
  moreover have "finish X L C r data u rd clk (Suc 5) (Decoded q) c = (c, None, Some p)"
    using Panic by (intro finish_step) simp
  ultimately show ?thesis using assms(2) by simp
qed

text \<open>
  C6. A goroutine that is not interrupted handles its packet as the single step of the
  transport does: seven of its steps leave the cache that \<open>handlePacket\<close> leaves (when nothing
  panics), write the datagram it writes, if any, and panic when it panics.
\<close>

theorem atomic_packet_refined:
  assumes "handlePacket S t clk (app_responder X r (\<lambda>_. rd)) data client ((u, c), n) = (((v, d), n'), res)"
    and "ut_conn t = Some conn" and "cached_by X L r"
    and "pk_crashed s = None" and "pk_cache s = c" and "i < length (pk_tasks s)"
    and "pk_tasks s ! i = (data, client, Received)"
    and "s' = packets_run X L (ut_codec t) r s (replicate 7 (Steps i u rd clk))"
  shows "pk_tasks s' = (pk_tasks s)[i := (data, client, Finished)] \<and> pk_crashed s' = crashed_by res
    \<and> (\<not> panics res \<longrightarrow> pk_cache s' = d)
    \<and> (\<exists>out. length out \<le> 1 \<and> pk_sent s' = pk_sent s @ map (\<lambda>b. (b, client)) out
        \<and> n' = foldl (\<lambda>n b. fst (sk_WriteToUDP S conn b client n)) n out)"
proof -
  let ?C = "ut_codec t"
  obtain e out crash where f: "finish X L ?C r data u rd clk 7 Received c = (e, out, crash)" by (metis prod_cases3)
  note run = run_alone [OF assms(4,6,7) _ f [folded assms(5)], folded assms(8)]
  have "crash = crashed_by res \<and> (\<not> panics res \<longrightarrow> e = d)
      \<and> n' = foldl (\<lambda>n b. fst (sk_WriteToUDP S conn b client n)) n (case out of None \<Rightarrow> [] | Some b \<Rightarrow> [b])"
  proof (cases "fatal (cd_DecodeQuery ?C data)")
    case (Ret q)
    then have "finish X L ?C r data u rd clk (Suc 6) Received c = finish X L ?C r data u rd clk 6 (Decoded q) c"
      by (intro finish_step) simp
    then have "finish X L ?C r data u rd clk 6 (Decoded q) c = (e, out, crash)" using f by simp
    from finish_Decoded [OF assms(3) this] show ?thesis
      using assms(1,2) Ret
      by (auto simp: handlePacket_def app_responder_def split: outcome.splits prod.splits)
  next
    case (Err x)
    then have "finish X L ?C r data u rd clk (Suc 6) Received c = finish X L ?C r data u rd clk 6 Finished c"
      by (intro finish_step) simp
    then show ?thesis using assms(1,2) f Err by (auto simp: handlePacket_def)
  next
    case (Panic p)
    then have "finish X L ?C r data u rd clk (Suc 6) Received c = (c, None, Some p)"
      by (intro finish_step) simp
    then show ?thesis using assms(1,2) f Panic by (auto simp: handlePacket_def)
  qed
  then show ?thesis
    using run by (intro conjI exI [of _ "case out of None \<Rightarrow> [] | Some b \<Rightarrow> [b]"]) (auto split: option.splits)
qed

section \<open>Where a response comes from\<close>

text \<open>
  The states of the upstream client and the clock readings that a schedule used, what the
  upstream client answered to a question under them, and the responses the resolver may give.
\<close>

definition used :: "('a, 'u) packet_act list \<Rightarrow> ('u \<times> readings) set" where
  "used acts = {(u, rd). \<exists>i clk. Steps i u rd clk \<in> set acts}"

definition upstream_gave ::
    "('u, 'c) resolver \<Rightarrow> ('u \<times> readings) set \<Rightarrow> question \<Rightarrow> resource_record list \<Rightarrow> bool" where
  "upstream_gave r E q records \<longleftrightarrow> (\<exists>(u, rd) \<in> E. snd (resolveUpstream r u q (rd_now rd)) = Ret records)"

inductive response_from ::
    "extern \<Rightarrow> ('u, 'c) resolver \<Rightarrow> ('u \<times> readings) set \<Rightarrow> question \<Rightarrow> dns_response \<Rightarrow> bool" for X r E q where
  zone: "resolveFromZone r rd u q = Some (Ret (v, records, True, err)) \<Longrightarrow>
     response_from X r E q (zone_response q records err)"
| blocked: "\<lbrakk>\<not> zone_has r q; checkBlocklist r q\<rbrakk> \<Longrightarrow> response_from X r E q (buildResponse q NXDOMAIN [])"
| cached: "\<lbrakk>passes r q; upstream_gave r E q' answer; subseq records answer; records \<noteq> []; (u, rd) \<in> E;
     \<forall>rr \<in> set records. RR_CacheKey X rr = Question_CacheKey X q \<and> (\<exists>k. \<not> IsExpired rr (rd_cache rd k))\<rbrakk> \<Longrightarrow>
     response_from X r E q (buildResponse q NOERROR records)"
| upstream: "\<lbrakk>passes r q; upstream_gave r E q records\<rbrakk> \<Longrightarrow> response_from X r E q (buildResponse q NOERROR records)"
| failed: "\<lbrakk>passes r q; (u, rd) \<in> E; snd (resolveUpstream r u q (rd_now rd)) = Err e\<rbrakk> \<Longrightarrow>
     response_from X r E q (buildResponse q SERVFAIL [])"

text \<open>Records that may be in the cache under a key\<close>

definition keepable ::
    "extern \<Rightarrow> ('u, 'c) resolver \<Rightarrow> ('u \<times> readings) set \<Rightarrow> string \<Rightarrow> resource_record list \<Rightarrow> bool" where
  "keepable X r E key records \<longleftrightarrow> (\<forall>rr \<in> set records. RR_CacheKey X rr = key)
     \<and> (\<exists>q answer. upstream_gave r E q answer \<and> subseq records answer)"

fun phase_from ::
    "extern \<Rightarrow> dns_codec \<Rightarrow> ('u, 'c) resolver \<Rightarrow> ('u \<times> readings) set \<Rightarrow> bytes \<Rightarrow> task_phase \<Rightarrow> bool" where
  "phase_from X C r E data Received = True"
| "phase_from X C r E data (Decoded q) = (cd_DecodeQuery C data = Some (Ret q))"
| "phase_from X C r E data (Looking q) = (cd_DecodeQuery C data = Some (Ret q) \<and> passes r q)"
| "phase_from X C r E data (Fetched q rs) =
     (cd_DecodeQuery C data = Some (Ret q) \<and> passes r q \<and> keepable X r E (Question_CacheKey X q) rs)"
| "phase_from X C r E data (Forwarding q) = (cd_DecodeQuery C data = Some (Ret q) \<and> passes r q)"
| "phase_from X C r E data (Answered q rs) =
     (cd_DecodeQuery C data = Some (Ret q) \<and> passes r q \<and> upstream_gave r E q rs)"
| "phase_from X C r E data (Responding resp) =
     (\<exists>q. cd_DecodeQuery C data = Some (Ret q) \<and> response_from X r E q resp)"
| "phase_from X C r E data Finished = True"

definition sent_from ::
    "extern \<Rightarrow> dns_codec \<Rightarrow> ('u, 'c) resolver \<Rightarrow> ('u \<times> readings) set \<Rightarrow> (bytes \<times> 'a \<times> task_phase) list \<Rightarrow> bytes \<Rightarrow> 'a \<Rightarrow> bool" where
  "sent_from X C r E tasks b client \<longleftrightarrow> (\<exists>data q resp clk. (data, client, Finished) \<in> set tasks
     \<and> cd_DecodeQuery C data = Some (Ret q) \<and> response_from X r E q resp \<and> cd_EncodeResponse C clk resp = Ret b)"

definition finished_clients :: "(bytes \<times> 'a \<times> task_phase) list \<Rightarrow> 'a multiset" where
  "finished_clients tasks = image_mset (\<lambda>(data, client, ph). client) (filter_mset (\<lambda>(data, client, ph). ph = Finished) (mset tasks))"

lemma finished_clients_append [simp]: "finished_clients (ts @ us) = finished_clients ts + finished_clients us"
  by (simp add: finished_clients_def)

lemma finished_clients_Cons [simp]:
  "finished_clients ((data, client, ph) # ts) = (if ph = Finished then {#client#} else {#}) + finished_clients ts"
  by (simp add: finished_clients_def)

lemma finished_clients_Nil [simp]: "finished_clients [] = {#}"
  by (simp add: finished_clients_def)

text \<open>A goroutine that moves on stays finished when it was, and adds itself when it ends.\<close>

lemma finished_clients_update:
  assumes "i < length ts" and "ts ! i = (data, client, ph)" and "ph = Finished \<longrightarrow> ph' = Finished"
  shows "finished_clients (ts[i := (data, client, ph')])
     = finished_clients ts + (if ph \<noteq> Finished \<and> ph' = Finished then {#client#} else {#})"
proof -
  have "ts = take i ts @ (data, client, ph) # drop (Suc i) ts" using assms by (metis id_take_nth_drop)
  then have "finished_clients ts = finished_clients (take i ts) + finished_clients ((data, client, ph) # drop (Suc i) ts)"
    by (metis finished_clients_append)
  then show ?thesis using assms(1,3) by (auto simp: upd_conv_take_nth_drop)
qed

lemma finished_update:
  assumes "(data, client, Finished) \<in> set ts" and "i < length ts" and "ts ! i = (data', client', ph)"
    and "ph = Finished \<longrightarrow> ph' = Finished"
  shows "(data, client, Finished) \<in> set (ts[i := (data', client', ph')])"
proof -
  obtain j where "j < length ts" "ts ! j = (data, client, Finished)" using assms(1) by (auto simp: in_set_conv_nth)
  then show ?thesis using assms(2-4) by (auto simp: set_conv_nth nth_list_update intro!: exI [of _ j])
qed

text \<open>A resolver whose upstream state is not a zone's business: the zone miss is the same for all\<close>

lemma zone_miss:
  assumes "resolveFromZone r rd u q = Some (Ret (v, records, False, err))"
  shows "\<not> zone_has r q"
  using resolveFromZone_hit [OF _ assms] by auto

context lru_cache
begin

definition cache_from ::
    "extern \<Rightarrow> ('u, 'c dnsCache) resolver \<Rightarrow> ('u \<times> readings) set \<Rightarrow> 'c dnsCache \<Rightarrow> bool" where
  "cache_from X r E c \<longleftrightarrow> cinv c \<and> (\<forall>key records. contents c key = Some records \<longrightarrow> keepable X r E key records)"

lemma cache_from_sub:
  assumes "cache_from X r E c" and "cinv d" and "\<forall>j. contents d j = contents c j \<or> contents d j = None"
  shows "cache_from X r E d"
  using assms unfolding cache_from_def by (metis option.distinct(1))

lemma cache_from_put:
  assumes c: "cache_from X r E c" and d: "cinv d"
    and other: "\<forall>j. j \<noteq> key \<longrightarrow> contents d j = contents c j \<or> contents d j = None"
    and key: "contents d key = Some records \<Longrightarrow> keepable X r E key records" "contents d key \<in> {None, Some records}"
  shows "cache_from X r E d"
  unfolding cache_from_def
proof (intro conjI allI impI)
  fix k rs assume k: "contents d k = Some rs"
  show "keepable X r E k rs"
  proof (cases "k = key")
    case True
    then have "rs = records" using k key(2) by simp
    with True k key(1) show ?thesis by simp
  next
    case False
    then have "contents c k = Some rs" using k other by force
    then show ?thesis using c by (simp add: cache_from_def)
  qed
qed (rule d)

lemma keepable_sub:
  assumes "keepable X r E key records" and "subseq rs records"
  shows "keepable X r E key rs"
proof -
  have "set rs \<subseteq> set records" using assms(2) by (auto elim: subseq_conv_nths [THEN iffD1, THEN exE] dest: in_set_nthsD)
  then show ?thesis using assms subseq_order.order_trans unfolding keepable_def by blast
qed

text \<open>A step of one goroutine, as far as the sources of its responses are concerned\<close>

lemma task_next_from:
  assumes r: "r_upstreamCache r = Some (dnscache_ops X L)" and E: "(u, rd) \<in> E"
    and c: "cache_from X r E c" and ph: "phase_from X C r E data ph"
    and step: "task_next X L C r data u rd clk ph c = (ev, ph', d)"
  shows "cache_from X r E d \<and> phase_from X C r E data ph'
    \<and> (\<forall>b. ev = Writes b \<longrightarrow> (\<exists>q resp. cd_DecodeQuery C data = Some (Ret q) \<and> response_from X r E q resp
          \<and> cd_EncodeResponse C clk resp = Ret b))"
proof (cases ph)
  case Received
  then show ?thesis using step c by (auto split: outcome.splits)
next
  case (Decoded q)
  have "phase_from X C r E data (Looking q)"
    if "resolveFromZone r rd u q = Some (Ret (v, rs, False, err))" "\<not> checkBlocklist r q" for v rs err
    using ph Decoded that(2) zone_miss [OF that(1)] by (simp add: passes_def)
  moreover have "response_from X r E q (buildResponse q NXDOMAIN [])"
    if "resolveFromZone r rd u q = Some (Ret (v, rs, False, err))" "checkBlocklist r q" for v rs err
    using zone_miss [OF that(1)] that(2) by (rule response_from.blocked)
  moreover have "response_from X r E q (zone_response q rs err)"
    if "resolveFromZone r rd u q = Some (Ret (v, rs, True, err))" for v rs err
    using that by (rule response_from.zone)
  ultimately show ?thesis
    using step c ph Decoded by (auto split: outcome.splits prod.splits if_splits)
next
  case (Looking q)
  obtain e o1 where f: "cache_fetch L c (Question_CacheKey X q) = (e, o1)" by fastforce
  have i: "cinv c" using c by (simp add: cache_from_def)
  note law = fetch_law [OF i f]
  have "cache_from X r E e" using c law by (simp add: cache_from_def)
  moreover have "keepable X r E (Question_CacheKey X q) rs" if "o1 = Some rs" for rs
    using c law that by (auto simp: cache_from_def)
  ultimately show ?thesis using step ph Looking r f by (auto split: option.splits)
next
  case (Fetched q rs)
  obtain e valid found where g: "cache_settle L c (rd_cache rd) (Question_CacheKey X q) rs = (e, valid, found)"
    by (metis prod_cases3)
  have i: "cinv c" using c by (simp add: cache_from_def)
  note law = settle_law [OF i g]
  have v: "valid = unexpired (rd_cache rd) 0 rs" and fv: "found \<longleftrightarrow> valid \<noteq> []" using law by blast+
  have p: "passes r q" "cd_DecodeQuery C data = Some (Ret q)" using ph Fetched by simp_all
  have "keepable X r E (Question_CacheKey X q) rs" using ph Fetched by simp
  from keepable_sub [OF this unexpired_subseq] have k: "keepable X r E (Question_CacheKey X q) valid"
    unfolding v .
  have stored: "contents e (Question_CacheKey X q) \<in> {None, Some valid}" using law by simp
  have "cache_from X r E e"
    using law by (intro cache_from_put [OF c _ _ k stored]) simp_all
  moreover have "response_from X r E q (buildResponse q NOERROR valid)" if "found"
  proof -
    obtain q' answer where a: "upstream_gave r E q' answer" "subseq valid answer" using k by (auto simp: keepable_def)
    have "RR_CacheKey X rr = Question_CacheKey X q \<and> (\<exists>k. \<not> IsExpired rr (rd_cache rd k))" if "rr \<in> set valid" for rr
      using k that unexpired_set [of rr] unfolding keepable_def v by blast
    moreover have "valid \<noteq> []" using fv that by simp
    ultimately show ?thesis using response_from.cached [OF p(1) a _ E] by blast
  qed
  moreover have "(ev, ph', d) = (if found then (Silent, Responding (buildResponse q NOERROR valid), e) else (Silent, Forwarding q, e))"
    using step Fetched g by simp
  ultimately show ?thesis using p by (cases found) auto
next
  case (Forwarding q)
  have "upstream_gave r E q rs" if "snd (resolveUpstream r u q (rd_now rd)) = Ret rs" for rs
    using E that by (auto simp: upstream_gave_def)
  moreover have "response_from X r E q (buildResponse q SERVFAIL [])"
    if "snd (resolveUpstream r u q (rd_now rd)) = Err e" for e
    using ph Forwarding by (intro response_from.failed [OF _ E that]) simp
  ultimately show ?thesis using step c ph Forwarding by (auto split: outcome.splits)
next
  case (Answered q rs)
  have g: "upstream_gave r E q rs" "cd_DecodeQuery C data = Some (Ret q)" "passes r q" using ph Answered by auto
  have d: "d = fst (dnscache_Set X L c rs)"
    using step Answered r by (simp add: cacheUpstreamResponse_def)
  have "cache_from X r E d"
  proof (cases "rs \<noteq> [] \<and> same_key X rs")
    case True
    let ?k = "RR_CacheKey X (hd rs)"
    have i: "cinv c" using c by (simp add: cache_from_def)
    have "d = c\<lparr>dc_lru := lru_Add L (dc_lru c) ?k rs\<rparr>" using True by (simp add: d Set_Ret)
    moreover have "keepable X r E ?k rs" using g(1) True same_keyD by (auto simp: keepable_def)
    ultimately show ?thesis
      using add [OF i] add_other [OF i] by (intro cache_from_put [OF c, of d ?k rs]) (simp_all del: not_None_eq)
  next
    case False
    then show ?thesis using c by (auto simp: d Set_Ret)
  qed
  then show ?thesis using step Answered g response_from.upstream [OF g(3,1)] by auto
next
  case (Responding resp)
  then show ?thesis using step c ph by (auto split: outcome.splits)
next
  case Finished
  then show ?thesis using step c by simp
qed

definition packets_from ::
    "extern \<Rightarrow> dns_codec \<Rightarrow> ('u, 'c dnsCache) resolver \<Rightarrow> ('u \<times> readings) set \<Rightarrow> nat \<Rightarrow> ('c, 'a) packets \<Rightarrow> bool" where
  "packets_from X C r E n s \<longleftrightarrow> cache_from X r E (pk_cache s) \<and> cap (dc_lru (pk_cache s)) = n
     \<and> (\<forall>(data, client, ph) \<in> set (pk_tasks s). phase_from X C r E data ph)
     \<and> (\<forall>(b, client) \<in> set (pk_sent s). sent_from X C r E (pk_tasks s) b client)
     \<and> mset (map snd (pk_sent s)) \<subseteq># finished_clients (pk_tasks s)"

lemma task_next_cap:
  assumes "r_upstreamCache r = Some (dnscache_ops X L)" and "cinv c" and "task_next X L C r data u rd clk ph c = (ev, ph', d)"
  shows "cap (dc_lru d) = cap (dc_lru c)"
proof (cases ph)
  case (Looking q)
  obtain e o1 where f: "cache_fetch L c (Question_CacheKey X q) = (e, o1)" by fastforce
  then show ?thesis using assms Looking fetch_law [OF assms(2) f] by (auto split: option.splits)
next
  case (Fetched q rs)
  obtain e valid found where g: "cache_settle L c (rd_cache rd) (Question_CacheKey X q) rs = (e, valid, found)"
    by (metis prod_cases3)
  then show ?thesis using assms Fetched settle_law [OF assms(2) g] by (auto split: if_splits)
next
  case (Answered q rs)
  then have d: "d = fst (dnscache_Set X L c rs)" using assms by (simp add: cacheUpstreamResponse_def)
  then show ?thesis using add [OF assms(2), of "RR_CacheKey X (hd rs)" rs] by (simp add: Set_Ret del: not_None_eq)
qed (use assms in \<open>auto split: outcome.splits prod.splits if_splits\<close>)

lemma packets_next_from:
  assumes r: "r_upstreamCache r = Some (dnscache_ops X L)" and s: "packets_from X C r E n s" and act: "used [act] \<subseteq> E"
  shows "packets_from X C r E n (packets_next X L C r s act)"
proof (cases act)
  case (Arrives data client)
  have "sent_from X C r E (pk_tasks s @ [(data, client, Received)]) b a" if "sent_from X C r E (pk_tasks s) b a" for b a
    using that unfolding sent_from_def by fastforce
  then show ?thesis using s Arrives by (auto simp: packets_from_def)
next
  case (Steps i u rd clk)
  show ?thesis
  proof (cases "pk_crashed s \<noteq> None \<or> length (pk_tasks s) \<le> i")
    case True
    then show ?thesis using s Steps by simp
  next
    case False
    obtain data client ph where t: "pk_tasks s ! i = (data, client, ph)" by (metis prod_cases3)
    obtain ev ph' d where n: "task_next X L C r data u rd clk ph (pk_cache s) = (ev, ph', d)" by (metis prod_cases3)
    let ?ts = "(pk_tasks s)[i := (data, client, ph')]"
    have i: "i < length (pk_tasks s)" using False by simp
    have E: "(u, rd) \<in> E" using act Steps by (auto simp: used_def)
    have c: "cache_from X r E (pk_cache s)" "cap (dc_lru (pk_cache s)) = n" using s by (simp_all add: packets_from_def)
    have ph: "phase_from X C r E data ph" using s i t unfolding packets_from_def by (metis (no_types, lifting) case_prodD nth_mem)
    note src = task_next_from [OF r E c(1) ph n]
    have fin: "ph = Finished \<longrightarrow> ph' = Finished" using n by auto
    have upd: "finished_clients ?ts = finished_clients (pk_tasks s) + (if ph \<noteq> Finished \<and> ph' = Finished then {#client#} else {#})"
      using finished_clients_update [OF i t fin] .
    have old: "sent_from X C r E ?ts b a" if "sent_from X C r E (pk_tasks s) b a" for b a
      using that finished_update [OF _ i t fin] unfolding sent_from_def by blast
    have wr: "ph \<noteq> Finished \<and> ph' = Finished \<and> sent_from X C r E ?ts b client" if "ev = Writes b" for b
    proof -
      have "ph' = Finished" using loud_finished [OF n] that by simp
      moreover have "ph \<noteq> Finished" using n that by auto
      moreover have "(data, client, Finished) \<in> set ?ts" using i \<open>ph' = Finished\<close> by (simp add: set_update_memI)
      ultimately show ?thesis using src that unfolding sent_from_def by blast
    qed
    have tasks: "\<forall>(data, client, ph) \<in> set ?ts. phase_from X C r E data ph"
      using s src set_update_subset_insert [of "pk_tasks s" i] unfolding packets_from_def by fastforce
    have sent: "\<forall>(b, a) \<in> set (pk_sent s). sent_from X C r E ?ts b a" using s old unfolding packets_from_def by fastforce
    have sub: "mset (map snd (pk_sent s)) \<subseteq># finished_clients (pk_tasks s)" using s by (simp add: packets_from_def)
    have cinv: "cinv (pk_cache s)" using c(1) by (simp add: cache_from_def)
    have next_s: "packets_next X L C r s act = s\<lparr>pk_cache := d, pk_tasks := ?ts,
        pk_sent := (case ev of Writes b \<Rightarrow> pk_sent s @ [(b, client)] | _ \<Rightarrow> pk_sent s),
        pk_crashed := (case ev of Panics p \<Rightarrow> Some p | _ \<Rightarrow> None)\<rparr>"
      using Steps False t n by (simp add: task_step_def)
    have "cache_from X r E d \<and> cap (dc_lru d) = n" using src c task_next_cap [OF r cinv n] by simp
    moreover have "\<forall>(b, a) \<in> set (case ev of Writes b \<Rightarrow> pk_sent s @ [(b, client)] | _ \<Rightarrow> pk_sent s). sent_from X C r E ?ts b a"
      using sent wr by (cases ev) auto
    moreover have "mset (map snd (case ev of Writes b \<Rightarrow> pk_sent s @ [(b, client)] | _ \<Rightarrow> pk_sent s)) \<subseteq># finished_clients ?ts"
      using sub wr unfolding upd 
      by (cases ev) (auto intro: subset_mset.order_trans [OF _ mset_subset_eq_add_left [of _ "{#client#}"], simplified])
    ultimately show ?thesis using tasks unfolding packets_from_def next_s by simp
  qed
qed

lemma packets_run_from:
  assumes "r_upstreamCache r = Some (dnscache_ops X L)" and "packets_from X C r (used acts) n s"
  shows "packets_from X C r (used acts) n (packets_run X L C r s acts)"
  using assms(2) by (rule packets_run_invariant) (rule packets_next_from [OF assms(1)], auto simp: used_def)

lemma packets_init_from:
  assumes "dnscache_New L n = Ret c"
  shows "packets_from X C r E (nat n) (packets_init c)"
proof (cases "lru_New L n")
  case (Ret l)
  then show ?thesis
    using assms new [OF Ret] by (auto simp: packets_from_def packets_init_def cache_from_def dnscache_New_def)
qed (use assms in \<open>simp_all add: dnscache_New_def\<close>)

lemma concurrent:
  assumes "dnscache_New L n = Ret c" and "r_upstreamCache r = Some (dnscache_ops X L)"
  shows "(\<forall>(b, client) \<in> set (pk_sent (packets_run X L C r (packets_init c) acts)).
      sent_from X C r (used acts) (pk_tasks (packets_run X L C r (packets_init c) acts)) b client)
    \<and> mset (map snd (pk_sent (packets_run X L C r (packets_init c) acts)))
        \<subseteq># finished_clients (pk_tasks (packets_run X L C r (packets_init c) acts))
    \<and> dnscache_Len L (pk_cache (packets_run X L C r (packets_init c) acts)) \<le> nat n"
proof -
  let ?s = "packets_run X L C r (packets_init c) acts"
  have "packets_from X C r (used acts) (nat n) ?s" using packets_run_from [OF assms(2) packets_init_from [OF assms(1)]] .
  moreover from this have "dnscache_Len L (pk_cache ?s) \<le> nat n"
    using len [of "dc_lru (pk_cache ?s)"] by (auto simp: packets_from_def cache_from_def dnscache_Len_def)
  ultimately show ?thesis by (simp add: packets_from_def)
qed

end

text \<open>
  C1. Under every interleaving of the goroutines, every datagram written answers the
  question of a packet of the client it goes to, with a response the resolver may give: the
  zone's records; a refusal of a blocked name; cached records, a subsequence of what the
  upstream client once answered, filed under the question's key and not expired when looked at;
  what the upstream client answers to this question; or a server failure. No client gets more
  responses than it has packets, and the cache never exceeds its size.
\<close>

theorem concurrent_answers:
  assumes "lru_cache L ok view cap" and "dnscache_New L n = Ret c" and "r_upstreamCache r = Some (dnscache_ops X L)"
    and "s = packets_run X L C r (packets_init c) acts"
  shows "(\<forall>(b, client) \<in> set (pk_sent s). sent_from X C r (used acts) (pk_tasks s) b client)
    \<and> mset (map snd (pk_sent s)) \<subseteq># finished_clients (pk_tasks s)
    \<and> dnscache_Len L (pk_cache s) \<le> nat n"
  using lru_cache.concurrent [OF assms(1-3)] assms(4) by simp

section \<open>The responses of an application are well typed\<close>

lemma app_cache_ops:
  assumes "buildApplication X L Load walk dialer E cfg = Ret app"
  shows "r_upstreamCache (ap_resolver app) = (if cfg_DisableCache cfg then None else Some (dnscache_ops X L))"
  using assms by (rule buildApplication_Ret) (simp add: NewResolver_def)

lemma app_upstream_valid:
  assumes "buildApplication X L Load walk dialer E cfg = Ret app" and "upstream_gave (ap_resolver app) U q records"
    and "rr \<in> set records"
  shows "valid_rr rr"
proof -
  obtain zones c where c: "us_codec c = NewUDPCodec X" "\<not> us_parallel c"
    and r: "ap_resolver app = NewResolver (Some Noop_IsBlocked) (Some (app_client E c))
        (if cfg_DisableCache cfg then None else Some (dnscache_ops X L))
        (Some (FindRecords X (put_zones X zonecache_New zones))) (cfg_MaxRecursion cfg) None"
    using buildApplication_Ret [OF assms(1)] by metis
  obtain u and rd :: readings where "snd (resolveUpstream (ap_resolver app) u q (rd_now rd)) = Ret records"
    using assms(2) by (auto simp: upstream_gave_def)
  then obtain v where "resolveUpstream (ap_resolver app) u q (rd_now rd) = (v, Ret records)" by (metis prod.collapse)
  then have "upstream_Resolve (ce_par E) (ce_net E) c (ce_wall E u) run_ctx u q (rd_now rd) = (v, Ret records)"
    by (simp add: resolveUpstream_def r NewResolver_def app_client_def)
  moreover have "par_ok (ce_net E) c q (rd_now rd) (ce_par E)" using c(2) by (simp add: par_ok_def)
  ultimately show ?thesis using Resolve_arrived [OF c(1)] assms(3) unfolding arrived_def by blast
qed

lemma app_response_valid:
  assumes app: "buildApplication X L Load walk dialer E cfg = Ret app" and "response_from X (ap_resolver app) U q resp"
  shows "Response_Validate resp = Ret () \<and> resp_ID resp = q_ID q \<and> resp_Question resp = q"
  using assms(2)
proof cases
  case (zone rd u v records err)
  obtain zones c where z: "LoadZoneDirectory X Load (walk (cfg_ZoneDir cfg)) (300 * Second) = Ret zones"
    and r: "ap_resolver app = NewResolver (Some Noop_IsBlocked) (Some (app_client E c))
        (if cfg_DisableCache cfg then None else Some (dnscache_ops X L))
        (Some (FindRecords X (put_zones X zonecache_New zones))) (cfg_MaxRecursion cfg) None"
    using buildApplication_Ret [OF app] by metis
  have "FindRecords X (put_zones X zonecache_New zones) q = (records, True)" "err = None"
    using zone(2) by (auto simp: resolveFromZone_def r NewResolver_def split: prod.splits if_splits)
  then show ?thesis
    using app_zone_valid [OF z] zone(1) by (auto simp: zone_response_def Response_Validate_Ret RCode_IsValid_def)
next
  case (cached q' answer records u rd)
  have "set records \<subseteq> set answer"
    using cached(4) by (auto elim: subseq_conv_nths [THEN iffD1, THEN exE] dest: in_set_nthsD)
  then show ?thesis
    using app_upstream_valid [OF app cached(3)] cached(1) by (auto simp: Response_Validate_Ret RCode_IsValid_def)
next
  case (upstream records)
  then show ?thesis
    using app_upstream_valid [OF app upstream(3)] by (auto simp: Response_Validate_Ret RCode_IsValid_def)
qed (auto simp: Response_Validate_Ret RCode_IsValid_def)

text \<open>
  C5. Every datagram a built application writes, under every interleaving of its goroutines,
  is the encoding of a well-formed response: its code is valid, each of its records has a
  name, a known type and class and data, and it carries the ID and the question of a packet
  of its client. The zone files, the upstream servers and the cache give nothing else.
\<close>

theorem responses_well_typed:
  assumes "buildApplication X L Load walk dialer E cfg = Ret app" and "ap_cache app = Some c"
    and "lru_cache L ok view cap"
    and "s = packets_run X L (NewUDPCodec X) (ap_resolver app) (packets_init c) acts"
    and "(b, client) \<in> set (pk_sent s)"
  shows "\<exists>data q resp clk. (data, client, Finished) \<in> set (pk_tasks s) \<and> DecodeQuery data = Some (Ret q)
    \<and> Response_Validate resp = Ret () \<and> resp_ID resp = q_ID q \<and> resp_Question resp = q
    \<and> EncodeResponse clk resp = Ret b"
proof -
  have r: "r_upstreamCache (ap_resolver app) = Some (dnscache_ops X L)"
    using buildApplication_cache [OF assms(1,2)] app_cache_ops [OF assms(1)] by simp
  have "sent_from X (NewUDPCodec X) (ap_resolver app) (used acts) (pk_tasks s) b client"
    using lru_cache.concurrent [OF assms(3) conjunct1 [OF buildApplication_cache [OF assms(1,2)]] r,
        of "NewUDPCodec X" acts] assms(4,5) by fast
  then show ?thesis using app_response_valid [OF assms(1)] unfolding sent_from_def by (metis NewUDPCodec_simps)
qed

section \<open>Every goroutine ends\<close>

text \<open>Whether an action is a step of goroutine \<open>i\<close>\<close>

fun own :: "nat \<Rightarrow> ('a, 'u) packet_act \<Rightarrow> bool" where
  "own i (Arrives data client) = False"
| "own i (Steps j u rd clk) = (i = j)"

lemma packets_next_left:
  assumes "i < length (pk_tasks s)" and "pk_tasks s ! i = (data, client, ph)" and "pk_crashed s = None"
  shows "i < length (pk_tasks (packets_next X L C r s act)) \<and> (\<exists>ph'.
      pk_tasks (packets_next X L C r s act) ! i = (data, client, ph')
    \<and> steps_left ph' \<le> steps_left ph - (if own i act then 1 else 0))"
proof (cases act)
  case (Arrives b a)
  then show ?thesis using assms by (simp add: nth_append)
next
  case (Steps j u rd clk)
  obtain data' client' ph1 where j: "pk_tasks s ! j = (data', client', ph1)" by (metis prod_cases3)
  obtain ev ph' d where n: "task_next X L C r data' u rd clk ph1 (pk_cache s) = (ev, ph', d)" by (metis prod_cases3)
  show ?thesis
    using assms Steps j n task_next_progress [OF n] by (cases "i = j") (auto simp: task_step_def)
qed

lemma packets_run_left:
  assumes "i < length (pk_tasks s)" and "pk_tasks s ! i = (data, client, ph)"
    and "pk_crashed (packets_run X L C r s acts) = None"
  shows "\<exists>ph'. pk_tasks (packets_run X L C r s acts) ! i = (data, client, ph')
    \<and> steps_left ph' \<le> steps_left ph - length (filter (own i) acts)"
  using assms
proof (induction acts arbitrary: s ph)
  case (Cons act acts)
  let ?s = "packets_next X L C r s act"
  have alive: "pk_crashed s = None" using Cons.prems(3) run_crashed [of s X L C r "act # acts"] by force
  obtain ph1 where 1: "i < length (pk_tasks ?s)" "pk_tasks ?s ! i = (data, client, ph1)"
      "steps_left ph1 \<le> steps_left ph - (if own i act then 1 else 0)"
    using packets_next_left [OF Cons.prems(1,2) alive] by blast
  from Cons.IH [OF 1(1,2)] Cons.prems(3) obtain ph' where
    "pk_tasks (packets_run X L C r ?s acts) ! i = (data, client, ph')"
    "steps_left ph' \<le> steps_left ph1 - length (filter (own i) acts)" by auto
  then show ?case using 1(3) by (intro exI [of _ ph']) (auto split: if_splits)
qed simp

lemma steps_left_le: "steps_left ph \<le> 7" and steps_left_0: "steps_left ph = 0 \<longleftrightarrow> ph = Finished"
  by (cases ph; simp)+

text \<open>What the process can have died of: the packets, and the schedule's upstream states and readings\<close>

definition died_of ::
    "dns_codec \<Rightarrow> ('u, 'c) resolver \<Rightarrow> ('u \<times> readings) set \<Rightarrow> (bytes \<times> 'a \<times> task_phase) list \<Rightarrow> panic \<Rightarrow> bool" where
  "died_of C r E tasks p \<longleftrightarrow>
     (\<exists>(data, client, ph) \<in> set tasks. fatal (cd_DecodeQuery C data) = Panic p)
     \<or> (\<exists>(u, rd) \<in> E. \<exists>q. fatal (resolveFromZone r rd u q) = Panic p \<or> snd (resolveUpstream r u q (rd_now rd)) = Panic p)
     \<or> (\<exists>clk resp. cd_EncodeResponse C clk resp = Panic p)"

lemma task_next_panics:
  assumes "task_next X L C r data u rd clk ph c = (Panics p, ph', d)"
  shows "fatal (cd_DecodeQuery C data) = Panic p
    \<or> (\<exists>q. fatal (resolveFromZone r rd u q) = Panic p \<or> snd (resolveUpstream r u q (rd_now rd)) = Panic p)
    \<or> (\<exists>resp. cd_EncodeResponse C clk resp = Panic p)"
  using assms by (cases ph) (auto split: outcome.splits prod.splits if_splits option.splits)

lemma packets_next_died:
  assumes "pk_crashed s = Some p \<longrightarrow> died_of C r E (pk_tasks s) p" and "used [act] \<subseteq> E"
  shows "pk_crashed (packets_next X L C r s act) = Some p \<longrightarrow> died_of C r E (pk_tasks (packets_next X L C r s act)) p"
proof (cases act)
  case (Arrives data client)
  then show ?thesis using assms(1) by (auto simp: died_of_def)
next
  case (Steps i u rd clk)
  show ?thesis
  proof (cases "pk_crashed s \<noteq> None \<or> length (pk_tasks s) \<le> i")
    case True
    then show ?thesis using assms(1) Steps by simp
  next
    case False
    obtain data client ph where t: "pk_tasks s ! i = (data, client, ph)" by (metis prod_cases3)
    obtain ev ph' d where n: "task_next X L C r data u rd clk ph (pk_cache s) = (ev, ph', d)" by (metis prod_cases3)
    have mem: "(data, client, ph') \<in> set ((pk_tasks s)[i := (data, client, ph')])"
      using False by (simp add: set_update_memI)
    have E: "(u, rd) \<in> E" using assms(2) Steps by (auto simp: used_def)
    have "died_of C r E ((pk_tasks s)[i := (data, client, ph')]) p" if "ev = Panics p"
      using task_next_panics [OF n [unfolded that]] mem E unfolding died_of_def by blast
    then show ?thesis using Steps False t n by (auto simp: task_step_def split: task_event.splits)
  qed
qed

lemma packets_run_died:
  assumes "pk_crashed s = None"
  shows "pk_crashed (packets_run X L C r s acts) = Some p \<longrightarrow>
    died_of C r (used acts) (pk_tasks (packets_run X L C r s acts)) p"
proof (rule packets_run_invariant)
  show "pk_crashed s = Some p \<longrightarrow> died_of C r (used acts) (pk_tasks s) p" using assms by simp
qed (rule packets_next_died, auto simp: used_def)

text \<open>
  C21. A goroutine is at its end after seven steps of its own, whatever the others do in
  between, however many packets arrive, and from whatever point of its packet: no step waits
  for another goroutine, and none of its loops goes round again. Only the death of the process
  can prevent it, and the process dies only of a packet on which the decoder panics or does
  not return, or of a panic of the zone lookup, of the upstream client or of the encoder.
\<close>

theorem goroutines_end:
  assumes "pk_crashed s = None" and "i < length (pk_tasks s)" and "pk_tasks s ! i = (data, client, ph)"
    and "s' = packets_run X L C r s acts" and "7 \<le> length (filter (own i) acts)"
  shows "pk_tasks s' ! i = (data, client, Finished) \<or> (\<exists>p. pk_crashed s' = Some p \<and> died_of C r (used acts) (pk_tasks s') p)"
proof (cases "pk_crashed s'")
  case None
  then have "\<exists>ph'. pk_tasks s' ! i = (data, client, ph') \<and> steps_left ph' \<le> steps_left ph - length (filter (own i) acts)"
    using packets_run_left [OF assms(2,3)] assms(4) by simp
  then show ?thesis using assms(5) steps_left_le [of ph] steps_left_0 by (metis diff_is_0_eq le_trans le_zero_eq)
next
  case (Some p)
  then show ?thesis using packets_run_died [OF assms(1)] assms(4) by metis
qed

section \<open>An answer that is lost\<close>

text \<open>
  C20. The write-back of \<open>Get\<close> and \<open>Set\<close> are not ordered. A goroutine that fetched records
  of a key before another one stores a fresh answer under it overwrites that answer with
  what is left of the old records, or removes it when they had all expired; in the other
  order the fresh answer stays.
\<close>

theorem lost_update:
  assumes "lru_cache L ok view cap" and "ok (dc_lru (pk_cache s))" and "r_upstreamCache r = Some (dnscache_ops X L)"
    and "pk_crashed s = None" and "i < length (pk_tasks s)" and "j < length (pk_tasks s)" and "i \<noteq> j"
    and "pk_tasks s ! i = (data, client, Fetched q old)" and "pk_tasks s ! j = (data', client', Answered q' fresh)"
    and "fresh \<noteq> []" and "same_key X fresh" and "RR_CacheKey X (hd fresh) = Question_CacheKey X q"
    and "left = unexpired (rd_cache rd) 0 old"
  shows "view (dc_lru (pk_cache (packets_run X L C r s [Steps j u' rd' clk', Steps i u rd clk]))) (Question_CacheKey X q)
      = (if left = [] then None else Some left)
    \<and> view (dc_lru (pk_cache (packets_run X L C r s [Steps i u rd clk, Steps j u' rd' clk']))) (Question_CacheKey X q)
      = Some fresh"
proof -
  let ?k = "Question_CacheKey X q" and ?c = "pk_cache s"
  have set_fresh: "fst (cacheUpstreamResponse r c fresh) = c\<lparr>dc_lru := lru_Add L (dc_lru c) ?k fresh\<rparr>" for c
    using assms(3,10-12) by (simp add: cacheUpstreamResponse_def Set_Ret)
  note add = lru_cache.add [OF assms(1)]
  obtain e valid found where e: "cache_settle L ?c (rd_cache rd) ?k old = (e, valid, found)" by (metis prod_cases3)
  note e_law = lru_cache.settle_law [OF assms(1,2) e]
  let ?d = "?c\<lparr>dc_lru := lru_Add L (dc_lru ?c) ?k fresh\<rparr>"
  obtain f valid' found' where f: "cache_settle L ?d (rd_cache rd) ?k old = (f, valid', found')" by (metis prod_cases3)
  have "ok (dc_lru ?d)" using add [OF assms(2)] by simp
  note f_law = lru_cache.settle_law [OF assms(1) this f]
  have settle: "task_next X L C r data u rd clk (Fetched q old) c
      = (Silent, (if found then Responding (buildResponse q NOERROR valid) else Forwarding q), d)"
    if "cache_settle L c (rd_cache rd) ?k old = (d, valid, found)" for c d valid found
    using that by simp
  have "pk_cache (packets_run X L C r s [Steps j u' rd' clk', Steps i u rd clk]) = f"
    using assms(4-9) settle [OF f] by (simp add: task_step_def set_fresh del: task_next.simps(4))
  moreover have "pk_cache (packets_run X L C r s [Steps i u rd clk, Steps j u' rd' clk'])
      = e\<lparr>dc_lru := lru_Add L (dc_lru e) ?k fresh\<rparr>"
    using assms(4-9) settle [OF e] by (simp add: task_step_def set_fresh del: task_next.simps(4))
  ultimately show ?thesis
    using f_law assms(13) add [of "dc_lru e" ?k fresh] e_law by auto
qed

section \<open>Concrete runs\<close>

text \<open>An upstream whose state is the time and whose answers live ten nanoseconds\<close>

definition aging_up :: "time upstream_client" where
  "aging_up u q now = (u, Ret [sample_cached\<lparr>rr_expiresAt := Some (u + 10)\<rparr>])"

definition aging_resolver :: "(time, ref_lru dnsCache) resolver" where
  "aging_resolver = NewResolver None (Some aging_up) (Some (dnscache_ops sample_extern ref_lru)) None 8 None"

definition step_at :: "time \<Rightarrow> nat \<Rightarrow> (string, time) packet_act" where
  "step_at t i = Steps i t \<lparr>rd_alias = (\<lambda>_. t), rd_cache = (\<lambda>_. t), rd_now = t\<rparr> (\<lambda>_. t)"

definition ask_packet :: bytes where
  "ask_packet = [0, 7, 1, 0, 0, 1, 0, 0, 0, 0, 0, 0, 1, 0x61, 0, 0, 1, 0, 1]"

text \<open>
  At time 0 a first packet is answered and its answer stored. At time 20 two more packets
  arrive: one has fetched the stored answer, the other one has found it expired and has a
  fresh one.
\<close>

definition race :: "(string, time) packet_act list" where
  "race = Arrives ask_packet ''A'' # replicate 7 (step_at 0 0)
     @ Arrives ask_packet ''B'' # Arrives ask_packet ''C'' # replicate 3 (step_at 20 1) @ replicate 5 (step_at 20 2)"

definition race_state :: "(ref_lru, string) packets" where
  "race_state = packets_run sample_extern ref_lru (NewUDPCodec sample_extern) aging_resolver (packets_init sample_cache) race"

lemma aging_fields [simp]:
  "r_upstreamCache aging_resolver = Some (dnscache_ops sample_extern ref_lru)"
  "resolveFromZone aging_resolver rd u q = Some (Ret (u, [], False, None))" "checkBlocklist aging_resolver q = False"
  "resolveUpstream aging_resolver u q now = (u, Ret [sample_cached\<lparr>rr_expiresAt := Some (u + 10)\<rparr>])"
  "cacheUpstreamResponse aging_resolver c records = dnscache_Set sample_extern ref_lru c records"
  by (simp_all add: aging_resolver_def NewResolver_def resolveFromZone_def checkBlocklist_def resolveUpstream_def
      aging_up_def cacheUpstreamResponse_def)

lemma race_values:
  "DecodeQuery ask_packet = Some (Ret (ask ''a''))"
  "Question_CacheKey sample_extern (ask ''a'') = ''a|a|A|IN''"
  "RR_CacheKey sample_extern (sample_cached\<lparr>rr_expiresAt := e\<rparr>) = ''a|a|A|IN''"
  by (code_simp, code_simp, (simp add: RR_CacheKey_def, code_simp)?)

lemma race_reply:
  obtains b where "cd_EncodeResponse (NewUDPCodec sample_extern) (\<lambda>_. 0)
    (buildResponse (ask ''a'') NOERROR [sample_cached\<lparr>rr_expiresAt := Some 10\<rparr>]) = Ret b"
proof -
  have "is_ret (cd_EncodeResponse (NewUDPCodec sample_extern) (\<lambda>_. 0)
    (buildResponse (ask ''a'') NOERROR [sample_cached\<lparr>rr_expiresAt := Some 10\<rparr>]))" by code_simp
  then show ?thesis using that by (auto simp: is_ret_def split: outcome.splits)
qed

lemma eval_step:
  assumes "i < length ts" and "ts ! i = (data, client, ph)" and "task_next X L C r data u rd clk ph c = (ev, ph', d)"
    and "\<not> (\<exists>p. ev = Panics p)"
  shows "packets_run X L C r \<lparr>pk_cache = c, pk_tasks = ts, pk_sent = out, pk_crashed = None\<rparr> (Steps i u rd clk # acts)
    = packets_run X L C r \<lparr>pk_cache = d, pk_tasks = ts[i := (data, client, ph')],
        pk_sent = out @ (case ev of Writes b \<Rightarrow> [(b, client)] | _ \<Rightarrow> []), pk_crashed = None\<rparr> acts"
  using assms by (auto simp: task_step_def split: task_event.splits)

abbreviation aging_next ::
    "time \<Rightarrow> task_phase \<Rightarrow> ref_lru dnsCache \<Rightarrow> task_event \<times> task_phase \<times> ref_lru dnsCache" where
  "aging_next t \<equiv> task_next sample_extern ref_lru (NewUDPCodec sample_extern) aging_resolver ask_packet t
     \<lparr>rd_alias = (\<lambda>_. t), rd_cache = (\<lambda>_. t), rd_now = t\<rparr> (\<lambda>_. t)"

abbreviation aged :: "time \<Rightarrow> resource_record list" where
  "aged t \<equiv> [sample_cached\<lparr>rr_expiresAt := Some t\<rparr>]"

lemma aging_next:
  "aging_next t Received c = (Silent, Decoded (ask ''a''), c)"
  "aging_next t (Decoded (ask ''a'')) c = (Silent, Looking (ask ''a''), c)"
  "aging_next t Finished c = (Silent, Finished, c)"
  "aging_next t (Looking (ask ''a'')) \<lparr>dc_lru = (2, [])\<rparr> = (Silent, Forwarding (ask ''a''), \<lparr>dc_lru = (2, [])\<rparr>)"
  "aging_next t (Looking (ask ''a'')) \<lparr>dc_lru = (2, [(''a|a|A|IN'', rs)])\<rparr>
     = (Silent, Fetched (ask ''a'') rs, \<lparr>dc_lru = (2, [(''a|a|A|IN'', rs)])\<rparr>)"
  "e < t \<Longrightarrow> aging_next t (Fetched (ask ''a'') (aged e)) \<lparr>dc_lru = (2, [(''a|a|A|IN'', rs)])\<rparr>
     = (Silent, Forwarding (ask ''a''), \<lparr>dc_lru = (2, [])\<rparr>)"
  "aging_next t (Forwarding (ask ''a'')) c = (Silent, Answered (ask ''a'') (aged (t + 10)), c)"
  "aging_next t (Answered (ask ''a'') (aged e)) \<lparr>dc_lru = (2, [])\<rparr>
     = (Silent, Responding (buildResponse (ask ''a'') NOERROR (aged e)), \<lparr>dc_lru = (2, [(''a|a|A|IN'', aged e)])\<rparr>)"
  by (simp_all add: race_values cache_fetch_def cache_settle_def Set_Ret same_key_def drop_key_def IsExpired_def time_After_def)

lemma race_runs:
  "\<exists>b. race_state = \<lparr>pk_cache = \<lparr>dc_lru = (2, [])\<rparr>,
     pk_tasks = [(ask_packet, ''A'', Finished), (ask_packet, ''B'', Fetched (ask ''a'') (aged 10)),
       (ask_packet, ''C'', Answered (ask ''a'') (aged 30))],
     pk_sent = [(b, ''A'')], pk_crashed = None\<rparr>"
proof -
  obtain b where b: "cd_EncodeResponse (NewUDPCodec sample_extern) (\<lambda>_. 0)
    (buildResponse (ask ''a'') NOERROR (aged 10)) = Ret b" by (rule race_reply)
  have reply: "aging_next 0 (Responding (buildResponse (ask ''a'') 0 (aged 10))) c = (Writes b, Finished, c)" for c
    using b by simp
  show ?thesis
    by (rule exI [of _ b])
      (simp add: race_state_def race_def packets_init_def step_at_def sample_cache_def eval_step
        aging_next [unfolded numeral_2_eq_2] reply eval_nat_numeral del: packets_run_simps(2) task_next.simps packets_next.simps(2) add: packets_next.simps(1) packets_run_simps(2) [where act = "Arrives d a" for d a])
qed

lemma race_sent: "\<exists>b. pk_sent race_state = [(b, ''A'')]" and race_alive: "pk_crashed race_state = None"
proof -
  obtain b where s: "race_state = \<lparr>pk_cache = \<lparr>dc_lru = (2, [])\<rparr>,
     pk_tasks = [(ask_packet, ''A'', Finished), (ask_packet, ''B'', Fetched (ask ''a'') (aged 10)),
       (ask_packet, ''C'', Answered (ask ''a'') (aged 30))],
     pk_sent = [(b, ''A'')], pk_crashed = None\<rparr>" using race_runs by blast
  show "\<exists>b. pk_sent race_state = [(b, ''A'')]" "pk_crashed race_state = None" by (simp_all add: s)
qed

theorem lost_update_witness:
  "ref_view (dc_lru (pk_cache (packets_run sample_extern ref_lru (NewUDPCodec sample_extern) aging_resolver
      race_state [step_at 20 2, step_at 20 1]))) ''a|a|A|IN'' = None
   \<and> ref_view (dc_lru (pk_cache (packets_run sample_extern ref_lru (NewUDPCodec sample_extern) aging_resolver
      race_state [step_at 20 1, step_at 20 2]))) ''a|a|A|IN'' = Some (aged 30)"
proof -
  obtain b where s: "race_state = \<lparr>pk_cache = \<lparr>dc_lru = (2, [])\<rparr>,
     pk_tasks = [(ask_packet, ''A'', Finished), (ask_packet, ''B'', Fetched (ask ''a'') (aged 10)),
       (ask_packet, ''C'', Answered (ask ''a'') (aged 30))],
     pk_sent = [(b, ''A'')], pk_crashed = None\<rparr>" using race_runs by blast
  have left: "[] = unexpired (rd_cache \<lparr>rd_alias = \<lambda>_. 20, rd_cache = \<lambda>_. 20, rd_now = 20\<rparr>) 0 (aged 10)"
    by (simp add: IsExpired_def time_After_def)
  have i: "1 < length (pk_tasks race_state)" "2 < length (pk_tasks race_state)" "(1 :: nat) \<noteq> 2" by (simp_all add: s)
  have t: "pk_tasks race_state ! 1 = (ask_packet, ''B'', Fetched (ask ''a'') (aged 10))"
    "pk_tasks race_state ! 2 = (ask_packet, ''C'', Answered (ask ''a'') (aged 30))" by (simp_all add: s)
  have k: "aged 30 \<noteq> []" "same_key sample_extern (aged 30)"
    "RR_CacheKey sample_extern (hd (aged 30)) = Question_CacheKey sample_extern (ask ''a'')"
    by (simp_all add: same_key_def race_values)
  have "ref_inv (dc_lru (pk_cache race_state))" "pk_crashed race_state = None" by (simp_all add: s)
  from lost_update [OF ref.lru_cache_axioms this(1) aging_fields(1) this(2) i t k left,
      of "NewUDPCodec sample_extern" 20 "\<lparr>rd_alias = \<lambda>_. 20, rd_cache = \<lambda>_. 20, rd_now = 20\<rparr>" "\<lambda>_. 20" 20 "\<lambda>_. 20"]
  show ?thesis by (simp add: step_at_def race_values del: packets_run_simps)
qed

text \<open>The packets that raced, after the first one was answered\<close>

theorem concurrent_answers_witness:
  "(\<exists>b. pk_sent race_state = [(b, ''A'')]
      \<and> sent_from sample_extern (NewUDPCodec sample_extern) aging_resolver (used race) (pk_tasks race_state) b ''A'')
   \<and> dnscache_Len ref_lru (pk_cache race_state) \<le> 2"
proof -
  obtain b where "pk_sent race_state = [(b, ''A'')]" using race_sent by blast
  then show ?thesis
    using concurrent_answers [OF ref.lru_cache_axioms sample_New aging_fields(1) race_state_def] by simp
qed

theorem atomic_packet_refined_witness:
  "\<exists>v d n res. handlePacket mem_sockets \<lparr>ut_addr = '':53'', ut_conn = Some '':53'', ut_codec = NewUDPCodec sample_extern,
        ut_running = True, ut_stopped = False\<rparr> (\<lambda>_. 0) (app_responder sample_extern aging_resolver (\<lambda>_. sample_readings))
        ask_packet ''A'' ((0, sample_cache), empty_net) = (((v, d), n), res)
    \<and> pk_tasks (packets_run sample_extern ref_lru (NewUDPCodec sample_extern) aging_resolver (packets_init sample_cache)
        (Arrives ask_packet ''A'' # replicate 7 (Steps 0 0 sample_readings (\<lambda>_. 0)))) = [(ask_packet, ''A'', Finished)]
    \<and> (\<not> panics res \<longrightarrow> pk_cache (packets_run sample_extern ref_lru (NewUDPCodec sample_extern) aging_resolver
        (packets_init sample_cache) (Arrives ask_packet ''A'' # replicate 7 (Steps 0 0 sample_readings (\<lambda>_. 0)))) = d)"
proof -
  let ?t = "\<lparr>ut_addr = '':53'', ut_conn = Some '':53'', ut_codec = NewUDPCodec sample_extern,
        ut_running = True, ut_stopped = False\<rparr> :: string udp_transport"
  let ?s = "packets_next sample_extern ref_lru (NewUDPCodec sample_extern) aging_resolver (packets_init sample_cache)
     (Arrives ask_packet ''A'')"
  obtain v d n res where h: "handlePacket mem_sockets ?t (\<lambda>_. 0)
        (app_responder sample_extern aging_resolver (\<lambda>_. sample_readings)) ask_packet ''A'' ((0, sample_cache), empty_net)
      = (((v, d), n), res)" by (metis prod.collapse)
  have "ut_conn ?t = Some '':53''" "cached_by sample_extern ref_lru aging_resolver" "pk_crashed ?s = None"
    "pk_cache ?s = sample_cache" "0 < length (pk_tasks ?s)" "pk_tasks ?s ! 0 = (ask_packet, ''A'', Received)"
    by (simp_all add: cached_by_def packets_init_def)
  note at = this
  have "packets_run sample_extern ref_lru (NewUDPCodec sample_extern) aging_resolver (packets_init sample_cache)
        (Arrives ask_packet ''A'' # replicate 7 (Steps 0 0 sample_readings (\<lambda>_. 0)))
    = packets_run sample_extern ref_lru (ut_codec ?t) aging_resolver ?s (replicate 7 (Steps 0 0 sample_readings (\<lambda>_. 0)))"
    by simp
  moreover have "(pk_tasks ?s)[0 := (ask_packet, ''A'', Finished)] = [(ask_packet, ''A'', Finished)]"
    by (simp add: packets_init_def)
  ultimately show ?thesis using atomic_packet_refined [OF h at] h by metis
qed

theorem goroutines_end_witness:
  "pk_tasks (packets_run sample_extern ref_lru (NewUDPCodec sample_extern) aging_resolver (packets_init sample_cache) race) ! 0
     = (ask_packet, ''A'', Finished)"
proof -
  obtain acts where r: "race = Arrives ask_packet ''A'' # acts" by (simp add: race_def)
  let ?s = "packets_next sample_extern ref_lru (NewUDPCodec sample_extern) aging_resolver (packets_init sample_cache)
     (Arrives ask_packet ''A'')"
  have run: "race_state = packets_run sample_extern ref_lru (NewUDPCodec sample_extern) aging_resolver ?s acts"
    by (simp add: race_state_def r)
  have "7 \<le> length (filter (own 0) acts)" using r by (auto simp: race_def step_at_def)
  moreover have "pk_crashed ?s = None" "0 < length (pk_tasks ?s)" "pk_tasks ?s ! 0 = (ask_packet, ''A'', Received)"
    by (simp_all add: packets_init_def)
  ultimately show ?thesis using goroutines_end [OF _ _ _ run] race_alive by (simp add: race_state_def)
qed

text \<open>A packet for the zone of the sample application\<close>

definition zone_packet :: bytes where
  "zone_packet = [0, 7, 1, 0, 0, 1, 0, 0, 0, 0, 0, 0, 1, 0x77, 1, 0x61, 1, 0x62, 0, 0, 1, 0, 1]"

theorem responses_well_typed_witness:
  "\<exists>app :: (script, ref_lru, string) application. \<exists>c b resp clk.
     buildApplication sample_extern ref_lru sample_Load sample_walk script_dial sample_env sample_cfg = Ret app
     \<and> ap_cache app = Some c
     \<and> pk_sent (packets_run sample_extern ref_lru (NewUDPCodec sample_extern) (ap_resolver app) (packets_init c)
          (Arrives zone_packet ''A'' # replicate 3 (Steps 0 [] sample_readings zero_clk))) = [(b, ''A'')]
     \<and> Response_Validate resp = Ret () \<and> EncodeResponse clk resp = Ret b"
proof -
  let ?q = "\<lparr>q_ID = 7, q_Name = ''w.a.b'', q_Type = 1, q_Class = 1\<rparr>"
  obtain app :: "(script, ref_lru, string) application"
    where app: "buildApplication sample_extern ref_lru sample_Load sample_walk script_dial sample_env sample_cfg = Ret app"
    by (rule sample_app)
  have "\<not> cfg_DisableCache sample_cfg" by (simp add: sample_cfg_def DEFAULT_APP_CONFIG_def)
  then have "ap_cache app \<noteq> None" using buildApplication_Ret [OF app] by metis
  then obtain c where c: "ap_cache app = Some c" by auto
  obtain u where r: "ap_resolver app = NewResolver (Some Noop_IsBlocked) (Some (app_client sample_env u))
      (if cfg_DisableCache sample_cfg then None else Some (dnscache_ops sample_extern ref_lru))
      (Some (FindRecords sample_extern (put_zones sample_extern zonecache_New [(''a.b'', [sample_zone_rr])])))
      (cfg_MaxRecursion sample_cfg) None"
    using buildApplication_Ret [OF app] sample_zones by (metis outcome.inject(1))
  have dec: "DecodeQuery zone_packet = Some (Ret ?q)" by code_simp
  have find: "FindRecords sample_extern (put_zones sample_extern zonecache_New [(''a.b'', [sample_zone_rr])]) ?q
      = ([sample_zone_rr], True)" by code_simp
  have rz: "resolveFromZone (ap_resolver app) rd n ?q = Some (Ret (n, [sample_zone_rr], True, None))" for rd n
    by (simp add: r resolveFromZone_def NewResolver_def find)
  have "is_ret (EncodeResponse zero_clk (buildResponse ?q NOERROR [sample_zone_rr]))" by code_simp
  then obtain b where b: "EncodeResponse zero_clk (buildResponse ?q NOERROR [sample_zone_rr]) = Ret b"
    by (cases "EncodeResponse zero_clk (buildResponse ?q NOERROR [sample_zone_rr])") auto
  let ?next = "task_next sample_extern ref_lru (NewUDPCodec sample_extern) (ap_resolver app) zone_packet [] sample_readings zero_clk"
  have "?next Received c = (Silent, Decoded ?q, c)" "?next (Decoded ?q) c = (Silent, Responding (buildResponse ?q 0 [sample_zone_rr]), c)"
    "?next (Responding (buildResponse ?q 0 [sample_zone_rr])) c = (Writes b, Finished, c)"
    using b by (simp_all add: dec rz zone_response_def)
  then have sent: "pk_sent (packets_run sample_extern ref_lru (NewUDPCodec sample_extern) (ap_resolver app) (packets_init c)
        (Arrives zone_packet ''A'' # replicate 3 (Steps 0 [] sample_readings zero_clk))) = [(b, ''A'')]"
    by (simp add: packets_init_def eval_step eval_nat_numeral del: task_next.simps packets_next.simps(2) packets_run_simps(2)
        add: packets_run_simps(2) [where act = "Arrives d a" for d a])
  then have "(b, ''A'') \<in> set (pk_sent (packets_run sample_extern ref_lru (NewUDPCodec sample_extern) (ap_resolver app)
        (packets_init c) (Arrives zone_packet ''A'' # replicate 3 (Steps 0 [] sample_readings zero_clk))))" by simp
  from responses_well_typed [OF app c ref.lru_cache_axioms refl this] sent app c show ?thesis by blast
qed

end
