(* ===== verification/Process.thy ===== *)
theory Process
  imports App
begin

text \<open>
  The process of \<open>cmd/rr-dnsd/main.go\<close> from the moment the application is built: the main
  goroutine in \<open>Run\<close>, the goroutine that waits for a signal and cancels the context, the one
  that closes \<open>done\<close>, the signals and the shutdown timer, beside the goroutines of the
  transport (\<open>goroutine_step\<close>). When the main goroutine returns, the process and all its
  goroutines end. \<open>App\<close> has the same run as the function \<open>app_Run\<close>.
\<close>

section \<open>State and steps\<close>

definition defaultShutdownTimeout :: duration where
  "defaultShutdownTimeout = 10 * Second"

text \<open>
  The main goroutine: before \<open>Start\<close>, at \<open><-ctx.Done()\<close>, before \<open>Stop\<close>, at the last
  \<open>select\<close> (and whether \<open>done\<close> is closed), and the exit status; and the goroutine of the signals.
\<close>

datatype main_phase = Launching | Serving | Stopping | Ending bool | Exited nat

datatype watcher = Watching | Cancelling | Gone

text \<open>
  \<open>ps_signal\<close> is whether the channel \<open>sigChan\<close>, of capacity one, holds a signal; \<open>ps_now\<close> is
  the time, and \<open>ps_timer\<close> when the shutdown context expires, once \<open>Run\<close> has made it.
\<close>

record ('n, 'a, 's, 'h) process =
  ps_server :: "('n, 'a, 's, 'h) server"
  ps_main :: main_phase
  ps_signal :: bool
  ps_watcher :: watcher
  ps_now :: time
  ps_timer :: "time option"

definition process_init :: "('u, 'c, 's) application \<Rightarrow> time \<Rightarrow> 'n \<Rightarrow> 'h \<Rightarrow> ('n, 'a, 's, 'h) process" where
  "process_init app now n h =
     \<lparr>ps_server = \<lparr>sv_t = ap_transport app, sv_net = n, sv_done = False, sv_loops = 0, sv_reading = [],
        sv_packets = [], sv_handler = h, sv_crashed = None\<rparr>,
      ps_main = Launching, ps_signal = False, ps_watcher = Watching, ps_now = now, ps_timer = None\<rparr>"

definition alive :: "('n, 'a, 's, 'h) process \<Rightarrow> bool" where
  "alive s \<longleftrightarrow> sv_crashed (ps_server s) = None \<and> (\<forall>k. ps_main s \<noteq> Exited k)"

text \<open>\<open>Start\<close> and \<open>Stop\<close> as called by \<open>Run\<close>; a failed \<open>Start\<close> ends in \<open>log.Fatal\<close>.\<close>

definition run_start ::
    "('n, 'a, 's) udp_sockets \<Rightarrow> ('n, 'a, 's, 'h) process \<Rightarrow> ('n, 'a, 's, 'h) process" where
  "run_start S s =
     (case udp_Start S (sv_t (ps_server s)) (sv_net (ps_server s)) of
        (t, n, res) \<Rightarrow>
          s\<lparr>ps_server := (ps_server s)\<lparr>sv_t := t, sv_net := n,
              sv_loops := (if is_ret res then Suc (sv_loops (ps_server s)) else sv_loops (ps_server s)),
              sv_crashed := crashed_by res\<rparr>,
            ps_main := (case res of Ret _ \<Rightarrow> Serving | Err e \<Rightarrow> Exited 1 | Panic p \<Rightarrow> Launching)\<rparr>)"

definition run_stop ::
    "('n, 'a, 's) udp_sockets \<Rightarrow> ('n, 'a, 's, 'h) process \<Rightarrow> ('n, 'a, 's, 'h) process" where
  "run_stop S s =
     (case udp_Stop S (sv_t (ps_server s)) (sv_net (ps_server s)) of
        (t, n, res) \<Rightarrow>
          s\<lparr>ps_server := (ps_server s)\<lparr>sv_t := t, sv_net := n, sv_crashed := crashed_by res\<rparr>,
            ps_main := (case res of Panic p \<Rightarrow> Stopping | _ \<Rightarrow> Ending False)\<rparr>)"

text \<open>The steps of \<open>main\<close> and of the two goroutines it starts\<close>

inductive main_step ::
    "('n, 'a, 's) udp_sockets \<Rightarrow> ('n, 'a, 's, 'h) process \<Rightarrow> ('n, 'a, 's, 'h) process \<Rightarrow> bool" for S where
  launch: "\<lbrakk>alive s; ps_main s = Launching\<rbrakk> \<Longrightarrow> main_step S s (run_start S s)"
| receive: "\<lbrakk>alive s; ps_watcher s = Watching; ps_signal s\<rbrakk> \<Longrightarrow>
     main_step S s (s\<lparr>ps_signal := False, ps_watcher := Cancelling\<rparr>)"
| cancels: "\<lbrakk>alive s; ps_watcher s = Cancelling\<rbrakk> \<Longrightarrow>
     main_step S s (s\<lparr>ps_server := (ps_server s)\<lparr>sv_done := True\<rparr>, ps_watcher := Gone\<rparr>)"
| awake: "\<lbrakk>alive s; ps_main s = Serving; sv_done (ps_server s)\<rbrakk> \<Longrightarrow>
     main_step S s (s\<lparr>ps_main := Stopping, ps_timer := Some (time_Add (ps_now s) defaultShutdownTimeout)\<rparr>)"
| stops: "\<lbrakk>alive s; ps_main s = Stopping\<rbrakk> \<Longrightarrow> main_step S s (run_stop S s)"
| cleanup: "\<lbrakk>alive s; ps_main s = Ending False\<rbrakk> \<Longrightarrow> main_step S s (s\<lparr>ps_main := Ending True\<rparr>)"
| returns: "\<lbrakk>alive s; ps_main s = Ending True\<rbrakk> \<Longrightarrow> main_step S s (s\<lparr>ps_main := Exited 0\<rparr>)"

text \<open>
  What comes from outside: a signal (dropped when the channel is full), the passing of time,
  and the expiry of the shutdown context, which the last \<open>select\<close> may take.
\<close>

inductive outside_step :: "('n, 'a, 's, 'h) process \<Rightarrow> ('n, 'a, 's, 'h) process \<Rightarrow> bool" where
  signal: "alive s \<Longrightarrow> outside_step s (s\<lparr>ps_signal := True\<rparr>)"
| passes: "\<lbrakk>alive s; 0 \<le> d\<rbrakk> \<Longrightarrow> outside_step s (s\<lparr>ps_now := time_Add (ps_now s) d\<rparr>)"
| expires: "\<lbrakk>alive s; ps_main s = Ending b; ps_timer s = Some d; d \<le> ps_now s\<rbrakk> \<Longrightarrow>
     outside_step s (s\<lparr>ps_main := Exited 1\<rparr>)"

inductive process_step ::
    "('n, 'a, 's) udp_sockets \<Rightarrow> 'h dns_responder \<Rightarrow> ('n, 'a, 's, 'h) process \<Rightarrow> ('n, 'a, 's, 'h) process \<Rightarrow> bool"
  for S handler where
  own: "main_step S s t \<Longrightarrow> process_step S handler s t"
| outside: "outside_step s t \<Longrightarrow> process_step S handler s t"
| serve: "\<lbrakk>alive s; goroutine_step S handler (ps_server s) sv\<rbrakk> \<Longrightarrow>
     process_step S handler s (s\<lparr>ps_server := sv\<rparr>)"

inductive process_reach ::
    "('n, 'a, 's) udp_sockets \<Rightarrow> 'h dns_responder \<Rightarrow> ('n, 'a, 's, 'h) process \<Rightarrow> ('n, 'a, 's, 'h) process \<Rightarrow> bool"
  for S handler s0 where
  built: "process_reach S handler s0 s0"
| further: "\<lbrakk>process_reach S handler s0 s; process_step S handler s t\<rbrakk> \<Longrightarrow> process_reach S handler s0 t"

inductive_cases main_stepE: "main_step S s t"
inductive_cases outside_stepE: "outside_step s t"
inductive_cases process_stepE: "process_step S handler s t"

section \<open>The server of a process\<close>

text \<open>A process runs its server: each of its steps is a step of the server or none.\<close>

lemma run_start_control:
  assumes "sv_crashed (ps_server s) = None"
  shows "control_step S (ps_server s) (ps_server (run_start S s))"
proof -
  obtain t n res where "udp_Start S (sv_t (ps_server s)) (sv_net (ps_server s)) = (t, n, res)" by (metis prod_cases3)
  then show ?thesis using control_step.start [OF assms, of S t n res] by (simp add: run_start_def)
qed

lemma run_stop_control:
  assumes "sv_crashed (ps_server s) = None"
  shows "control_step S (ps_server s) (ps_server (run_stop S s))"
proof -
  obtain t n res where "udp_Stop S (sv_t (ps_server s)) (sv_net (ps_server s)) = (t, n, res)" by (metis prod_cases3)
  then show ?thesis using control_step.stop [OF assms, of S t n res] by (simp add: run_stop_def)
qed

lemma main_step_server:
  "main_step S s t \<Longrightarrow> ps_server t = ps_server s \<or> control_step S (ps_server s) (ps_server t)"
  by (induction rule: main_step.induct) (auto simp: alive_def intro: run_start_control run_stop_control control_step.cancel)

lemma process_step_server:
  assumes "process_step S handler s t"
  shows "ps_server t = ps_server s \<or> server_step S handler (ps_server s) (ps_server t)"
  using assms
proof cases
  case own
  then show ?thesis using main_step_server by (metis server_step.control)
next
  case outside
  then show ?thesis by (auto elim: outside_step.cases)
next
  case (serve sv)
  then show ?thesis by (simp add: server_step.goroutine)
qed

lemma process_server:
  "process_reach S handler s0 s \<Longrightarrow> server_reach S handler (ps_server s0) (ps_server s)"
proof (induction rule: process_reach.induct)
  case (further s t)
  then show ?case using process_step_server [OF further(2)] by (auto intro: server_reach.onward)
qed (rule server_reach.initially)

section \<open>Invariant\<close>

text \<open>
  What holds at each point of the main goroutine, for the transport \<open>t0\<close> and the network
  \<open>m\<close> the process began with: what \<open>Start\<close> and \<open>Stop\<close> did, in terms of their calls.
\<close>

context udp_network
begin

definition started :: "'s udp_transport \<Rightarrow> 'n \<Rightarrow> 's udp_transport \<Rightarrow> 'n \<Rightarrow> bool" where
  "started t0 m t n \<longleftrightarrow> udp_Start S t0 m = (t, n, Ret ())"

definition stopped_run :: "'s udp_transport \<Rightarrow> 'n \<Rightarrow> 's udp_transport \<Rightarrow> bool" where
  "stopped_run t0 m t \<longleftrightarrow> (\<exists>t1 n1 n2 n res. started t0 m t1 n1 \<and> opened n2 = opened n1
     \<and> udp_Stop S t1 n2 = (t, n, res) \<and> \<not> panics res)"

fun main_at :: "'s udp_transport \<Rightarrow> 'n \<Rightarrow> ('n, 'a, 's, 'h) server \<Rightarrow> main_phase \<Rightarrow> bool" where
  "main_at t0 m sv Launching = (sv_t sv = t0 \<and> sv_net sv = m \<and> pending sv = 0)"
| "main_at t0 m sv Serving = (\<exists>n. started t0 m (sv_t sv) n \<and> opened (sv_net sv) = opened n)"
| "main_at t0 m sv Stopping = (sv_done sv \<and> (\<exists>n. started t0 m (sv_t sv) n \<and> opened (sv_net sv) = opened n))"
| "main_at t0 m sv (Ending b) = (sv_done sv \<and> stopped_run t0 m (sv_t sv) \<and> \<not> ut_running (sv_t sv))"
| "main_at t0 m sv (Exited k) = (\<not> ut_running (sv_t sv)
     \<and> (k = 1 \<and> sv_t sv = t0 \<and> \<not> is_ret (snd (snd (udp_Start S t0 m))) \<or> k \<in> {0, 1} \<and> sv_done sv \<and> stopped_run t0 m (sv_t sv)))"

definition process_inv :: "'s udp_transport \<Rightarrow> 'n \<Rightarrow> ('n, 'a, 's, 'h) process \<Rightarrow> bool" where
  "process_inv t0 m s \<longleftrightarrow> server_inv (ps_server s) \<and> main_at t0 m (ps_server s) (ps_main s)
     \<and> \<not> (ut_running (sv_t (ps_server s)) \<and> ut_stopped (sv_t (ps_server s)))
     \<and> (sv_done (ps_server s) \<longleftrightarrow> ps_watcher s = Gone)
     \<and> (ps_main s = Exited 1 \<longrightarrow> \<not> is_ret (snd (snd (udp_Start S t0 m))) \<or> (\<exists>d. ps_timer s = Some d \<and> d \<le> ps_now s))"

lemma started_cases:
  assumes "started t0 m t n" and "\<not> ut_stopped t0"
  shows "ut_running t \<and> \<not> ut_stopped t"
  using Start_cases [of t0 m t n "Ret ()"] assms by (auto simp: started_def)

lemma goroutine_step_outside:
  assumes "goroutine_step S handler s s'"
  shows "sv_t s' = sv_t s \<and> sv_done s' = sv_done s \<and> opened (sv_net s') = opened (sv_net s) \<and> 0 < pending s"
  using assms
proof (induction rule: goroutine_step.induct)
  case (handle s ps data client qs clk h n res)
  then show ?case using handlePacket_opened [OF handle(3)] by (simp add: pending_def)
qed (auto simp: pending_def dest: read_opened)

lemma run_start_inv:
  assumes "process_inv t0 m s" and "\<not> ut_stopped t0" "\<not> ut_running t0" and "alive s" and "ps_main s = Launching"
  shows "process_inv t0 m (run_start S s) \<and> sv_crashed (ps_server (run_start S s)) = None"
proof -
  have l: "sv_t (ps_server s) = t0" "sv_net (ps_server s) = m" using assms(1,5) by (simp_all add: process_inv_def)
  obtain t n res where u: "udp_Start S t0 m = (t, n, res)" by (metis prod_cases3)
  have inv: "server_inv (ps_server (run_start S s))"
    using control_step_inv [OF run_start_control] assms(1,4) by (auto simp: process_inv_def alive_def)
  from Start_cases [OF u] show ?thesis
  proof (elim disjE conjE exE)
    fix conn assume "is_ret res" "t = t0\<lparr>ut_conn := Some conn, ut_running := True\<rparr>"
    then show ?thesis
      using inv assms(1,2) u by (cases res) (auto simp: run_start_def l process_inv_def started_def)
  next
    assume "\<not> is_ret res" "\<not> panics res" "t = t0"
    then show ?thesis
      using inv assms(1-3) u by (cases res) (auto simp: run_start_def l process_inv_def)
  qed
qed

lemma run_stop_inv:
  assumes "process_inv t0 m s" and "\<not> ut_stopped t0" and "alive s" and "ps_main s = Stopping"
  shows "process_inv t0 m (run_stop S s) \<and> sv_crashed (ps_server (run_stop S s)) = None"
proof -
  obtain n1 where n1: "started t0 m (sv_t (ps_server s)) n1" "opened (sv_net (ps_server s)) = opened n1"
    using assms(1,4) by (auto simp: process_inv_def)
  obtain t n res where u: "udp_Stop S (sv_t (ps_server s)) (sv_net (ps_server s)) = (t, n, res)" by (metis prod_cases3)
  have inv: "server_inv (ps_server (run_stop S s))"
    using control_step_inv [OF run_stop_control] assms(1,3) by (auto simp: process_inv_def alive_def)
  have st: "t = (sv_t (ps_server s))\<lparr>ut_stopped := True, ut_running := False\<rparr>" "\<not> panics res"
    using Stop_cases [OF u] started_cases [OF n1(1) assms(2)] by auto
  have "stopped_run t0 m t" unfolding stopped_run_def using n1 u st(2) by blast
  then show ?thesis
    using inv st assms(1,4) u by (cases res) (auto simp: run_stop_def process_inv_def)
qed

lemma process_step_inv:
  assumes "process_step S handler s s'" and "process_inv t0 m s" and "\<not> ut_stopped t0" "\<not> ut_running t0"
  shows "process_inv t0 m s'"
  using assms(1)
proof cases
  case own
  then show ?thesis
  proof cases
    case launch
    then show ?thesis using run_start_inv [OF assms(2-4)] by blast
  next
    case stops
    then show ?thesis using run_stop_inv [OF assms(2,3)] by blast
  next
    case cancels
    then show ?thesis using assms(2) by (cases "ps_main s") (auto simp: process_inv_def server_inv_def pending_def)
  qed (use assms(2) in \<open>auto simp: process_inv_def server_inv_def\<close>)
next
  case outside
  then show ?thesis using assms(2) by cases (auto simp: process_inv_def server_inv_def alive_def)
next
  case (serve sv)
  note g = goroutine_step_outside [OF serve(3)]
  have "server_inv sv" using goroutine_step_inv [OF serve(3)] assms(2) by (simp add: process_inv_def)
  moreover have "main_at t0 m sv (ps_main s)"
    using assms(2) g serve(2) by (cases "ps_main s") (auto simp: process_inv_def alive_def)
  ultimately show ?thesis using assms(2) g serve(1) by (simp add: process_inv_def)
qed

lemma process_reach_inv:
  assumes "process_reach S handler s0 s" and "process_inv t0 m s0" and "\<not> ut_stopped t0" "\<not> ut_running t0"
  shows "process_inv t0 m s"
  using assms by (induction rule: process_reach.induct) (auto intro: process_step_inv)

lemma process_init_inv:
  assumes "\<not> ut_running (ap_transport app)" "\<not> ut_stopped (ap_transport app)" and "opened m = {}"
  shows "process_inv (ap_transport app) m (process_init app now m h)"
  using assms by (simp add: process_inv_def process_init_def server_inv_def holds_def pending_def)

lemma run_of_exit:
  assumes "stopped_run t0 m t"
  shows "\<exists>meanwhile n res. (\<forall>x. opened (meanwhile x) = opened x)
    \<and> app_Run S meanwhile late t0 m = (t, n, res) \<and> (is_ret res \<longleftrightarrow> \<not> late)"
proof -
  obtain t1 n1 n2 n res where r: "udp_Start S t0 m = (t1, n1, Ret ())" "opened n2 = opened n1"
      "udp_Stop S t1 n2 = (t, n, res)" "\<not> panics res"
    using assms by (auto simp: stopped_run_def started_def)
  define meanwhile where "meanwhile x = (if opened x = opened n1 then n2 else x)" for x
  have "meanwhile n1 = n2" "\<forall>x. opened (meanwhile x) = opened x" using r(2) by (simp_all add: meanwhile_def)
  moreover have "\<exists>res. app_Run S meanwhile late t0 m = (t, n, res) \<and> (is_ret res \<longleftrightarrow> \<not> late)"
    using r \<open>meanwhile n1 = n2\<close> by (cases res) (auto simp: app_Run_def)
  ultimately show ?thesis by blast
qed

end

section \<open>How a process ends\<close>

lemma fresh_transport:
  "buildApplication X L Load walk dialer E cfg = Ret app \<Longrightarrow>
     \<not> ut_running (ap_transport app) \<and> \<not> ut_stopped (ap_transport app)"
  by (rule buildApplication_Ret) (auto simp: NewUDPTransport_def)

text \<open>
  C10. The process refines \<open>app_Run\<close>: whatever the goroutines, the signals and the timer did,
  a process that exits leaves the transport that a run of \<open>app_Run\<close> leaves, with the exit
  status that \<open>main\<close> gives to its result. Then the transport does not run and no socket is
  open. The status is 0 only after a signal cancelled the context, and 1
  only when the transport could not start or the shutdown context had expired.
\<close>

theorem process_refines_run:
  assumes "buildApplication X L Load walk dialer E cfg = Ret app" and "udp_network S opened" and "opened m = {}"
    and "process_reach S handler (process_init app now m h) s" and "ps_main s = Exited k"
  shows "\<not> ut_running (sv_t (ps_server s)) \<and> opened (sv_net (ps_server s)) = {} \<and> (k = 0 \<longrightarrow> ps_watcher s = Gone)
    \<and> (k = 1 \<longrightarrow> is_ret (snd (snd (udp_Start S (ap_transport app) m))) \<longrightarrow> (\<exists>d. ps_timer s = Some d \<and> d \<le> ps_now s))
    \<and> (\<exists>meanwhile late n res. (\<forall>x. opened (meanwhile x) = opened x)
        \<and> app_Run S meanwhile late (ap_transport app) m = (sv_t (ps_server s), n, res)
        \<and> k = (if is_ret res then 0 else 1))"
proof -
  note new = fresh_transport [OF assms(1)]
  note inv = udp_network.process_reach_inv [OF assms(2,4) udp_network.process_init_inv [OF assms(2)]]
  have s: "udp_network.process_inv S opened (ap_transport app) m s" using inv new assms(3) by blast
  note s = s [unfolded udp_network.process_inv_def [OF assms(2)] assms(5) udp_network.main_at.simps [OF assms(2)]]
  have "udp_network.holds opened (sv_t (ps_server s)) (sv_net (ps_server s))"
    using s by (simp add: udp_network.server_inv_def [OF assms(2)])
  then have shut: "\<not> ut_running (sv_t (ps_server s)) \<and> opened (sv_net (ps_server s)) = {}"
    using s by (simp add: udp_network.holds_def [OF assms(2)])
  have "(k = 0 \<longrightarrow> ps_watcher s = Gone)
    \<and> (\<exists>meanwhile late n res. (\<forall>x. opened (meanwhile x) = opened x)
        \<and> app_Run S meanwhile late (ap_transport app) m = (sv_t (ps_server s), n, res)
        \<and> k = (if is_ret res then 0 else 1))"
  proof (cases "sv_t (ps_server s) = ap_transport app \<and> k = 1 \<and> \<not> is_ret (snd (snd (udp_Start S (ap_transport app) m)))")
    case True
    obtain t n res where u: "udp_Start S (ap_transport app) m = (t, n, res)" by (metis prod_cases3)
    from udp_network.Start_cases [OF assms(2) u] u True
    have "\<exists>n res. app_Run S (\<lambda>x. x) False (ap_transport app) m = (ap_transport app, n, res) \<and> \<not> is_ret res"
      by (cases res) (auto simp: app_Run_def)
    then show ?thesis using True by (metis zero_neq_one)
  next
    case False
    then have f: "k \<in> {0, 1}" "sv_done (ps_server s)" "udp_network.stopped_run S opened (ap_transport app) m (sv_t (ps_server s))"
      using s by auto
    obtain meanwhile n res where "\<forall>x. opened (meanwhile x) = opened x"
        "app_Run S meanwhile (k = 1) (ap_transport app) m = (sv_t (ps_server s), n, res)" "is_ret res \<longleftrightarrow> k \<noteq> 1"
      using udp_network.run_of_exit [OF assms(2) f(3), of "k = 1"] by blast
    moreover from this f(1) have "k = (if is_ret res then 0 else 1)" by auto
    moreover have "ps_watcher s = Gone" using s f(2) by blast
    ultimately show ?thesis by blast
  qed
  with shut s show ?thesis by blast
qed

section \<open>A signal ends the process\<close>

text \<open>A signal has been delivered, and what the program's own goroutines still have to do\<close>

definition signalled :: "('n, 'a, 's, 'h) process \<Rightarrow> bool" where
  "signalled s \<longleftrightarrow> ps_signal s \<or> ps_watcher s \<noteq> Watching"

fun main_left :: "main_phase \<Rightarrow> nat" where
  "main_left Launching = 5"
| "main_left Serving = 4"
| "main_left Stopping = 3"
| "main_left (Ending b) = (if b then 1 else 2)"
| "main_left (Exited k) = 0"

fun watcher_left :: "watcher \<Rightarrow> nat" where
  "watcher_left Watching = 2"
| "watcher_left Cancelling = 1"
| "watcher_left Gone = 0"

definition to_exit :: "('n, 'a, 's, 'h) process \<Rightarrow> nat" where
  "to_exit s = main_left (ps_main s) + watcher_left (ps_watcher s)"

lemma run_start_fields [simp]:
  "ps_signal (run_start S s) = ps_signal s" "ps_watcher (run_start S s) = ps_watcher s"
  "ps_signal (run_stop S s) = ps_signal s" "ps_watcher (run_stop S s) = ps_watcher s"
  by (auto simp: run_start_def run_stop_def split: prod.splits)

lemma run_start_left:
  assumes "sv_crashed (ps_server (run_start S s)) = None" and "ps_main s = Launching"
  shows "main_left (ps_main (run_start S s)) < main_left (ps_main s)"
  using assms by (auto simp: run_start_def split: prod.splits outcome.splits)

lemma run_stop_left:
  assumes "sv_crashed (ps_server (run_stop S s)) = None" and "ps_main s = Stopping"
  shows "main_left (ps_main (run_stop S s)) < main_left (ps_main s)"
  using assms by (auto simp: run_stop_def split: prod.splits outcome.splits)

lemma main_step_left:
  assumes "main_step S s t" and "sv_crashed (ps_server t) = None"
  shows "to_exit t < to_exit s"
  using assms
proof cases
  case launch
  then show ?thesis using run_start_left [of S s] assms(2) by (simp add: to_exit_def)
next
  case stops
  then show ?thesis using run_stop_left [of S s] assms(2) by (simp add: to_exit_def)
qed (simp_all add: to_exit_def)

lemma process_step_left:
  assumes "process_step S handler s t" and "sv_crashed (ps_server t) = None" and "signalled s"
  shows "signalled t \<and> to_exit t \<le> to_exit s"
  using assms(1)
proof cases
  case own
  then have "signalled t" using assms(3) by cases (auto simp: signalled_def)
  then show ?thesis using main_step_left [OF own assms(2)] by simp
next
  case outside
  then show ?thesis using assms(3) by cases (auto simp: signalled_def to_exit_def)
next
  case serve
  then show ?thesis using assms(3) by (simp add: signalled_def to_exit_def)
qed

lemma main_step_enabled:
  assumes "alive s" and "signalled s" and "sv_done (ps_server s) \<longleftrightarrow> ps_watcher s = Gone"
  shows "\<exists>t. main_step S s t"
proof (cases "ps_watcher s")
  case Watching
  then show ?thesis using main_step.receive [OF assms(1)] assms(2) by (auto simp: signalled_def)
next
  case Cancelling
  then show ?thesis using main_step.cancels [OF assms(1)] by blast
next
  case Gone
  then have d: "sv_done (ps_server s)" using assms(3) by simp
  show ?thesis
  proof (cases "ps_main s")
    case Launching
    then show ?thesis using main_step.launch [OF assms(1)] by blast
  next
    case Serving
    then show ?thesis using main_step.awake [OF assms(1)] d by blast
  next
    case Stopping
    then show ?thesis using main_step.stops [OF assms(1)] by blast
  next
    case (Ending b)
    then show ?thesis using main_step.cleanup [OF assms(1)] main_step.returns [OF assms(1)] by (cases b) auto
  next
    case (Exited k)
    then show ?thesis using assms(1) by (simp add: alive_def)
  qed
qed

text \<open>
  C11. A signal ends the process. Once one is delivered, and until the process ends, the main
  goroutine or the one that waits for signals can take a step, and each such step comes
  closer to the exit, which at most seven of them separate it from; no step of the other
  goroutines, no further signal and no timer undoes any of this. None of the steps waits for
  the transport's goroutines.
\<close>

theorem signal_ends_process:
  assumes "buildApplication X L Load walk dialer E cfg = Ret app" and "udp_network S opened" and "opened m = {}"
    and "process_reach S handler (process_init app now m h) s" and "signalled s" and "alive s"
  shows "to_exit s \<le> 7 \<and> (\<exists>t. main_step S s t)
    \<and> (\<forall>t. main_step S s t \<longrightarrow> sv_crashed (ps_server t) = None \<and> to_exit t < to_exit s)
    \<and> (\<forall>t. process_step S handler s t \<longrightarrow> sv_crashed (ps_server t) = None \<longrightarrow> signalled t \<and> to_exit t \<le> to_exit s)"
proof -
  note new = fresh_transport [OF assms(1)]
  have inv: "udp_network.process_inv S opened (ap_transport app) m s"
    using udp_network.process_reach_inv [OF assms(2,4) udp_network.process_init_inv [OF assms(2)]] new assms(3) by blast
  have "sv_crashed (ps_server t) = None" if "main_step S s t" for t
    using that
  proof cases
    case launch
    then show ?thesis using udp_network.run_start_inv [OF assms(2) inv] new by simp
  next
    case stops
    then show ?thesis using udp_network.run_stop_inv [OF assms(2) inv] new by simp
  qed (use assms(6) in \<open>auto simp: alive_def\<close>)
  moreover have "to_exit s \<le> 7"
    by (cases "ps_main s"; cases "ps_watcher s") (simp_all add: to_exit_def)
  moreover have "\<exists>t. main_step S s t"
    using main_step_enabled [OF assms(6,5)] inv by (simp add: udp_network.process_inv_def [OF assms(2)])
  ultimately show ?thesis using main_step_left process_step_left [OF _ _ assms(5)] by blast
qed

section \<open>The packets that are lost\<close>

text \<open>The steps of the main goroutine from a cancelled context to the exit, alone\<close>

lemma run_stop_packets [simp]: "sv_packets (ps_server (run_stop S s)) = sv_packets (ps_server s)"
  by (simp add: run_stop_def split: prod.splits)

lemma exit_alone:
  assumes "alive s" and "ps_main s = Serving" and "sv_done (ps_server s)"
    and "sv_crashed (ps_server (run_stop S (s\<lparr>ps_main := Stopping,
      ps_timer := Some (time_Add (ps_now s) defaultShutdownTimeout)\<rparr>))) = None"
  shows "\<exists>t. (main_step S ^^ 4) s t \<and> ps_main t = Exited 0 \<and> sv_packets (ps_server t) = sv_packets (ps_server s)"
proof -
  let ?s1 = "s\<lparr>ps_main := Stopping, ps_timer := Some (time_Add (ps_now s) defaultShutdownTimeout)\<rparr>"
  let ?s2 = "run_stop S ?s1"
  have a1: "alive ?s1" using assms(1) by (simp add: alive_def)
  have m2: "ps_main ?s2 = Ending False" using assms(4) by (auto simp: run_stop_def split: prod.splits outcome.splits)
  have a2: "alive ?s2" using assms(4) m2 by (simp add: alive_def)
  let ?s3 = "?s2\<lparr>ps_main := Ending True\<rparr>"
  have a3: "alive ?s3" using a2 by (simp add: alive_def)
  have 1: "main_step S s ?s1" using main_step.awake [OF assms(1-3)] .
  have 2: "main_step S ?s1 ?s2" using main_step.stops [OF a1] by simp
  have 3: "main_step S ?s2 ?s3" using main_step.cleanup [OF a2 m2] .
  have 4: "main_step S ?s3 (?s3\<lparr>ps_main := Exited 0\<rparr>)" using main_step.returns [OF a3] by simp
  have "(main_step S ^^ 4) s (?s3\<lparr>ps_main := Exited 0\<rparr>)"
    using 1 2 3 4 by (auto simp: eval_nat_numeral)
  then show ?thesis by (intro exI [of _ "?s3\<lparr>ps_main := Exited 0\<rparr>"]) simp
qed

lemma exited_stays: "process_step S handler s t \<Longrightarrow> ps_main s \<noteq> Exited k"
  by (auto elim!: process_stepE main_stepE outside_stepE simp: alive_def)

lemma serving_exits:
  assumes "buildApplication X L Load walk dialer E cfg = Ret app" and "udp_network S opened" and "opened m = {}"
    and "process_reach S handler (process_init app now m h) s"
    and "alive s" and "ps_main s = Serving" and "sv_done (ps_server s)"
  shows "\<exists>t. (main_step S ^^ 4) s t \<and> ps_main t = Exited 0 \<and> sv_packets (ps_server t) = sv_packets (ps_server s)
    \<and> (\<forall>u. \<not> process_step S handler t u)"
proof -
  note new = fresh_transport [OF assms(1)]
  have inv: "udp_network.process_inv S opened (ap_transport app) m s"
    using udp_network.process_reach_inv [OF assms(2,4) udp_network.process_init_inv [OF assms(2)]] new assms(3) by blast
  let ?s = "s\<lparr>ps_main := Stopping, ps_timer := Some (time_Add (ps_now s) defaultShutdownTimeout)\<rparr>"
  have "alive ?s" using assms(5) by (simp add: alive_def)
  moreover have "udp_network.process_inv S opened (ap_transport app) m ?s"
    using inv assms(6,7) by (simp add: udp_network.process_inv_def [OF assms(2)] udp_network.main_at.simps [OF assms(2)])
  ultimately have "sv_crashed (ps_server (run_stop S ?s)) = None"
    using udp_network.run_stop_inv [OF assms(2), of "ap_transport app" m ?s] new by simp
  from exit_alone [OF assms(5-7) this] show ?thesis using exited_stays by blast
qed

text \<open>
  C22. \<open>Run\<close> does not wait for the packets in progress: from every state in which the context
  is cancelled while the server serves, four steps of the main goroutine end the process with
  status 0, with every packet that no goroutine had handled still unanswered.
\<close>

theorem shutdown_drops_packets:
  assumes "buildApplication X L Load walk dialer E cfg = Ret app" and "udp_network S opened" and "opened m = {}"
    and "process_reach S handler (process_init app now m h) s"
    and "alive s" and "ps_main s = Serving" and "sv_done (ps_server s)"
  shows "\<exists>t. (main_step S ^^ 4) s t \<and> ps_main t = Exited 0 \<and> sv_packets (ps_server t) = sv_packets (ps_server s)
    \<and> (\<forall>u. \<not> process_step S handler t u)"
  using assms by (rule serving_exits)

section \<open>What can end the process\<close>

text \<open>A packet came from a socket: the run went through a state in which a read returned it.\<close>

definition was_read ::
    "('n, 'a, 's) udp_sockets \<Rightarrow> 'h dns_responder \<Rightarrow> ('n, 'a, 's, 'h) process \<Rightarrow> ('n, 'a, 's, 'h) process \<Rightarrow>
     bytes \<times> 'a \<Rightarrow> bool" where
  "was_read S handler s0 s pk \<longleftrightarrow>
     (\<exists>s1 conn m. process_reach S handler s0 s1 \<and> sk_ReadFromUDP S conn 512 (sv_net (ps_server s1)) = (m, Ret pk)
        \<and> process_reach S handler s1 s)"

lemma was_read_further: "was_read S handler s0 s pk \<Longrightarrow> process_step S handler s t \<Longrightarrow> was_read S handler s0 t pk"
  unfolding was_read_def by (metis process_reach.further)

lemma main_step_packets: "main_step S s t \<Longrightarrow> sv_packets (ps_server t) = sv_packets (ps_server s)"
  by (induction rule: main_step.induct) (auto simp: run_start_def run_stop_def split: prod.splits)

lemma waiting_was_read:
  assumes "process_reach S handler s0 s" and "sv_packets (ps_server s0) = []" and "pk \<in> set (sv_packets (ps_server s))"
  shows "was_read S handler s0 s pk"
  using assms
proof (induction rule: process_reach.induct)
  case (further s t)
  from further(2) have "pk \<in> set (sv_packets (ps_server s)) \<or> (\<exists>conn m. sk_ReadFromUDP S conn 512 (sv_net (ps_server s)) = (m, Ret pk))"
  proof cases
    case own
    then show ?thesis using further.prems(2) main_step_packets by metis
  next
    case outside
    then show ?thesis using further.prems(2) by (auto elim: outside_step.cases)
  next
    case (serve sv)
    then show ?thesis using further.prems(2) goroutine_step_packets [OF serve(3), of pk] by simp
  qed
  then show ?case
  proof
    assume "pk \<in> set (sv_packets (ps_server s))"
    then show ?thesis using was_read_further further by blast
  next
    assume "\<exists>conn m. sk_ReadFromUDP S conn 512 (sv_net (ps_server s)) = (m, Ret pk)"
    then show ?thesis
      unfolding was_read_def using further(1) process_reach.further [OF process_reach.built further(2)] by blast
  qed
qed simp

text \<open>The last step of a process that died is that of a packet.\<close>

lemma process_crash_cases:
  assumes net: "udp_network S opened" and app: "\<not> ut_running (ap_transport app)" "\<not> ut_stopped (ap_transport app)"
    and "ut_codec (ap_transport app) = NewUDPCodec X" and "opened m = {}"
    and reach: "process_reach S handler (process_init app now m h) s" and crash: "sv_crashed (ps_server s) = Some p"
  obtains s1 data client where "process_reach S handler (process_init app now m h) s1" and "alive s1"
    and "s = s1\<lparr>ps_server := ps_server s\<rparr>" and "killed_by handler (ps_server s1) (ps_server s) data client p"
  using reach
proof cases
  case built
  then show ?thesis using crash by (simp add: process_init_def)
next
  case (further s1)
  have inv: "udp_network.process_inv S opened (ap_transport app) m s1"
    using udp_network.process_reach_inv [OF net further(1) udp_network.process_init_inv [OF net app]] app assms(5) by blast
  have "ut_codec (sv_t (ps_server s1)) = NewUDPCodec X"
    using udp_network.server_reach_codec [OF net process_server [OF further(1)]] assms(4) by (simp add: process_init_def)
  note codec = this
  from further(2) show ?thesis
  proof cases
    case own
    then show ?thesis
    proof cases
      case launch
      then show ?thesis using udp_network.run_start_inv [OF net inv app(2,1)] crash by simp
    next
      case stops
      then show ?thesis using udp_network.run_stop_inv [OF net inv app(2)] crash by simp
    qed (use crash in \<open>simp_all add: alive_def\<close>)
  next
    case outside
    then show ?thesis using crash by cases (simp_all add: alive_def)
  next
    case (serve sv)
    then have "sv_crashed sv = Some p" using crash by simp
    from udp_network.goroutine_step_crash [OF net serve(3) codec this] obtain data client
      where "killed_by handler (ps_server s1) sv data client p" by metis
    then show ?thesis using that [OF further(1) serve(2)] serve(1) by simp
  qed
qed

text \<open>
  C9. What can end a running server early. Over sockets and a network whose own calls do not
  panic, when the process of a built application has died of a panic, its last step was that
  of a packet which a read of the run had returned, and nothing but the server changed in it.
  Either the decoder does not return on this packet, and the panic is a stack overflow; or the
  packet decodes to a question that the zone files do not answer, and from the state the
  network had at this step the calls of the upstream client lead to a read of a datagram on
  which, under the ID of this question, the decoder panics or does not return. No signal, no
  step of the shutdown, no packet that does not decode and no question about a zone of the
  server ends it.
\<close>

theorem process_dies_only_of:
  assumes "buildApplication X L Load walk dialer E cfg = Ret app"
    and "udp_network S opened" and "opened m = {}"
    and "\<forall>ctx net srv n. \<not> panics (snd (dialer ctx net srv n))"
    and "\<forall>conn k n. \<not> panics (snd (nc_Read (ce_net E) conn k n))"
    and "process_reach S (app_service X (ap_resolver app) rds) (process_init app now m h) s"
    and "sv_crashed (ps_server s) = Some p"
  shows "\<exists>s1 data client n c k.
      process_reach S (app_service X (ap_resolver app) rds) (process_init app now m h) s1 \<and> alive s1
    \<and> s = s1\<lparr>ps_server := ps_server s\<rparr>
    \<and> was_read S (app_service X (ap_resolver app) rds) (process_init app now m h) s1 (data, client)
    \<and> (\<exists>ps qs. sv_packets (ps_server s1) = ps @ (data, client) # qs \<and> sv_packets (ps_server s) = ps @ qs)
    \<and> sv_handler (ps_server s1) = ((n, c), k)
    \<and> ((p = StackOverflow \<and> DecodeQuery data = None)
       \<or> (\<exists>q. DecodeQuery data = Some (Ret q) \<and> \<not> zone_has (ap_resolver app) q
            \<and> fatal_reply X (ce_net E) (app_upstream dialer cfg (NewUDPCodec X)) n q (rd_now (rds k)) p))"
proof -
  let ?H = "app_service X (ap_resolver app) rds"
  have "ut_codec (ap_transport app) = NewUDPCodec X"
    using buildApplication_Ret [OF assms(1)] by (metis NewUDPTransport_def udp_transport.select_convs(3))
  from process_crash_cases [OF assms(2) _ _ this assms(3,6,7)] fresh_transport [OF assms(1)] obtain s1 data client
    where s1: "process_reach S ?H (process_init app now m h) s1" "alive s1" "s = s1\<lparr>ps_server := ps_server s\<rparr>"
      and k: "killed_by ?H (ps_server s1) (ps_server s) data client p" by metis
  obtain n c j where h: "sv_handler (ps_server s1) = ((n, c), j)" by (metis surj_pair)
  have "\<not> zone_has (ap_resolver app) q \<and> fatal_reply X (ce_net E) (app_upstream dialer cfg (NewUDPCodec X)) n q (rd_now (rds j)) p"
    if "?H ((n, c), j) q = (h', Panic p)" for q h'
    using that app_query_dies [OF assms(1,4,5), of "\<lambda>_. rds j" n c q] by (auto simp: app_service_def split: prod.splits)
  then have "(p = StackOverflow \<and> DecodeQuery data = None)
     \<or> (\<exists>q. DecodeQuery data = Some (Ret q) \<and> \<not> zone_has (ap_resolver app) q
          \<and> fatal_reply X (ce_net E) (app_upstream dialer cfg (NewUDPCodec X)) n q (rd_now (rds j)) p)"
    using k h unfolding killed_by_def by metis
  moreover have "was_read S ?H (process_init app now m h) s1 (data, client)"
    using waiting_was_read [OF s1(1)] k by (auto simp: killed_by_def process_init_def)
  ultimately show ?thesis using s1 h k unfolding killed_by_def by blast
qed

section \<open>Concrete runs\<close>

text \<open>The sample application with one datagram on its way, until the packet waits for its goroutine\<close>

definition sample_service ::
    "(script, ref_lru, string) application \<Rightarrow> ((script \<times> ref_lru dnsCache) \<times> nat) dns_responder" where
  "sample_service app = app_service sample_extern (ap_resolver app) (\<lambda>_. sample_readings)"

abbreviation sample_run ::
    "(script, ref_lru, string) application \<Rightarrow> bytes \<Rightarrow>
     (mem_net, string, string, (script \<times> ref_lru dnsCache) \<times> nat) process \<Rightarrow> bool" where
  "sample_run app data \<equiv> process_reach mem_sockets (sample_service app)
     (process_init app 0 ([], [(data, ''A'')], []) (([], sample_cache), 0))"

lemma sample_signalled:
  assumes app: "buildApplication sample_extern ref_lru sample_Load sample_walk script_dial sample_env sample_cfg
    = (Ret app :: (script, ref_lru, string) application outcome)" and size: "length data \<le> 512"
  obtains s where "sample_run app data s" and "alive s" and "ps_main s = Serving" and "ps_signal s"
    and "ps_watcher s = Watching" and "sv_packets (ps_server s) = [(data, ''A'')]"
    and "ut_codec (sv_t (ps_server s)) = NewUDPCodec sample_extern"
proof -
  let ?H = "sample_service app"
  obtain addr where addr: "addr \<noteq> ([] :: string)" and t: "ap_transport app = NewUDPTransport addr (NewUDPCodec sample_extern)"
    using buildApplication_Ret [OF app] by (metis Nil_is_append_conv not_Cons_self2)
  let ?t = "NewUDPTransport addr (NewUDPCodec sample_extern) :: string udp_transport"
  define s0 :: "(mem_net, string, string, (script \<times> ref_lru dnsCache) \<times> nat) process"
    where "s0 = process_init app 0 ([], [(data, ''A'')], []) (([], sample_cache), 0)"
  define s1 where "s1 = run_start mem_sockets s0"
  have s0: "alive s0" "ps_main s0 = Launching" by (simp_all add: s0_def process_init_def alive_def)
  have start: "udp_Start mem_sockets ?t ([], [(data, ''A'')], [])
      = (?t\<lparr>ut_conn := Some addr, ut_running := True\<rparr>, ([addr], [(data, ''A'')], []), Ret ())"
    using addr by (simp add: udp_Start_def NewUDPTransport_def mem_sockets_def mem_Resolve_def)
  have s1: "ps_server s1 = \<lparr>sv_t = ?t\<lparr>ut_conn := Some addr, ut_running := True\<rparr>,
      sv_net = ([addr], [(data, ''A'')], []), sv_done = False, sv_loops = 1, sv_reading = [], sv_packets = [],
      sv_handler = (([], sample_cache), 0), sv_crashed = None\<rparr>"
    "ps_main s1 = Serving" "\<not> ps_signal s1" "ps_watcher s1 = Watching"
    by (simp_all add: s1_def s0_def process_init_def run_start_def t start)
  let ?v2 = "(ps_server s1)\<lparr>sv_loops := 0, sv_reading := [Some addr]\<rparr>"
  have g1: "goroutine_step mem_sockets ?H (ps_server s1) ?v2"
    using goroutine_step.select_reads [where s = "ps_server s1" and S = mem_sockets and handler = ?H and k = 0]
    by (simp add: s1 listen_select_def NewUDPTransport_def)
  let ?v3 = "?v2\<lparr>sv_net := ([addr], [], []), sv_reading := [], sv_loops := 1, sv_packets := [(data, ''A'')]\<rparr>"
  have "listen_read mem_sockets (sv_t ?v2) (Some addr) (sv_net ?v2) = (([addr], [], []), Ret (LoopPacket data ''A''))"
    using size by (simp add: s1 listen_read_def mem_sockets_def)
  then have g2: "goroutine_step mem_sockets ?H ?v2 ?v3"
    using goroutine_step.read_packet [where s = ?v2 and S = mem_sockets and handler = ?H and cs = "[]" and conn = "Some addr"
        and ds = "[]"] by (simp add: s1)
  have a: "alive s1" "alive (s1\<lparr>ps_server := ?v2\<rparr>)" "alive (s1\<lparr>ps_server := ?v3\<rparr>)" by (simp_all add: alive_def s1 NewUDPTransport_def)
  have p1: "process_step mem_sockets ?H s0 s1"
    unfolding s1_def using process_step.own [OF main_step.launch [OF s0]] .
  have p2: "process_step mem_sockets ?H s1 (s1\<lparr>ps_server := ?v2\<rparr>)"
    using process_step.serve [OF a(1) g1] .
  have p3: "process_step mem_sockets ?H (s1\<lparr>ps_server := ?v2\<rparr>) (s1\<lparr>ps_server := ?v3\<rparr>)"
    using process_step.serve [OF a(2), of mem_sockets ?H ?v3] g2 by simp
  have p4: "process_step mem_sockets ?H (s1\<lparr>ps_server := ?v3\<rparr>) (s1\<lparr>ps_server := ?v3, ps_signal := True\<rparr>)"
    using process_step.outside [OF outside_step.signal [OF a(3)]] by simp
  have "sample_run app data (s1\<lparr>ps_server := ?v3, ps_signal := True\<rparr>)"
    using process_reach.further [OF process_reach.further [OF process_reach.further [OF
        process_reach.further [OF process_reach.built p1] p2] p3] p4] unfolding s0_def .
  then show ?thesis by (rule that) (simp_all add: alive_def s1 NewUDPTransport_def)
qed

lemma sample_cancelled:
  assumes app: "buildApplication sample_extern ref_lru sample_Load sample_walk script_dial sample_env sample_cfg
    = (Ret app :: (script, ref_lru, string) application outcome)" and size: "length data \<le> 512"
  obtains s where "sample_run app data s" and "alive s" and "ps_main s = Serving" and "sv_done (ps_server s)"
    and "sv_packets (ps_server s) = [(data, ''A'')]"
proof -
  obtain s where s: "sample_run app data s" "alive s" "ps_main s = Serving" "ps_signal s" "ps_watcher s = Watching"
      "sv_packets (ps_server s) = [(data, ''A'')]"
    by (rule sample_signalled [OF app size]) blast
  let ?s1 = "s\<lparr>ps_signal := False, ps_watcher := Cancelling\<rparr>"
  let ?s2 = "?s1\<lparr>ps_server := (ps_server s)\<lparr>sv_done := True\<rparr>, ps_watcher := Gone\<rparr>"
  have 1: "main_step mem_sockets s ?s1" using main_step.receive [OF s(2,5,4)] .
  have a: "alive ?s1" using s(2) by (simp add: alive_def)
  have 2: "main_step mem_sockets ?s1 ?s2" using main_step.cancels [OF a] by simp
  have "sample_run app data ?s2"
    using process_reach.further [OF process_reach.further [OF s(1) process_step.own [OF 1]] process_step.own [OF 2]] .
  then show ?thesis by (rule that) (use s in \<open>simp_all add: alive_def\<close>)
qed

lemma main_steps_reach:
  assumes "process_reach S handler s0 s" and "(main_step S ^^ k) s t"
  shows "process_reach S handler s0 t"
  using assms(2)
proof (induction k arbitrary: t)
  case (Suc k)
  then obtain u where "(main_step S ^^ k) s u" "main_step S u t" by auto
  with Suc show ?case by (metis process_reach.further process_step.own)
qed (use assms(1) in simp)

lemma mem_none: "mem_opened ([], ib, ob) = {}"
  by (simp add: mem_opened_def)

theorem signal_ends_process_witness:
  "\<exists>app s. buildApplication sample_extern ref_lru sample_Load sample_walk script_dial sample_env sample_cfg
      = (Ret app :: (script, ref_lru, string) application outcome)
    \<and> sample_run app [1, 2, 3] s \<and> sv_packets (ps_server s) \<noteq> [] \<and> to_exit s = 6 \<and> (\<exists>t. main_step mem_sockets s t \<and> to_exit t < 6)"
proof -
  obtain app :: "(script, ref_lru, string) application"
    where app: "buildApplication sample_extern ref_lru sample_Load sample_walk script_dial sample_env sample_cfg = Ret app"
    by (rule sample_app)
  have size: "length [1, 2, 3 :: 8 word] \<le> 512" by simp
  obtain s where s: "sample_run app [1, 2, 3] s" "alive s" "ps_main s = Serving" "ps_signal s" "ps_watcher s = Watching"
      "sv_packets (ps_server s) = [([1, 2, 3], ''A'')]"
    by (rule sample_signalled [OF app size]) blast
  have "signalled s" using s(4) by (simp add: signalled_def)
  moreover have "to_exit s = 6" using s(3,5) by (simp add: to_exit_def)
  ultimately have "\<exists>t. main_step mem_sockets s t \<and> to_exit t < 6"
    using signal_ends_process [OF app mem.udp_network_axioms mem_none s(1) _ s(2)] by metis
  then show ?thesis using app s \<open>to_exit s = 6\<close> by (intro exI [of _ app] exI [of _ s]) simp
qed

theorem shutdown_drops_packets_witness:
  "\<exists>app s t. buildApplication sample_extern ref_lru sample_Load sample_walk script_dial sample_env sample_cfg
      = (Ret app :: (script, ref_lru, string) application outcome)
    \<and> sample_run app [1, 2, 3] s \<and> (main_step mem_sockets ^^ 4) s t \<and> ps_main t = Exited 0
    \<and> sv_packets (ps_server t) = [([1, 2, 3], ''A'')]"
proof -
  obtain app :: "(script, ref_lru, string) application"
    where app: "buildApplication sample_extern ref_lru sample_Load sample_walk script_dial sample_env sample_cfg = Ret app"
    by (rule sample_app)
  have size: "length [1, 2, 3 :: 8 word] \<le> 512" by simp
  obtain s where s: "sample_run app [1, 2, 3] s" "alive s" "ps_main s = Serving" "sv_done (ps_server s)"
      "sv_packets (ps_server s) = [([1, 2, 3], ''A'')]"
    by (rule sample_cancelled [OF app size])
  from shutdown_drops_packets [OF app mem.udp_network_axioms mem_none s(1-4)] show ?thesis using app s(1,5) by metis
qed

theorem process_refines_run_witness:
  "\<exists>app s meanwhile late n res. buildApplication sample_extern ref_lru sample_Load sample_walk script_dial sample_env sample_cfg
      = (Ret app :: (script, ref_lru, string) application outcome)
    \<and> sample_run app [1, 2, 3] s \<and> ps_main s = Exited 0 \<and> is_ret res
    \<and> app_Run mem_sockets meanwhile late (ap_transport app) ([], [([1, 2, 3], ''A'')], []) = (sv_t (ps_server s), n, res)"
proof -
  obtain app :: "(script, ref_lru, string) application"
    where app: "buildApplication sample_extern ref_lru sample_Load sample_walk script_dial sample_env sample_cfg = Ret app"
    by (rule sample_app)
  have size: "length [1, 2, 3 :: 8 word] \<le> 512" by simp
  obtain s where s: "sample_run app [1, 2, 3] s" "alive s" "ps_main s = Serving" "sv_done (ps_server s)"
      "sv_packets (ps_server s) = [([1, 2, 3], ''A'')]"
    by (rule sample_cancelled [OF app size])
  obtain t where t: "(main_step mem_sockets ^^ 4) s t" "ps_main t = Exited 0"
    using serving_exits [OF app mem.udp_network_axioms mem_none s(1-4)] by blast
  have "sample_run app [1, 2, 3] t" using main_steps_reach [OF s(1) t(1)] .
  with process_refines_run [OF app mem.udp_network_axioms mem_none this t(2)] show ?thesis
    using app t(2) by (metis zero_neq_one)
qed

theorem process_dies_only_of_witness:
  "\<exists>app s. buildApplication sample_extern ref_lru sample_Load sample_walk script_dial sample_env sample_cfg
      = (Ret app :: (script, ref_lru, string) application outcome)
    \<and> sample_run app [0, 1, 1, 0, 0, 1, 0, 0, 0, 0, 0, 0, 0xC0, 0x0C] s
    \<and> sv_crashed (ps_server s) = Some StackOverflow
    \<and> (\<exists>s1 data client. sample_run app [0, 1, 1, 0, 0, 1, 0, 0, 0, 0, 0, 0, 0xC0, 0x0C] s1 \<and> alive s1
         \<and> was_read mem_sockets (sample_service app)
             (process_init app 0 ([], [([0, 1, 1, 0, 0, 1, 0, 0, 0, 0, 0, 0, 0xC0, 0x0C], ''A'')], []) (([], sample_cache), 0))
             s1 (data, client))"
proof -
  let ?data = "[0, 1, 1, 0, 0, 1, 0, 0, 0, 0, 0, 0, 0xC0, 0x0C] :: bytes"
  obtain app :: "(script, ref_lru, string) application"
    where app: "buildApplication sample_extern ref_lru sample_Load sample_walk script_dial sample_env sample_cfg = Ret app"
    by (rule sample_app)
  have size: "length ?data \<le> 512" by simp
  obtain s where s: "sample_run app ?data s" "alive s" "sv_packets (ps_server s) = [] @ (?data, ''A'') # []"
      "ut_codec (sv_t (ps_server s)) = NewUDPCodec sample_extern"
    by (rule sample_signalled [OF app size]) simp
  have "DecodeQuery ?data = None"
    by (rule DecodeQuery_self_pointer_diverges) (simp_all add: get16_def)
  then have h: "handlePacket mem_sockets (sv_t (ps_server s)) zero_clk (sample_service app) ?data ''A''
      (sv_handler (ps_server s), sv_net (ps_server s)) = ((sv_handler (ps_server s), sv_net (ps_server s)), Panic StackOverflow)"
    using s(4) by (simp add: handlePacket_def)
  have c: "sv_crashed (ps_server s) = None" using s(2) by (simp add: alive_def)
  let ?t = "s\<lparr>ps_server := (ps_server s)\<lparr>sv_packets := [], sv_crashed := Some StackOverflow\<rparr>\<rparr>"
  have "goroutine_step mem_sockets (sample_service app) (ps_server s)
      ((ps_server s)\<lparr>sv_packets := [], sv_crashed := Some StackOverflow\<rparr>)"
    using goroutine_step.handle [OF c s(3) h] by simp
  then have t: "sample_run app ?data ?t"
    using process_reach.further [OF s(1) process_step.serve [OF s(2)]] by blast
  have d: "\<forall>ctx net srv n. \<not> panics (snd (script_dial ctx net srv n))" by (simp add: script_dial_def)
  have n: "\<forall>conn k n. \<not> panics (snd (nc_Read (ce_net sample_env) conn k n))"
    by (simp add: sample_env_def script_net_def script_Read_def split: option.splits)
  have "sv_crashed (ps_server ?t) = Some StackOverflow" by simp
  from process_dies_only_of [OF app mem.udp_network_axioms mem_none d n t [unfolded sample_service_def] this]
  have "\<exists>s1 data client. sample_run app ?data s1 \<and> alive s1 \<and> was_read mem_sockets (sample_service app)
      (process_init app 0 ([], [(?data, ''A'')], []) (([], sample_cache), 0)) s1 (data, client)"
    unfolding sample_service_def by blast
  then show ?thesis using app t by (intro exI [of _ app] exI [of _ ?t]) simp
qed

end
