(* ===== verification/Deadlines.thy ===== *)
theory Deadlines
  imports Fanout
begin

text \<open>
  Time in the serial resolution of \<open>gateways/upstream/resolver.go\<close>. \<open>Resolve\<close> makes one
  context with one deadline, and each server is asked under what is left of it. The network
  is the one of \<open>Upstream\<close>; what it promises of deadlines is the locale \<open>net_deadlines\<close>.
\<close>

section \<open>The contract of deadlines\<close>

text \<open>
  \<open>passed d n\<close>: the time \<open>d\<close> is over in the state \<open>n\<close> of the network, which no call makes
  undone. \<open>armed conn d n\<close>: the deadline of the connection is \<open>d\<close>; a read that begins after
  it fails.
\<close>

locale net_deadlines =
  fixes N :: "('n, 'c) net_ops" and dial :: "('n, 'c) dial_func"
    and passed :: "time \<Rightarrow> 'n \<Rightarrow> bool" and armed :: "'c \<Rightarrow> time \<Rightarrow> 'n \<Rightarrow> bool"
  assumes passed_dial: "passed d n \<Longrightarrow> passed d (fst (dial ctx net srv n))"
    and passed_set: "passed d n \<Longrightarrow> passed d (fst (nc_SetDeadline N conn t n))"
    and passed_write: "passed d n \<Longrightarrow> passed d (fst (nc_Write N conn b n))"
    and passed_read: "passed d n \<Longrightarrow> passed d (fst (nc_Read N conn k n))"
    and passed_close: "passed d n \<Longrightarrow> passed d (nc_Close N conn n)"
    and set_arms: "nc_SetDeadline N conn d n = (n', None) \<Longrightarrow> armed conn d n'"
    and write_armed: "armed conn d n \<Longrightarrow> armed conn d (fst (nc_Write N conn b n))"
    and late_read: "armed conn d n \<Longrightarrow> passed d n \<Longrightarrow> \<exists>e. snd (nc_Read N conn k n) = Err e"
    and calm_dial: "\<not> panics (snd (dial ctx net srv n))"
begin

lemma late_exchange:
  assumes "passed d n" and "armed conn d n"
  shows "\<exists>n' e. exchange N r conn b query now n = (n', Err e) \<and> passed d n'"
proof -
  obtain m w where w: "nc_Write N conn b n = (m, w)" by fastforce
  have m: "passed d m" "armed conn d m" using passed_write [OF assms(1), of conn b] write_armed [OF assms(2), of b] w by simp_all
  obtain m' e where "nc_Read N conn 512 m = (m', Err e)" using late_read [OF m(2,1), of 512] by (metis prod.collapse)
  moreover from this have "passed d m'" using passed_read [OF m(1), of conn 512] by simp
  ultimately show ?thesis using w m(1) by (cases w) (auto simp: exchange_def)
qed

lemma late_query:
  assumes "passed d n" and "ctx_Deadline ctx = Some d" and "us_dial r = dial" and "us_codec r = NewUDPCodec X"
  shows "\<exists>n' e. queryServerWithContext N r ctx srv query now n = (n', Err e) \<and> passed d n'"
proof -
  obtain m out where di: "dial ctx ''udp'' srv n = (m, out)" by fastforce
  have m: "passed d m" using passed_dial [OF assms(1), of ctx "''udp''" srv] di by simp
  show ?thesis
  proof (cases out)
    case (Ret conn)
    obtain m1 e1 where sd: "nc_SetDeadline N conn d m = (m1, e1)" by fastforce
    have m1: "passed d m1" using passed_set [OF m, of conn d] sd by simp
    have "\<exists>n' e. query_conn N r ctx conn query now m = (n', Err e) \<and> passed d n'"
    proof (cases e1)
      case None
      then have "armed conn d m1" using set_arms sd by simp
      from late_exchange [OF m1 this] show ?thesis
        using sd None m1 udp.query_error [of X query]
        by (auto simp: query_conn_def assms(2,4) split: outcome.splits option.splits)
    qed (use sd m1 in \<open>simp add: query_conn_def assms(2)\<close>)
    then show ?thesis using di Ret passed_close by (auto simp: queryServerWithContext_def assms(3))
  next
    case (Panic p)
    then show ?thesis using calm_dial [of ctx "''udp''" srv n] di by simp
  qed (use di m in \<open>simp add: queryServerWithContext_def assms(3)\<close>)
qed

lemma late_servers:
  assumes "passed d n" and "ctx_Deadline ctx = Some d" and "us_dial r = dial" and "us_codec r = NewUDPCodec X"
  shows "\<exists>n' e'. all_fail N r ctx query now servers n n' e e'"
  using assms(1)
proof (induction servers arbitrary: n e)
  case (Cons srv servers)
  obtain n1 e1 where "queryServerWithContext N r ctx srv query now n = (n1, Err e1)" "passed d n1"
    using late_query [OF Cons.prems assms(2-4)] by blast
  then show ?case using Cons.IH [of n1 "Some e1"] all_fail.more by metis
next
  case Nil
  show ?case by (intro exI) (rule all_fail.none)
qed

end

lemma all_fail_append:
  "all_fail N r ctx query now pre n n1 e e1 \<Longrightarrow> all_fail N r ctx query now post n1 n2 e1 e2 \<Longrightarrow>
     all_fail N r ctx query now (pre @ post) n n2 e e2"
  by (induction rule: all_fail.induct) (auto intro: all_fail.more)

section \<open>Properties\<close>

text \<open>
  C30. A server that is silent ends the resolution. When the servers asked so far have failed
  and the one deadline of \<open>Resolve\<close> is over by then, as it is after a read that waited for an
  answer until the deadline, every server after them fails too, whatever it would answer:
  \<open>Resolve\<close> fails.
\<close>

theorem silent_server_ends_resolution:
  assumes "net_deadlines N (us_dial r) passed armed" and "us_codec r = NewUDPCodec X" and "\<not> us_parallel r"
    and "ensureContextDeadline r wall ctx = (c, own)" and "ctx_Deadline c = Some d"
    and "us_servers r = asked @ others" and "all_fail N r c query now asked n n1 None e" and "passed d n1"
  shows "\<exists>n' e. upstream_Resolve par N r wall ctx n query now = (n', Err e)"
proof -
  obtain n2 e2 where "all_fail N r c query now others n1 n2 e e2"
    using net_deadlines.late_servers [OF assms(1,8,5) refl assms(2)] by blast
  from all_fail_append [OF assms(7) this] have "all_fail N r c query now (us_servers r) n n2 None e2"
    unfolding assms(6) .
  from query_servers_fail [OF this] show ?thesis
    using assms(3,4) by (simp add: upstream_Resolve_def resolveSerialWithContext_def serial_failure_def)
qed

section \<open>A network with a clock\<close>

text \<open>
  The time, the deadlines of the connections, and the servers that answer: a read waits until
  the deadline when its server does not.
\<close>

record clocked =
  ck_now :: time
  ck_deadlines :: "(string \<times> time) list"
  ck_script :: script

definition clocked_dial :: "(clocked, string) dial_func" where
  "clocked_dial ctx net srv n =
     (n, case ctx_Deadline ctx of None \<Rightarrow> Ret srv | Some d \<Rightarrow> if d \<le> ck_now n then Err (Errorf ''i/o timeout'') else Ret srv)"

definition clocked_SetDeadline :: "string \<Rightarrow> time \<Rightarrow> clocked \<Rightarrow> clocked \<times> error option" where
  "clocked_SetDeadline conn d n = (n\<lparr>ck_deadlines := (conn, d) # ck_deadlines n\<rparr>, None)"

definition clocked_Write :: "string \<Rightarrow> bytes \<Rightarrow> clocked \<Rightarrow> clocked \<times> error option" where
  "clocked_Write conn b n = (n, None)"

definition clocked_Read :: "string \<Rightarrow> nat \<Rightarrow> clocked \<Rightarrow> clocked \<times> bytes outcome" where
  "clocked_Read conn k n =
     (case (map_of (ck_deadlines n) conn, map_of (ck_script n) conn) of
        (None, None) \<Rightarrow> (n, Err (Errorf ''connection refused''))
      | (None, Some b) \<Rightarrow> (n, Ret (take k b))
      | (Some d, None) \<Rightarrow> (n\<lparr>ck_now := max d (ck_now n)\<rparr>, Err (Errorf ''i/o timeout''))
      | (Some d, Some b) \<Rightarrow> (n, if d \<le> ck_now n then Err (Errorf ''i/o timeout'') else Ret (take k b)))"

definition clocked_Close :: "string \<Rightarrow> clocked \<Rightarrow> clocked" where
  "clocked_Close conn n = n"

definition clocked_Done :: "deadline_ctx \<Rightarrow> clocked \<Rightarrow> error option" where
  "clocked_Done ctx n =
     (case ctx_Deadline ctx of None \<Rightarrow> None
      | Some d \<Rightarrow> if d \<le> ck_now n then Some (Sentinel ''context deadline exceeded'') else None)"

definition clocked_net :: "(clocked, string) net_ops" where
  "clocked_net = \<lparr>nc_SetDeadline = clocked_SetDeadline, nc_Write = clocked_Write, nc_Read = clocked_Read,
     nc_Close = clocked_Close, nc_Done = clocked_Done\<rparr>"

definition clocked_passed :: "time \<Rightarrow> clocked \<Rightarrow> bool" where
  "clocked_passed d n \<longleftrightarrow> d \<le> ck_now n"

definition clocked_armed :: "string \<Rightarrow> time \<Rightarrow> clocked \<Rightarrow> bool" where
  "clocked_armed conn d n \<longleftrightarrow> map_of (ck_deadlines n) conn = Some d"

lemmas clocked_defs = clocked_net_def clocked_dial_def clocked_SetDeadline_def clocked_Write_def clocked_Read_def
  clocked_Close_def clocked_passed_def clocked_armed_def

interpretation clocked_net: net_deadlines clocked_net clocked_dial clocked_passed clocked_armed
  by unfold_locales (auto simp: clocked_defs split: option.splits)

text \<open>Two servers, of which the first is silent and the second answers at once\<close>

definition clocked_upstream :: "string list \<Rightarrow> (clocked, string) us_resolver" where
  "clocked_upstream servers = \<lparr>us_servers = servers, us_timeout = 5 * Second,
     us_codec = NewUDPCodec sample_extern, us_parallel = False, us_dial = clocked_dial\<rparr>"

definition silent_first :: clocked where
  "silent_first = \<lparr>ck_now = 0, ck_deadlines = [], ck_script = sample_script\<rparr>"

definition no_par :: "deadline_ctx \<Rightarrow> question \<Rightarrow> time \<Rightarrow> clocked \<Rightarrow> clocked \<times> resource_record list outcome" where
  "no_par ctx q now n = (n, timed_out)"

theorem silent_server_ends_resolution_witness:
  "(\<exists>n. upstream_Resolve no_par clocked_net (clocked_upstream [''b'']) 0 no_deadline silent_first sample_asked 0
      = (n, Ret [sample_reply]))
   \<and> (\<exists>n e. upstream_Resolve no_par clocked_net (clocked_upstream [''silent'', ''b'']) 0 no_deadline silent_first sample_asked 0
      = (n, Err e))"
proof -
  let ?r = "clocked_upstream [''silent'', ''b'']" and ?c = "\<lparr>ctx_Deadline = Some (5 * Second)\<rparr>"
  have "snd (upstream_Resolve no_par clocked_net (clocked_upstream [''b'']) 0 no_deadline silent_first sample_asked 0)
      = Ret [sample_reply]" by code_simp
  moreover
  obtain n1 e where q: "queryServerWithContext clocked_net ?r ?c ''silent'' sample_asked 0 silent_first = (n1, Err e)"
      and "ck_now n1 = 5 * Second"
  proof -
    have "ck_now (fst (queryServerWithContext clocked_net ?r ?c ''silent'' sample_asked 0 silent_first)) = 5 * Second"
      "\<not> is_ret (snd (queryServerWithContext clocked_net ?r ?c ''silent'' sample_asked 0 silent_first))"
      "\<not> panics (snd (queryServerWithContext clocked_net ?r ?c ''silent'' sample_asked 0 silent_first))"
      by code_simp+
    then show ?thesis
      using that by (cases "queryServerWithContext clocked_net ?r ?c ''silent'' sample_asked 0 silent_first"; cases "snd
        (queryServerWithContext clocked_net ?r ?c ''silent'' sample_asked 0 silent_first)") auto
  qed
  moreover from this have "clocked_passed (5 * Second) n1" by (simp add: clocked_passed_def)
  moreover have "all_fail clocked_net ?r ?c sample_asked 0 [''silent''] silent_first n1 None (Some e)"
    by (rule all_fail.more [OF q]) (rule all_fail.none)
  moreover have "ensureContextDeadline ?r 0 no_deadline = (?c, True)"
    by (simp add: ensureContextDeadline_def no_deadline_def clocked_upstream_def time_Add_def)
  ultimately show ?thesis
    using silent_server_ends_resolution [where r = ?r and asked = "[''silent'']" and others = "[''b'']" and par = no_par
        and N = clocked_net and X = sample_extern and d = "5 * Second" and c = ?c and wall = 0 and ctx = no_deadline]
      clocked_net.net_deadlines_axioms
    by (auto simp: clocked_upstream_def) (metis prod.collapse)+
qed

end
