(* ===== verification/Spec2Isabelle.thy ===== *)
theory Spec2Isabelle
  imports PacketsProps Process Deadlines
begin

text \<open>
  A model of rr-dns, a DNS server written in Go that answers from zone files, from a cache of
  upstream answers and from upstream servers, with the properties that make it correct.

  \<^bold>\<open>The program and its model.\<close> Paths are under \<open>src/internal/dns\<close> unless they start
  with \<open>cmd\<close>. A theory with operations is followed by the one with their properties, where
  they are not in one file.

  \<^item> \<open>Prelude\<close>: Go's \<open>byte\<close>, \<open>[]byte\<close>, \<open>string\<close> and \<open>error\<close>; the outcome of
    a call, \<open>Ret\<close> a value, \<open>Err\<close> an error or \<open>Panic\<close>; the integer codecs of
    \<open>encoding/binary\<close>. \<open>GoStrings\<close>, \<open>GoNet\<close> and \<open>GoTime\<close>: the functions of Go's
    standard library the source calls, with their round trips and bounds.
  \<^item> \<open>Utils\<close>: \<open>common/utils\<close>, canonical names and apex domains.
    \<open>RRTypes\<close>: \<open>domain/rrtype.go\<close>, \<open>rrclass.go\<close>, \<open>rcode.go\<close>. \<open>Domain\<close>: the
    cache key, \<open>Question\<close>, \<open>ResourceRecord\<close> and \<open>DNSResponse\<close> of \<open>domain\<close>.
  \<^item> \<open>RRData\<close>, \<open>RRDataRoundtrip\<close>: \<open>common/rrdata\<close>, one encoder and one decoder for
    each record type.
  \<^item> \<open>Wire\<close>, \<open>WireProps\<close>: \<open>gateways/wire/udp_codec.go\<close> and \<open>question.go\<close>, DNS
    messages as bytes. \<open>Codec\<close>: the interface \<open>gateways/wire/codec.go\<close>.
  \<^item> \<open>Interfaces\<close>: \<open>services/resolver/interfaces.go\<close>. \<open>DnsCache\<close>: \<open>repos/dnscache\<close>.
    \<open>ZoneCache\<close>: \<open>repos/zonecache\<close>. \<open>ZoneFile\<close>: \<open>repos/zone\<close>.
  \<^item> \<open>Alias\<close>: \<open>services/resolver/alias.go\<close>. \<open>Resolver\<close>, \<open>ResolverProps\<close>:
    \<open>services/resolver/resolver.go\<close>.
  \<^item> \<open>Upstream\<close>, \<open>UpstreamProps\<close>, \<open>Fanout\<close>, \<open>Deadlines\<close>:
    \<open>gateways/upstream/resolver.go\<close>, serial, parallel, and under a deadline.
  \<^item> \<open>Transport\<close>, \<open>TransportProps\<close>: \<open>gateways/transport\<close>. \<open>Packets\<close>,
    \<open>PacketsProps\<close>: the goroutines of the packets, from \<open>handlePacket\<close> of the transport
    through \<open>HandleQuery\<close> of the resolver to \<open>Get\<close> and \<open>Set\<close> of the cache, interleaved.
  \<^item> \<open>Config\<close>: \<open>config/config.go\<close>. \<open>Logging\<close>: \<open>common/log/log.go\<close>. \<open>App\<close>:
    \<open>cmd/rr-dnsd/main.go\<close>, \<open>repos/blocklist/nop.go\<close> and \<open>common/clock/clock.go\<close>.
    \<open>Process\<close>: the goroutines of \<open>main.go\<close>, its signals and its shutdown timer. The other
    properties of the whole server are in this theory.

  \<^bold>\<open>How the parts interact.\<close> \<open>main\<close> loads a configuration and builds the application:
  the zone directory is loaded into the zone cache, and the resolver gets the zone cache, the
  block list, the cache and the upstream client (and no alias resolver). The transport reads
  a datagram, decodes it with the codec, asks the resolver and writes the encoded response.
  The resolver consults the zone cache (whose answer an alias resolver may extend), the block
  list, the cache and the upstream client, in that order.

  \<^bold>\<open>State.\<close> A struct is a record of its fields; a mutating method returns the new record. A
  slice is a list and a map is an association list in the order of a \<open>range\<close> over it, or a
  function where no code depends on an order. Integers have the width of the code. The
  concurrent parts are step relations: \<open>fanout_step\<close> has the workers of a parallel upstream
  resolution and their caller, \<open>server_step\<close> the calls of \<open>Start\<close> and \<open>Stop\<close>, the
  listening goroutines, the goroutine of each packet and the cancellation, and
  \<open>process_step\<close> the main goroutine, that of the signals, the signals and the timer beside
  those of the server. The zone cache's methods hold a mutex throughout, so each is one step;
  of the DNS cache only the calls on the LRU cache are atomic, and \<open>packets_next\<close>
  interleaves the goroutines of the packets between them, under a schedule that also gives the
  state of the upstream network and the clock readings of each step. The other models take a
  packet, and so a \<open>Get\<close>, as one step, which \<open>PacketsProps\<close> shows to be the run of a goroutine
  that is not interrupted. The histories of calls of a repository are lists of operations
  (\<open>cache_run\<close>, \<open>zone_run\<close>).

  \<^bold>\<open>Code outside the repository\<close> is a parameter: the public suffix list and the case tables
  of Unicode (\<open>extern\<close>), the LRU cache (\<open>lru\<close>), the YAML, JSON and TOML parsers and the
  directory walk (arguments of the zone loader), koanf and validator (\<open>config_lib\<close>), zap
  (\<open>zap_lib\<close>), the network (\<open>net_ops\<close>, \<open>dial_func\<close>, \<open>udp_sockets\<close>) and the clock, whose readings are
  arguments. What a property assumes of them is a locale (\<open>lru_cache\<close>, \<open>config_library\<close>,
  \<open>zap_library\<close>, \<open>udp_network\<close>, \<open>net_deadlines\<close>) that an executable instance is shown to satisfy. The interfaces between the
  parts of the program are locales too (\<open>answer_cache\<close>, \<open>message_codec\<close> and those of
  \<open>Interfaces\<close>), interpreted on the model of the part that provides them.

  \<^bold>\<open>Loops.\<close> Loops over a slice are structural recursions, the string loops have measures.
  Two loops may not end: \<open>decodeName\<close>, which follows compression pointers without a bound, and
  the alias chase when its depth is not limited. They are \<open>partial_function (option)\<close>, where
  \<open>None\<close> is not returning; \<open>WireProps\<close> and \<open>Alias\<close> state when they return. No
  definition uses fuel. A goroutine in which \<open>decodeName\<close> does not
  return overflows its stack, which ends the process (\<open>fatal\<close>).

  \<^bold>\<open>What is shown.\<close> Codecs: round trips of queries, responses and record data; which bytes
  panic or diverge. Caches: refinement of abstract maps, capacity, soundness of lookups.
  Zone files: when a file and a directory load and which records they give, in whatever order
  Go visits the maps of a file; that the TTLs in a file which the README documents have no
  effect. Resolver: totality,
  where a response comes from, how cache and upstream interact, the outcome of alias chases.
  Upstream: order and outcome of serial and parallel resolution, with a bound on its steps, and
  what a silent server does to the servers after it.
  Transport: the life of the socket, shutdown, what a stopped transport does, the packet that
  ends the server. Packets: under every interleaving, where the responses come from, that they
  are well typed and that each goroutine ends; the answer that is lost between two goroutines.
  Configuration and logger: what is accepted, and when configuring succeeds.
  Server: when it can be built, that it answers from its zone files, that only the step of a
  packet can end it with a panic and which packets can, that a signal ends it with the socket released and the packets in progress lost, and the exit status
  of the process.

  \<^bold>\<open>Not modelled.\<close> The calls that log are left out of every other part: \<open>Logging\<close> shows
  that they return, and no part reads their output. Of a context only its deadline and whether it is done matter; when
  \<open>ctx.Done()\<close> wins a \<open>select\<close> against an exchange is an argument (\<open>nc_Done\<close>). An exchange
  that lost this race is cut off, so a panic in it after that is not in the model. A signal
  that comes before \<open>signal.Notify\<close> is called is not either. Error values keep the format string and the wrapped error, not the arguments.
\<close>

section \<open>Properties of the whole server\<close>

text \<open>
  C35. When the server can be built: the size of the cache fits an \<open>int\<close> and the LRU cache
  accepts it (unless caching is disabled), every entry of the zone directory loads, and there
  is an upstream server.
\<close>

theorem build_succeeds:
  "is_ret (buildApplication X L Load walk dialer E cfg) \<longleftrightarrow>
     (cfg_DisableCache cfg \<or> unat (cfg_CacheSize cfg) < 2 ^ 63 \<and> is_ret (lru_New L (uint (cfg_CacheSize cfg))))
     \<and> list_all (walk_ok X Load (300 * Second)) (walk (cfg_ZoneDir cfg))
     \<and> (\<exists>server servers. cfg_Servers cfg = Some (server # servers))"
proof -
  have ret: "is_ret r \<longleftrightarrow> (\<exists>x. r = Ret x)" for r :: "'z outcome" by (cases r) auto
  have cache: "is_ret (dnscache_New L k) \<longleftrightarrow> is_ret (lru_New L k)" for k
    by (cases "lru_New L k") (auto simp: dnscache_New_def)
  have dir: "is_ret (LoadZoneDirectory X Load es ttl) \<longleftrightarrow> list_all (walk_ok X Load ttl) es" for es ttl
    by (simp add: LoadZoneDirectory_def walk_files_is_ret)
  have app: "is_ret (buildApplication X L Load walk dialer E cfg) \<longleftrightarrow>
      is_ret (buildRepositories X L Load walk cfg) \<and> is_ret (buildGateways dialer cfg (NewUDPCodec X))"
    by (cases "buildRepositories X L Load walk cfg"; cases "buildGateways dialer cfg (NewUDPCodec X)")
      (auto simp: buildApplication_def Let_def)
  have repos: "is_ret (buildRepositories X L Load walk cfg) \<longleftrightarrow>
      (cfg_DisableCache cfg \<or> unat (cfg_CacheSize cfg) \<le> max_int \<and> is_ret (dnscache_New L (uint (cfg_CacheSize cfg))))
      \<and> is_ret (LoadZoneDirectory X Load (walk (cfg_ZoneDir cfg)) (300 * Second))"
    unfolding ret buildRepositories_Ret by (cases "cfg_DisableCache cfg") auto
  have gates: "is_ret (buildGateways dialer cfg (NewUDPCodec X)) \<longleftrightarrow> (\<exists>s ss. cfg_Servers cfg = Some (s # ss))"
    unfolding ret buildGateways_Ret by auto
  have "unat (cfg_CacheSize cfg) \<le> max_int \<longleftrightarrow> unat (cfg_CacheSize cfg) < 2 ^ 63" by (auto simp: max_int_def)
  then show ?thesis unfolding app repos gates cache dir by simp
qed

lemma zspec_run_map:
  assumes "distinct (map fst zones)" and "\<forall>(z, rs) \<in> set zones. CanonicalDNSName X z = z"
  shows "zspec_run X (map (\<lambda>(z, rs). OpPut z rs) zones) = map_of zones"
proof -
  have "foldl (zspec_step X) m (map (\<lambda>(z, rs). OpPut z rs) zones) = m ++ map_of zones" for m
    using assms
  proof (induction zones arbitrary: m)
    case (Cons p zones)
    obtain z rs where p: "p = (z, rs)" by (cases p)
    have "map_of zones z = None" using Cons.prems(1) by (simp add: p map_of_eq_None_iff)
    then have "m(z \<mapsto> rs) ++ map_of zones = m ++ map_of ((z, rs) # zones)"
      by (auto simp: map_add_def fun_eq_iff split: option.splits)
    moreover have "foldl (zspec_step X) (m(z \<mapsto> rs)) (map (\<lambda>(z, rs). OpPut z rs) zones) = m(z \<mapsto> rs) ++ map_of zones"
      using Cons by (simp add: p)
    ultimately have "foldl (zspec_step X) (m(z \<mapsto> rs)) (map (\<lambda>(z, rs). OpPut z rs) zones) = m ++ map_of ((z, rs) # zones)"
      by (rule trans [rotated])
    moreover have "CanonicalDNSName X z = z" using Cons.prems(2) by (simp add: p)
    ultimately show ?case unfolding p by (simp only: list.map foldl.simps prod.case zspec_step.simps)
  qed simp
  then show ?thesis by (simp add: zspec_run_def)
qed

lemma walk_files_distinct:
  "walk_files X Load ttl entries zones = Ret result \<Longrightarrow> distinct (map fst zones) \<Longrightarrow> distinct (map fst result)"
proof (induction X Load ttl entries zones rule: walk_files.induct)
  case (4 X Load ttl path entries zones)
  then obtain z rs where "loadZoneFileWithRoot X Load path ttl = Ret (z, rs)"
      and "walk_files X Load ttl entries
        (if z \<noteq> '''' \<and> length rs > 0 then AList.update z (zone_records zones z @ rs) zones else zones) = Ret result"
    by (auto simp: obind_eq_Ret)
  moreover have "distinct (map fst (if z \<noteq> '''' \<and> length rs > 0 then AList.update z (zone_records zones z @ rs) zones else zones))"
    using 4(3) by (simp add: distinct_update)
  ultimately show ?case using 4(1) [of z rs] by auto
qed auto

text \<open>A lookup in the zone cache of the application, over the zones of the directory\<close>

lemma app_find:
  assumes "LoadZoneDirectory X Load entries ttl = Ret zones" and "\<forall>(z, rs) \<in> set zones. CanonicalDNSName X z = z"
  shows "FindRecords X (put_zones X zonecache_New zones) q =
    (let records = select X (Question_CacheKey X q) (zone_records zones (GetApexDomain X (CanonicalDNSName X (q_Name q))))
     in (records, records \<noteq> []))"
proof -
  have "distinct (map fst zones)"
    using walk_files_distinct [of X Load ttl entries "[]" zones] assms(1) by (simp add: LoadZoneDirectory_def)
  then show ?thesis
    unfolding put_zones_run zone_rel_find [OF zone_rel_run] zspec_run_map [OF _ assms(2)]
    by (auto simp: zspec_find_def zone_records_def select_def Let_def zspec_run_map [OF _ assms(2)] split: option.splits)
qed

text \<open>
  C2. From zone file to datagram: a query packet for which the zone files under the apex
  domain of its name have records with its name, type and class is answered with those
  records, in the order of the files, as authoritative NOERROR data; the packet written is
  their encoding, and neither the cache nor an upstream server is touched.
\<close>

theorem authoritative_answer:
  assumes "buildApplication X L Load walk dialer E cfg = Ret app"
    and "LoadZoneDirectory X Load (walk (cfg_ZoneDir cfg)) (300 * Second) = Ret zones"
    and "\<forall>(z, rs) \<in> set zones. CanonicalDNSName X z = z"
    and "DecodeQuery data = Some (Ret q)"
    and "records = select X (Question_CacheKey X q) (zone_records zones (GetApexDomain X (CanonicalDNSName X (q_Name q))))"
    and "records \<noteq> []"
    and "t = (ap_transport app)\<lparr>ut_conn := Some conn, ut_running := True\<rparr>"
  shows "handlePacket S t clk (app_responder X (ap_resolver app) rds) data client (h, n) =
    ((h, case EncodeResponse clk (buildResponse q NOERROR records) of
           Ret b \<Rightarrow> fst (sk_WriteToUDP S conn b client n) | _ \<Rightarrow> n), Ret ())"
proof -
  obtain u where r: "ap_resolver app = NewResolver (Some Noop_IsBlocked) (Some (app_client E u))
      (if cfg_DisableCache cfg then None else Some (dnscache_ops X L))
      (Some (FindRecords X (put_zones X zonecache_New zones))) (cfg_MaxRecursion cfg) None"
    and t: "ap_transport app = NewUDPTransport ('':'' @ show_int (cfg_Port cfg)) (NewUDPCodec X)"
    using buildApplication_Ret [OF assms(1)] assms(2) by (metis outcome.inject(1))
  have "FindRecords X (put_zones X zonecache_New zones) q = (records, True)"
    using app_find [OF assms(2,3)] assms(5,6) by (simp add: Let_def)
  then have "HandleQuery X (ap_resolver app) (rds q) h q = Some (Ret (h, buildResponse q NOERROR records))"
    using assms(6) by (cases h) (simp add: r NewResolver_def HandleQuery_def resolveFromZone_def)
  then have "app_responder X (ap_resolver app) rds h q = (h, Ret (buildResponse q NOERROR records))"
    by (simp add: app_responder_def)
  moreover have "\<not> panics (EncodeResponse clk (buildResponse q NOERROR records))"
    using udp.response_error [of X clk] by simp
  ultimately show ?thesis
    using assms(4)
    by (auto simp: handlePacket_def assms(7) t NewUDPTransport_def Let_def split: outcome.splits prod.splits)
qed

text \<open>
  What can end the server under any calls of \<open>Start\<close> and \<open>Stop\<close>: over sockets and a network
  whose own calls do not panic, it is a second \<open>Stop\<close> after a restart, or the step of a packet
  that was waiting, on which the decoder does not return or whose question makes the upstream
  client read a datagram on which the decoder panics or does not return.
\<close>

theorem server_dies_only_of:
  assumes "buildApplication X L Load walk dialer E cfg = Ret app"
    and "udp_network S opened"
    and "\<forall>ctx net srv n. \<not> panics (snd (dialer ctx net srv n))"
    and "\<forall>conn k n. \<not> panics (snd (nc_Read (ce_net E) conn k n))"
    and "server_reach S (app_responder X (ap_resolver app) rds)
      (server_init (ut_addr (ap_transport app)) (ut_codec (ap_transport app)) m h) s"
    and "sv_crashed s = Some p"
  shows "(p = CloseOfClosedChannel \<and> ut_running (sv_t s) \<and> ut_stopped (sv_t s))
    \<or> (\<exists>s1 data client n c.
        server_reach S (app_responder X (ap_resolver app) rds)
          (server_init (ut_addr (ap_transport app)) (ut_codec (ap_transport app)) m h) s1
        \<and> (data, client) \<in> set (sv_packets s1) \<and> sv_handler s1 = (n, c)
        \<and> ((p = StackOverflow \<and> DecodeQuery data = None)
           \<or> (\<exists>q. DecodeQuery data = Some (Ret q) \<and> \<not> zone_has (ap_resolver app) q
                \<and> fatal_reply X (ce_net E) (app_upstream dialer cfg (NewUDPCodec X)) n q (rd_now (rds q)) p)))"
proof -
  let ?H = "app_responder X (ap_resolver app) rds"
  let ?i = "server_init (ut_addr (ap_transport app)) (NewUDPCodec X) m h"
  have t: "ut_codec (ap_transport app) = NewUDPCodec X"
    using buildApplication_Ret [OF assms(1)] by (metis NewUDPTransport_def udp_transport.select_convs(3))
  from server_crash_cases [OF assms(2) assms(5) [unfolded t] assms(6)]
  consider "p = CloseOfClosedChannel" "ut_running (sv_t s)" "ut_stopped (sv_t s)"
    | s1 data client where "server_reach S ?H ?i s1" "killed_by ?H s1 s data client p" by metis
  then show ?thesis
  proof cases
    case 2
    obtain n c where h: "sv_handler s1 = (n, c)" by (cases "sv_handler s1")
    have "(p = StackOverflow \<and> DecodeQuery data = None)
       \<or> (\<exists>q. DecodeQuery data = Some (Ret q) \<and> \<not> zone_has (ap_resolver app) q
            \<and> fatal_reply X (ce_net E) (app_upstream dialer cfg (NewUDPCodec X)) n q (rd_now (rds q)) p)"
      using 2(2) h app_query_dies [OF assms(1,3,4)] unfolding killed_by_def by metis
    moreover have "(data, client) \<in> set (sv_packets s1)" using 2(2) by (auto simp: killed_by_def)
    ultimately show ?thesis using 2(1) h unfolding t by blast
  qed blast
qed

lemma app_Run_releases:
  assumes "buildApplication X L Load walk dialer E cfg = Ret app"
    and "udp_network S opened" and "opened m = {}" and "\<forall>m. opened (meanwhile m) = opened m"
    and "app_Run S meanwhile late (ap_transport app) m = (t, m', res)"
  shows "\<not> panics res \<and> \<not> ut_running t \<and> opened m' = {}
    \<and> (is_ret res \<longleftrightarrow> is_ret (snd (snd (udp_Start S (ap_transport app) m))) \<and> \<not> late)"
proof -
  have "ap_transport app = NewUDPTransport ('':'' @ show_int (cfg_Port cfg)) (NewUDPCodec X)"
    using buildApplication_Ret [OF assms(1)] by metis
  then have new: "\<not> ut_running (ap_transport app)" "\<not> ut_stopped (ap_transport app)"
    by (simp_all add: NewUDPTransport_def)
  obtain t1 m1 r1 where s: "udp_Start S (ap_transport app) m = (t1, m1, r1)" by (metis prod_cases3)
  from udp_network.Start_cases [OF assms(2) s] show ?thesis
  proof (elim disjE conjE exE)
    fix conn
    assume a: "is_ret r1" "t1 = (ap_transport app)\<lparr>ut_conn := Some conn, ut_running := True\<rparr>"
      "opened m1 = insert conn (opened m)"
    obtain t2 m2 r2 where e: "udp_Stop S t1 (meanwhile m1) = (t2, m2, r2)" by (metis prod_cases3)
    from udp_network.Stop_cases [OF assms(2) e] have st: "t2 = t1\<lparr>ut_stopped := True, ut_running := False\<rparr>"
        "\<not> panics r2" "opened m2 = opened (meanwhile m1) - set_option (ut_conn t1)"
      using a(2) new by auto
    have "opened m2 = {}" using st(3) a(2,3) assms(3,4) by auto
    then show ?thesis
      using assms(5) s e a(1) st(1,2) by (cases r1; cases r2) (auto simp: app_Run_def split: if_splits)
  next
    assume "\<not> is_ret r1" "\<not> panics r1" "t1 = ap_transport app" "opened m1 = opened m"
    then show ?thesis using assms(3,5) s new by (cases r1) (auto simp: app_Run_def)
  qed
qed

text \<open>
  A run of a built application: when the sockets behave as documented and the goroutines
  leave the open sockets alone, \<open>Run\<close> does not panic, ends with the transport stopped and
  no socket open, and succeeds exactly when the transport could be started and the last
  \<open>select\<close> does not take the timeout.
\<close>

theorem run_releases_socket:
  assumes "buildApplication X L Load walk dialer E cfg = Ret app"
    and "udp_network S opened" and "opened m = {}" and "\<forall>m. opened (meanwhile m) = opened m"
    and "app_Run S meanwhile late (ap_transport app) m = (t, m', res)"
  shows "\<not> panics res \<and> \<not> ut_running t \<and> opened m' = {}
    \<and> (is_ret res \<longleftrightarrow> is_ret (snd (snd (udp_Start S (ap_transport app) m))) \<and> \<not> late)"
  using assms by (rule app_Run_releases)

text \<open>
  C37. The exit status of the process. When the configuration library, zap and the sockets
  behave as documented and neither the zone parser nor the LRU cache panics, \<open>main\<close> does not
  panic; it exits with 0 exactly when the configuration loads, the application can be built
  from it, its address can be bound, and the shutdown does not take the timeout, and with 1
  otherwise. The configured logger is never the reason.
\<close>

theorem main_exit_status:
  fixes S :: "('m, 'a, 's) udp_sockets" and E :: "('n, 'k) client_env" and L :: "'c lru"
  assumes lib: "config_library lib" and zap: "zap_library Z" and net: "udp_network S opened"
    and o: "opened m = {}" and st: "\<forall>m. opened (meanwhile m) = opened m"
    and calm: "\<forall>path. \<not> panics (Load path)" "\<forall>n. \<not> panics (lru_New L n)"
  shows "main X lib Z g L Load walk dialer E S meanwhile late m =
    Ret (if \<exists>cfg app. config_Load X lib = Ret cfg
           \<and> buildApplication X L Load walk dialer E cfg = Ret app
           \<and> is_ret (snd (snd (udp_Start S (ap_transport app) m))) \<and> \<not> late
         then 0 else 1)"
proof (cases "config_Load X lib")
  case (Ret cfg)
  have "cfg_LogLevel cfg \<in> {''debug'', ''info'', ''warn'', ''error''}"
    using config_library.Load_tags [OF lib Ret] by (simp add: tags_ok_def)
  from zap_library.Configure_level [OF zap this, of X g "cfg_Env cfg"] obtain g'
    where c: "Configure X Z g (cfg_Env cfg) (cfg_LogLevel cfg) = (g', Ret ())"
    by metis
  show ?thesis
  proof (cases "buildApplication X L Load walk dialer E cfg :: ('n, 'c, 's) application outcome")
    case app: (Ret app)
    obtain t n res where r: "app_Run S meanwhile late (ap_transport app) m = (t, n, res)" by (metis prod_cases3)
    have "main X lib Z g L Load walk dialer E S meanwhile late m =
        (case res of Ret _ \<Rightarrow> Ret 0 | Err e \<Rightarrow> Ret 1 | Panic p \<Rightarrow> Panic p)"
      by (cases res) (simp_all add: main_def Ret c app r)
    with app_Run_releases [OF app net o st r] show ?thesis by (cases res) (auto simp: Ret app)
  next
    case (Panic p)
    then show ?thesis using buildApplication_calm [OF calm, of X walk dialer E cfg] by (metis panics_simps(3))
  qed (simp add: main_def Ret c)
next
  case (Panic p)
  then show ?thesis using config_library.Load_calm [OF lib] by (metis panics_simps(3))
qed (simp add: main_def)

section \<open>Concrete runs\<close>

theorem authoritative_answer_witness:
  "\<exists>app :: (script, ref_lru, string) application. \<exists>b.
     buildApplication sample_extern ref_lru sample_Load sample_walk script_dial sample_env sample_cfg = Ret app
     \<and> handlePacket mem_sockets ((ap_transport app)\<lparr>ut_conn := Some '':53'', ut_running := True\<rparr>) zero_clk
          (app_responder sample_extern (ap_resolver app) sample_rds)
          [0, 7, 1, 0, 0, 1, 0, 0, 0, 0, 0, 0, 1, 0x77, 1, 0x61, 1, 0x62, 0, 0, 1, 0, 1] ''client''
          (([], sample_cache), ([], [], []))
        = ((([], sample_cache), ([], [], [(b, ''client'')])), Ret ())"
proof -
  let ?q = "\<lparr>q_ID = 7, q_Name = ''w.a.b'', q_Type = 1, q_Class = 1\<rparr>"
  let ?data = "[0, 7, 1, 0, 0, 1, 0, 0, 0, 0, 0, 0, 1, 0x77, 1, 0x61, 1, 0x62, 0, 0, 1, 0, 1] :: bytes"
  obtain app :: "(script, ref_lru, string) application"
    where app: "buildApplication sample_extern ref_lru sample_Load sample_walk script_dial sample_env sample_cfg = Ret app"
    by (rule sample_app)
  have canon: "\<forall>(z, rs) \<in> set [(''a.b'', [sample_zone_rr])]. CanonicalDNSName sample_extern z = z" by code_simp
  have dec: "DecodeQuery ?data = Some (Ret ?q)" by code_simp
  have apex: "GetApexDomain sample_extern (CanonicalDNSName sample_extern ''w.a.b'') = ''a.b''" by code_simp
  have key: "RR_CacheKey sample_extern sample_zone_rr = Question_CacheKey sample_extern ?q"
    by (simp add: RR_CacheKey_def Question_CacheKey_def sample_zone_rr_def)
  have sel: "[sample_zone_rr] = select sample_extern (Question_CacheKey sample_extern ?q)
      (zone_records [(''a.b'', [sample_zone_rr])]
        (GetApexDomain sample_extern (CanonicalDNSName sample_extern (q_Name ?q))))"
    by (simp add: apex key select_def zone_records_def)
  have "is_ret (EncodeResponse zero_clk (buildResponse ?q NOERROR [sample_zone_rr]))" by code_simp
  then obtain b where b: "EncodeResponse zero_clk (buildResponse ?q NOERROR [sample_zone_rr]) = Ret b"
    by (cases "EncodeResponse zero_clk (buildResponse ?q NOERROR [sample_zone_rr])") auto
  from authoritative_answer [where S = mem_sockets and conn = "'':53''" and rds = sample_rds and client = "''client''"
      and clk = zero_clk and h = "([], sample_cache)" and n = "([], [], [])", OF app sample_zones canon dec sel _ refl] b app
  show ?thesis by (auto simp: mem_sockets_def)
qed

text \<open>The run of \<open>main\<close> on that server: the transport starts, and \<open>Run\<close> stops it\<close>

definition stay :: "mem_net \<Rightarrow> mem_net" where
  "stay n = n"

theorem run_releases_socket_witness:
  "\<exists>app :: (script, ref_lru, string) application. \<exists>t m.
     buildApplication sample_extern ref_lru sample_Load sample_walk script_dial sample_env sample_cfg = Ret app
     \<and> app_Run mem_sockets stay False (ap_transport app) empty_net = (t, m, Ret ())
     \<and> \<not> ut_running t \<and> mem_opened m = {}"
proof -
  obtain app :: "(script, ref_lru, string) application"
    where app: "buildApplication sample_extern ref_lru sample_Load sample_walk script_dial sample_env sample_cfg = Ret app"
    by (rule sample_app)
  have t: "ap_transport app = NewUDPTransport ('':'' @ show_int (cfg_Port sample_cfg)) (NewUDPCodec sample_extern)"
    using buildApplication_Ret [OF app] by metis
  have o: "mem_opened empty_net = {}" by (simp add: mem_opened_def empty_net_def)
  have st: "\<forall>m. mem_opened (stay m) = mem_opened m" by (simp add: stay_def)
  obtain t' m' res where r: "app_Run mem_sockets stay False (ap_transport app) empty_net = (t', m', res)"
    by (metis prod_cases3)
  have "is_ret (snd (snd (udp_Start mem_sockets (ap_transport app) empty_net)))"
    by (simp add: t udp_Start_def mem_sockets_def mem_Resolve_def NewUDPTransport_def empty_net_def)
  with run_releases_socket [OF app mem.udp_network_axioms o st r] have "is_ret res" "\<not> ut_running t'" "mem_opened m' = {}"
    by auto
  moreover from this(1) have "res = Ret ()" by (cases res) auto
  ultimately show ?thesis using app r by blast
qed

text \<open>The same server, started and stopped twice\<close>

theorem server_dies_only_of_witness:
  "\<exists>app :: (script, ref_lru, string) application. \<exists>s :: (mem_net, string, string, script \<times> ref_lru dnsCache) server.
     buildApplication sample_extern ref_lru sample_Load sample_walk script_dial sample_env sample_cfg = Ret app
     \<and> server_reach mem_sockets (app_responder sample_extern (ap_resolver app) sample_rds)
          (server_init (ut_addr (ap_transport app)) (ut_codec (ap_transport app)) empty_net ([], sample_cache)) s
     \<and> sv_crashed s = Some CloseOfClosedChannel \<and> ut_running (sv_t s) \<and> ut_stopped (sv_t s)"
proof -
  obtain app :: "(script, ref_lru, string) application"
    where app: "buildApplication sample_extern ref_lru sample_Load sample_walk script_dial sample_env sample_cfg = Ret app"
    by (rule sample_app)
  have t: "ap_transport app = NewUDPTransport ('':'' @ show_int (cfg_Port sample_cfg)) (NewUDPCodec sample_extern)"
    using buildApplication_Ret [OF app] by metis
  let ?h = "app_responder sample_extern (ap_resolver app) sample_rds"
  have addr: "ut_addr (ap_transport app) \<noteq> ''''" by (simp add: t NewUDPTransport_def)
  obtain s :: "(mem_net, string, string, script \<times> ref_lru dnsCache) server"
    where r: "server_reach mem_sockets ?h
        (server_init (ut_addr (ap_transport app)) (ut_codec (ap_transport app)) empty_net ([], sample_cache)) s"
      and c: "sv_crashed s = Some CloseOfClosedChannel"
    by (rule restart_run [OF refl addr, of ?h "ut_codec (ap_transport app)" "([], sample_cache)"])
  have d: "\<forall>ctx net srv n. \<not> panics (snd (script_dial ctx net srv n))" by (simp add: script_dial_def)
  have n: "\<forall>conn k n. \<not> panics (snd (nc_Read (ce_net sample_env) conn k n))"
    by (simp add: sample_env_def script_net_def script_Read_def split: option.splits)
  have "ut_running (sv_t s) \<and> ut_stopped (sv_t s)"
    using server_dies_only_of [OF app mem.udp_network_axioms d n r c] by (auto simp: fatal_reply_def)
  then show ?thesis using app r c by blast
qed

text \<open>The process with the defaults of the configuration and an empty zone directory\<close>

definition empty_walk :: "string \<Rightarrow> walk_entry list" where
  "empty_walk dir = [WalkDirEntry dir]"

theorem main_exit_status_witness:
  "main sample_extern (mem_config \<lparr>me_zones = '''', me_servers = ''''\<rparr>) mem_zap (global_init mem_zap)
     ref_lru sample_Load empty_walk script_dial sample_env mem_sockets stay False empty_net = Ret 0"
proof -
  let ?lib = "mem_config \<lparr>me_zones = '''', me_servers = ''''\<rparr>"
  have cfg: "config_Load sample_extern ?lib = Ret DEFAULT_APP_CONFIG" by code_simp
  have "is_ret (buildApplication sample_extern ref_lru sample_Load empty_walk script_dial sample_env DEFAULT_APP_CONFIG
      :: (script, ref_lru, string) application outcome)"
    by code_simp
  then obtain app :: "(script, ref_lru, string) application"
    where app: "buildApplication sample_extern ref_lru sample_Load empty_walk script_dial sample_env DEFAULT_APP_CONFIG = Ret app"
    by (cases "buildApplication sample_extern ref_lru sample_Load empty_walk script_dial sample_env DEFAULT_APP_CONFIG
      :: (script, ref_lru, string) application outcome") auto
  have t: "ap_transport app = NewUDPTransport ('':'' @ show_int (cfg_Port DEFAULT_APP_CONFIG)) (NewUDPCodec sample_extern)"
    using buildApplication_Ret [OF app] by metis
  have start: "is_ret (snd (snd (udp_Start mem_sockets (ap_transport app) empty_net)))"
    by (simp add: t udp_Start_def mem_sockets_def mem_Resolve_def NewUDPTransport_def empty_net_def)
  have o: "mem_opened empty_net = {}" by (simp add: mem_opened_def empty_net_def)
  have st: "\<forall>m. mem_opened (stay m) = mem_opened m" by (simp add: stay_def)
  have load: "\<forall>path. \<not> panics (sample_Load path)" by (simp add: sample_Load_def)
  have lru: "\<forall>n. \<not> panics (lru_New ref_lru n)" by (simp add: ref_lru_def ref_New_def)
  show ?thesis
    unfolding main_exit_status [OF mem_lib.config_library_axioms mem_zap.zap_library_axioms mem.udp_network_axioms
        o st load lru]
    using cfg app start by auto
qed

end
